(* ===== verification/Prelude.thy ===== *)
theory Prelude
  imports Main "HOL-Library.Word"
begin

text \<open>
  Shared vocabulary of the development: the machine integer types of the kernel code, the
  byte order conversions, reachability in a transition system with the rule for proving
  invariants, and the generic lemmas on lists, maps and words that the component theories
  use.
\<close>

unbundle bit_operations_syntax

section \<open>Machine integers\<close>

type_synonym u8 = "8 word"
type_synonym u16 = "16 word"
type_synonym u32 = "32 word"
type_synonym u64 = "64 word"
type_synonym bytes = "u8 list"

named_theorems wg_defs \<open>definitions of constants that proofs unfold together\<close>
named_theorems unat_simps \<open>readings of word operations as natural numbers\<close>

text \<open>Kernel error codes, as the negative \<open>errno\<close> values that the functions return.\<close>

datatype errno =
    EINVAL | ENOMEM | ENOSPC | EPIPE | EBUSY | ENONET | EAFNOSUPPORT | ENOKEY
  | EPROTONOSUPPORT | EDESTADDRREQ | EMSGSIZE | ENODEV | EOPNOTSUPP | EPERM
  | EPFNOSUPPORT | EADDRINUSE | EBADR

section \<open>Words read as natural numbers\<close>

lemma unat_drop_bit_div [unat_simps]: "unat (drop_bit n w) = unat w div 2 ^ n"
  unfolding unat_drop_bit_eq by (rule drop_bit_eq_div)

lemma unat_and_mask_mod: "unat (w AND mask n) = unat w mod 2 ^ n" for w :: "'a::len word"
  unfolding take_bit_eq_mask [symmetric] unsigned_take_bit_eq by (rule take_bit_eq_mod)

lemma unat_and_63 [unat_simps]: "unat (w AND 63) = unat w mod 64" for w :: u64
  using unat_and_mask_mod [of w 6] by (simp add: mask_eq_exp_minus_1)

lemma unat_and_127 [unat_simps]: "unat (w AND 127) = unat w mod 128" for w :: u64
  using unat_and_mask_mod [of w 7] by (simp add: mask_eq_exp_minus_1)

lemma unat_add_small:
  "unat a + unat b < 2 ^ LENGTH('a) \<Longrightarrow> unat (a + b) = unat a + unat b" for a b :: "'a::len word"
  using unat_add_lem by blast

lemma unat_diff_small: "b \<le> a \<Longrightarrow> unat (a - b) = unat a - unat b" for a b :: "'a::len word"
  by (rule unat_sub)

section \<open>Little-endian byte strings\<close>

text \<open>
  The wire structures are packed and little endian; a cast between a structure and its bytes
  is \<open>le_bytes\<close> in one direction and \<open>le_word\<close> in the other.
\<close>

definition le_bytes :: "nat \<Rightarrow> 'a::len word \<Rightarrow> bytes" where
  "le_bytes n w = map (\<lambda>i. ucast (drop_bit (8 * i) w)) [0..<n]"

fun le_word :: "bytes \<Rightarrow> 'a::len word" where
  "le_word [] = 0"
| "le_word (b # bs) = ucast b OR push_bit 8 (le_word bs)"

lemma length_le_bytes [simp]: "length (le_bytes n w) = n"
  by (simp add: le_bytes_def)

lemma bit_le_word:
  "bit (le_word bs :: 'a::len word) i \<longleftrightarrow>
     i < LENGTH('a) \<and> i < 8 * length bs \<and> bit (bs ! (i div 8)) (i mod 8)"
proof (induction bs arbitrary: i)
  case Nil
  show ?case by simp
next
  case (Cons b bs)
  show ?case
  proof (cases "i < 8")
    case True
    then show ?thesis
      by (auto simp: bit_or_iff bit_push_bit_iff bit_ucast_iff)
  next
    case False
    then have "i div 8 = Suc ((i - 8) div 8)" "i mod 8 = (i - 8) mod 8"
      by (simp_all add: div_if mod_if)
    moreover have "\<not> bit b i" using False bit_imp_le_length [of b i] by auto
    ultimately show ?thesis
      using False Cons.IH [of "i - 8"]
      by (auto simp: bit_or_iff bit_push_bit_iff bit_ucast_iff)
  qed
qed

lemma le_word_bytes: "LENGTH('a) = 8 * n \<Longrightarrow> le_word (le_bytes n w) = (w :: 'a::len word)"
proof (rule bit_word_eqI)
  fix i assume "LENGTH('a) = 8 * n" "i < LENGTH('a)"
  then have "i div 8 < n" by auto
  with \<open>i < LENGTH('a)\<close> \<open>LENGTH('a) = 8 * n\<close>
  show "bit (le_word (le_bytes n w) :: 'a word) i = bit w i"
    by (simp add: bit_le_word le_bytes_def bit_ucast_iff bit_drop_bit_eq)
qed

lemma le_word_bytes_u32 [simp]: "le_word (le_bytes 4 w) = (w :: u32)"
  by (rule le_word_bytes) simp

lemma le_word_bytes_u64 [simp]: "le_word (le_bytes 8 w) = (w :: u64)"
  by (rule le_word_bytes) simp

lemma le_bytes_word:
  assumes "length bs = n" "8 * n \<le> LENGTH('a)"
  shows "le_bytes n (le_word bs :: 'a::len word) = bs"
proof (rule nth_equalityI)
  show "length (le_bytes n (le_word bs :: 'a word)) = length bs" using assms(1) by simp
  fix i assume "i < length (le_bytes n (le_word bs :: 'a word))"
  then have i: "i < n" by simp
  have "bit (ucast (drop_bit (8 * i) (le_word bs :: 'a word)) :: u8) j = bit (bs ! i) j" if "j < 8" for j
    using that i assms by (simp add: bit_ucast_iff bit_drop_bit_eq bit_le_word)
  then show "le_bytes n (le_word bs :: 'a word) ! i = bs ! i"
    using i by (auto simp: le_bytes_def intro!: bit_word_eqI)
qed

section \<open>Reachable states and invariants\<close>

inductive reach :: "('s \<Rightarrow> bool) \<Rightarrow> ('s \<Rightarrow> 's \<Rightarrow> bool) \<Rightarrow> 's \<Rightarrow> bool" for init step where
  reach_init: "init s \<Longrightarrow> reach init step s"
| reach_step: "reach init step s \<Longrightarrow> step s t \<Longrightarrow> reach init step t"

locale invariant_system =
  fixes init :: "'s \<Rightarrow> bool" and step :: "'s \<Rightarrow> 's \<Rightarrow> bool" and inv :: "'s \<Rightarrow> bool"
  assumes init_inv: "init s \<Longrightarrow> inv s"
    and step_inv: "inv s \<Longrightarrow> step s t \<Longrightarrow> inv t"
begin

lemma reach_inv: "reach init step s \<Longrightarrow> inv s"
  by (induction rule: reach.induct) (auto intro: init_inv step_inv)

end

section \<open>Lists\<close>

lemma nth_fold_update:
  assumes "\<forall>i \<in> set is. f i < length xs"
  shows "length (fold (\<lambda>i ys. ys[f i := v]) is xs) = length xs \<and>
    (\<forall>k < length xs. fold (\<lambda>i ys. ys[f i := v]) is xs ! k = (if k \<in> f ` set is then v else xs ! k))"
  using assms
proof (induction "is" arbitrary: xs)
  case Nil
  show ?case by simp
next
  case (Cons a "is")
  then show ?case by (auto simp: nth_list_update)
qed

lemma length_fold_update [simp]: "length (fold (\<lambda>i ys. ys[f i := v]) is xs) = length xs"
  by (induction "is" arbitrary: xs) auto

end
