(* ===== verification/Messages.thy ===== *)
theory Messages
  imports Prelude
begin

text \<open>
  The constants and the wire structures of \<^verbatim>\<open>messages.h\<close>. Lengths are natural numbers, the
  limits that the code compares with 64-bit counters are 64-bit words. A structure is a record
  and its memory layout is the concatenation of its fields (the kernel declares no padding here:
  every field is naturally aligned), so a cast from the bytes of a packet to a structure is the
  inverse of \<open>*_bytes\<close>.
\<close>

section \<open>Lengths\<close>

definition NOISE_PUBLIC_KEY_LEN :: nat where [wg_defs]: "NOISE_PUBLIC_KEY_LEN = 32"
definition NOISE_SYMMETRIC_KEY_LEN :: nat where [wg_defs]: "NOISE_SYMMETRIC_KEY_LEN = 32"
definition NOISE_TIMESTAMP_LEN :: nat where [wg_defs]: "NOISE_TIMESTAMP_LEN = 8 + 4"
definition NOISE_AUTHTAG_LEN :: nat where [wg_defs]: "NOISE_AUTHTAG_LEN = 16"
definition NOISE_HASH_LEN :: nat where [wg_defs]: "NOISE_HASH_LEN = 32"

definition noise_encrypted_len :: "nat \<Rightarrow> nat" where [wg_defs]:
  "noise_encrypted_len plain_len = plain_len + NOISE_AUTHTAG_LEN"

definition COOKIE_SECRET_MAX_AGE :: u64 where [wg_defs]: "COOKIE_SECRET_MAX_AGE = 2 * 60"
definition COOKIE_SECRET_LATENCY :: u64 where [wg_defs]: "COOKIE_SECRET_LATENCY = 5"
definition COOKIE_NONCE_LEN :: nat where [wg_defs]: "COOKIE_NONCE_LEN = 24"
definition COOKIE_LEN :: nat where [wg_defs]: "COOKIE_LEN = 16"

section \<open>Counter sizes and protocol limits\<close>

text \<open>The kernels of this repository are 64-bit, so \<open>BITS_PER_LONG\<close> is 64.\<close>

definition BITS_PER_LONG :: u64 where [wg_defs]: "BITS_PER_LONG = 64"
definition COUNTER_BITS_TOTAL :: u64 where [wg_defs]: "COUNTER_BITS_TOTAL = 8192"
definition COUNTER_REDUNDANT_BITS :: u64 where [wg_defs]: "COUNTER_REDUNDANT_BITS = BITS_PER_LONG"
definition COUNTER_WINDOW_SIZE :: u64 where [wg_defs]:
  "COUNTER_WINDOW_SIZE = COUNTER_BITS_TOTAL - COUNTER_REDUNDANT_BITS"

definition U64_MAX :: u64 where [wg_defs]: "U64_MAX = - 1"
definition REKEY_AFTER_MESSAGES :: u64 where [wg_defs]: "REKEY_AFTER_MESSAGES = 2 ^ 60"
definition REJECT_AFTER_MESSAGES :: u64 where [wg_defs]:
  "REJECT_AFTER_MESSAGES = U64_MAX - COUNTER_WINDOW_SIZE - 1"
definition REKEY_TIMEOUT :: u64 where [wg_defs]: "REKEY_TIMEOUT = 5"
definition REKEY_AFTER_TIME :: u64 where [wg_defs]: "REKEY_AFTER_TIME = 120"
definition REJECT_AFTER_TIME :: u64 where [wg_defs]: "REJECT_AFTER_TIME = 180"
definition INITIATIONS_PER_SECOND :: u64 where [wg_defs]: "INITIATIONS_PER_SECOND = 50"
definition MAX_PEERS_PER_DEVICE :: nat where [wg_defs]: "MAX_PEERS_PER_DEVICE = 2 ^ 20"
definition KEEPALIVE_TIMEOUT :: u64 where [wg_defs]: "KEEPALIVE_TIMEOUT = 10"
definition MAX_TIMER_HANDSHAKES :: u32 where [wg_defs]: "MAX_TIMER_HANDSHAKES = 90 div 5"
definition MAX_QUEUED_INCOMING_HANDSHAKES :: nat where [wg_defs]:
  "MAX_QUEUED_INCOMING_HANDSHAKES = 4096"
definition MAX_STAGED_PACKETS :: nat where [wg_defs]: "MAX_STAGED_PACKETS = 128"
definition MAX_QUEUED_PACKETS :: nat where [wg_defs]: "MAX_QUEUED_PACKETS = 1024"

definition NSEC_PER_SEC :: u64 where [wg_defs]: "NSEC_PER_SEC = 1000000000"

section \<open>Message types\<close>

definition MESSAGE_HANDSHAKE_INITIATION :: u32 where [wg_defs]: "MESSAGE_HANDSHAKE_INITIATION = 1"
definition MESSAGE_HANDSHAKE_RESPONSE :: u32 where [wg_defs]: "MESSAGE_HANDSHAKE_RESPONSE = 2"
definition MESSAGE_HANDSHAKE_COOKIE :: u32 where [wg_defs]: "MESSAGE_HANDSHAKE_COOKIE = 3"
definition MESSAGE_DATA :: u32 where [wg_defs]: "MESSAGE_DATA = 4"

section \<open>Wire structures\<close>

record message_macs =
  mac1 :: bytes
  mac2 :: bytes

record message_handshake_initiation =
  init_type :: u32
  init_sender_index :: u32
  init_unencrypted_ephemeral :: bytes
  init_encrypted_static :: bytes
  init_encrypted_timestamp :: bytes
  init_macs :: message_macs

record message_handshake_response =
  resp_type :: u32
  resp_sender_index :: u32
  resp_receiver_index :: u32
  resp_unencrypted_ephemeral :: bytes
  resp_encrypted_nothing :: bytes
  resp_macs :: message_macs

record message_handshake_cookie =
  cook_type :: u32
  cook_receiver_index :: u32
  cook_nonce :: bytes
  cook_encrypted_cookie :: bytes

record message_data =
  data_type :: u32
  data_key_idx :: u32
  data_counter :: u64
  data_encrypted_data :: bytes

definition sizeof_message_header :: nat where [wg_defs]: "sizeof_message_header = 4"
definition sizeof_message_macs :: nat where [wg_defs]:
  "sizeof_message_macs = COOKIE_LEN + COOKIE_LEN"
definition sizeof_message_handshake_initiation :: nat where [wg_defs]:
  "sizeof_message_handshake_initiation = sizeof_message_header + 4 + NOISE_PUBLIC_KEY_LEN +
     noise_encrypted_len NOISE_PUBLIC_KEY_LEN + noise_encrypted_len NOISE_TIMESTAMP_LEN +
     sizeof_message_macs"
definition sizeof_message_handshake_response :: nat where [wg_defs]:
  "sizeof_message_handshake_response = sizeof_message_header + 4 + 4 + NOISE_PUBLIC_KEY_LEN +
     noise_encrypted_len 0 + sizeof_message_macs"
definition sizeof_message_handshake_cookie :: nat where [wg_defs]:
  "sizeof_message_handshake_cookie = sizeof_message_header + 4 + COOKIE_NONCE_LEN +
     noise_encrypted_len COOKIE_LEN"
definition sizeof_message_data :: nat where [wg_defs]:
  "sizeof_message_data = sizeof_message_header + 4 + 8"

definition message_data_len :: "nat \<Rightarrow> nat" where [wg_defs]:
  "message_data_len plain_len = noise_encrypted_len plain_len + sizeof_message_data"

definition MESSAGE_PADDING_MULTIPLE :: nat where [wg_defs]: "MESSAGE_PADDING_MULTIPLE = 16"
definition MESSAGE_MINIMUM_LENGTH :: nat where [wg_defs]:
  "MESSAGE_MINIMUM_LENGTH = message_data_len 0"

definition macs_bytes :: "message_macs \<Rightarrow> bytes" where
  "macs_bytes m = mac1 m @ mac2 m"

definition initiation_bytes :: "message_handshake_initiation \<Rightarrow> bytes" where
  "initiation_bytes m = le_bytes 4 (init_type m) @ le_bytes 4 (init_sender_index m) @
     init_unencrypted_ephemeral m @ init_encrypted_static m @ init_encrypted_timestamp m @
     macs_bytes (init_macs m)"

definition response_bytes :: "message_handshake_response \<Rightarrow> bytes" where
  "response_bytes m = le_bytes 4 (resp_type m) @ le_bytes 4 (resp_sender_index m) @
     le_bytes 4 (resp_receiver_index m) @ resp_unencrypted_ephemeral m @
     resp_encrypted_nothing m @ macs_bytes (resp_macs m)"

definition cookie_bytes :: "message_handshake_cookie \<Rightarrow> bytes" where
  "cookie_bytes m = le_bytes 4 (cook_type m) @ le_bytes 4 (cook_receiver_index m) @
     cook_nonce m @ cook_encrypted_cookie m"

definition data_bytes :: "message_data \<Rightarrow> bytes" where
  "data_bytes m = le_bytes 4 (data_type m) @ le_bytes 4 (data_key_idx m) @
     le_bytes 8 (data_counter m) @ data_encrypted_data m"

text \<open>The casts of the bytes of a packet to a structure.\<close>

definition field :: "nat \<Rightarrow> nat \<Rightarrow> bytes \<Rightarrow> bytes" where
  "field off len bs = take len (drop off bs)"

definition macs_of :: "bytes \<Rightarrow> message_macs" where
  "macs_of bs = \<lparr>mac1 = field 0 COOKIE_LEN bs, mac2 = field COOKIE_LEN COOKIE_LEN bs\<rparr>"

definition initiation_of :: "bytes \<Rightarrow> message_handshake_initiation" where
  "initiation_of bs = \<lparr>init_type = le_word (field 0 4 bs), init_sender_index = le_word (field 4 4 bs),
     init_unencrypted_ephemeral = field 8 32 bs, init_encrypted_static = field 40 48 bs,
     init_encrypted_timestamp = field 88 28 bs, init_macs = macs_of (drop 116 bs)\<rparr>"

definition response_of :: "bytes \<Rightarrow> message_handshake_response" where
  "response_of bs = \<lparr>resp_type = le_word (field 0 4 bs), resp_sender_index = le_word (field 4 4 bs),
     resp_receiver_index = le_word (field 8 4 bs), resp_unencrypted_ephemeral = field 12 32 bs,
     resp_encrypted_nothing = field 44 16 bs, resp_macs = macs_of (drop 60 bs)\<rparr>"

definition cookie_of :: "bytes \<Rightarrow> message_handshake_cookie" where
  "cookie_of bs = \<lparr>cook_type = le_word (field 0 4 bs), cook_receiver_index = le_word (field 4 4 bs),
     cook_nonce = field 8 24 bs, cook_encrypted_cookie = field 32 32 bs\<rparr>"

definition data_of :: "bytes \<Rightarrow> message_data" where
  "data_of bs = \<lparr>data_type = le_word (field 0 4 bs), data_key_idx = le_word (field 4 4 bs),
     data_counter = le_word (field 8 8 bs), data_encrypted_data = drop 16 bs\<rparr>"

text \<open>The array lengths that the C declarations fix.\<close>

definition wf_macs :: "message_macs \<Rightarrow> bool" where
  "wf_macs m \<longleftrightarrow> length (mac1 m) = COOKIE_LEN \<and> length (mac2 m) = COOKIE_LEN"

definition wf_initiation :: "message_handshake_initiation \<Rightarrow> bool" where
  "wf_initiation m \<longleftrightarrow> length (init_unencrypted_ephemeral m) = NOISE_PUBLIC_KEY_LEN \<and>
     length (init_encrypted_static m) = noise_encrypted_len NOISE_PUBLIC_KEY_LEN \<and>
     length (init_encrypted_timestamp m) = noise_encrypted_len NOISE_TIMESTAMP_LEN \<and>
     wf_macs (init_macs m)"

definition wf_response :: "message_handshake_response \<Rightarrow> bool" where
  "wf_response m \<longleftrightarrow> length (resp_unencrypted_ephemeral m) = NOISE_PUBLIC_KEY_LEN \<and>
     length (resp_encrypted_nothing m) = noise_encrypted_len 0 \<and> wf_macs (resp_macs m)"

definition wf_cookie :: "message_handshake_cookie \<Rightarrow> bool" where
  "wf_cookie m \<longleftrightarrow> length (cook_nonce m) = COOKIE_NONCE_LEN \<and>
     length (cook_encrypted_cookie m) = noise_encrypted_len COOKIE_LEN"

section \<open>Round trips between structures and bytes\<close>

lemma length_initiation_bytes:
  "wf_initiation m \<Longrightarrow> length (initiation_bytes m) = sizeof_message_handshake_initiation"
  by (simp add: wf_initiation_def wf_macs_def initiation_bytes_def macs_bytes_def wg_defs)

lemma length_response_bytes:
  "wf_response m \<Longrightarrow> length (response_bytes m) = sizeof_message_handshake_response"
  by (simp add: wf_response_def wf_macs_def response_bytes_def macs_bytes_def wg_defs)

lemma length_cookie_bytes:
  "wf_cookie m \<Longrightarrow> length (cookie_bytes m) = sizeof_message_handshake_cookie"
  by (simp add: wf_cookie_def cookie_bytes_def wg_defs)

lemma length_data_bytes:
  "length (data_bytes m) = sizeof_message_data + length (data_encrypted_data m)"
  by (simp add: data_bytes_def wg_defs)

lemma macs_of_bytes: "wf_macs m \<Longrightarrow> macs_of (macs_bytes m) = m"
  by (cases m) (simp add: wf_macs_def macs_of_def macs_bytes_def field_def)

lemma initiation_of_bytes: "wf_initiation m \<Longrightarrow> initiation_of (initiation_bytes m) = m"
  using macs_of_bytes [of "init_macs m"]
  by (cases m) (simp add: wf_initiation_def initiation_of_def initiation_bytes_def field_def wg_defs)

lemma response_of_bytes: "wf_response m \<Longrightarrow> response_of (response_bytes m) = m"
  using macs_of_bytes [of "resp_macs m"]
  by (cases m) (simp add: wf_response_def response_of_def response_bytes_def field_def wg_defs)

lemma cookie_of_bytes: "wf_cookie m \<Longrightarrow> cookie_of (cookie_bytes m) = m"
  by (cases m) (simp add: wf_cookie_def cookie_of_def cookie_bytes_def field_def wg_defs)

lemma data_of_bytes: "data_of (data_bytes m) = m"
  by (cases m) (simp add: data_of_def data_bytes_def field_def)

end
