(* ===== verification/Replay_Counter.thy ===== *)
theory Replay_Counter
  imports Messages
begin

text \<open>
  The sliding-window replay filter of the receive path: \<^verbatim>\<open>struct noise_replay_counter\<close> of
  \<^verbatim>\<open>noise.h\<close> and \<^verbatim>\<open>counter_validate\<close> of \<^verbatim>\<open>receive.c\<close> on 64-bit words, the abstract filter
  over natural numbers that remembers every accepted nonce, and the refinement between the two.
\<close>

section \<open>The implementation\<close>

record noise_replay_counter =
  counter :: u64
  backtrack :: "u64 list"

definition backtrack_longs :: u64 where [wg_defs]:
  "backtrack_longs = COUNTER_BITS_TOTAL div BITS_PER_LONG"

definition replay_init :: noise_replay_counter where
  "replay_init = \<lparr>counter = 0, backtrack = replicate 128 0\<rparr>"

text \<open>\<open>for (i = 1; i <= top; ++i) backtrack[(i + index_current) & (longs - 1)] = 0;\<close>\<close>

definition clear_blocks :: "u64 \<Rightarrow> u64 \<Rightarrow> u64 list \<Rightarrow> u64 list" where
  "clear_blocks index_current ntop bt =
     fold (\<lambda>i bt. bt[unat ((of_nat i + index_current) AND (backtrack_longs - 1)) := 0])
       [1..<Suc (unat ntop)] bt"

text \<open>\<open>test_and_set_bit(nr, &backtrack[index])\<close>: the old bit and the array with the bit set.\<close>

definition test_and_set_bit :: "nat \<Rightarrow> nat \<Rightarrow> u64 list \<Rightarrow> bool \<times> u64 list" where
  "test_and_set_bit nr index bt = (bit (bt ! index) nr, bt[index := set_bit nr (bt ! index)])"

definition counter_validate :: "noise_replay_counter \<Rightarrow> u64 \<Rightarrow> bool \<times> noise_replay_counter" where
  "counter_validate c their_counter0 =
     (if counter c \<ge> REJECT_AFTER_MESSAGES + 1 \<or> their_counter0 \<ge> REJECT_AFTER_MESSAGES
      then (False, c)
      else
        let their_counter = their_counter0 + 1 in
        if COUNTER_WINDOW_SIZE + their_counter < counter c then (False, c)
        else
          let index = drop_bit 6 their_counter;
              c1 = (if their_counter > counter c then
                      let index_current = drop_bit 6 (counter c);
                          ntop = min (index - index_current) backtrack_longs
                      in c\<lparr>backtrack := clear_blocks index_current ntop (backtrack c),
                           counter := their_counter\<rparr>
                    else c);
              (old, bt) = test_and_set_bit (unat (their_counter AND (BITS_PER_LONG - 1)))
                            (unat (index AND (backtrack_longs - 1))) (backtrack c1)
          in (\<not> old, c1\<lparr>backtrack := bt\<rparr>))"

fun validate_run :: "noise_replay_counter \<Rightarrow> u64 list \<Rightarrow> bool list \<times> noise_replay_counter" where
  "validate_run c [] = ([], c)"
| "validate_run c (n # ns) =
     (let (r, c') = counter_validate c n; (rs, c'') = validate_run c' ns in (r # rs, c''))"

text \<open>The nonces of a sequence that the filter lets through.\<close>

definition accepted_nonces :: "noise_replay_counter \<Rightarrow> u64 list \<Rightarrow> u64 list" where
  "accepted_nonces c ns = map fst (filter snd (zip ns (fst (validate_run c ns))))"

text \<open>
  The module's own test, \<^verbatim>\<open>wg_packet_counter_selftest\<close>: seven runs, each from a zeroed counter
  (\<open>T_INIT\<close>), of calls \<open>T(n, v)\<close> with the expected result. The argument is the result of
  \<open>kmalloc\<close>.
\<close>

definition T_LIM :: u64 where [wg_defs]: "T_LIM = COUNTER_WINDOW_SIZE + 1"

definition selftest_fixed :: "(u64 \<times> bool) list" where
  "selftest_fixed =
    [(0, True), (1, True), (1, False), (9, True), (8, True), (7, True), (7, False),
     (T_LIM, True), (T_LIM - 1, True), (T_LIM - 1, False), (T_LIM - 2, True),
     (2, True), (2, False), (T_LIM + 16, True), (3, False), (T_LIM + 16, False),
     (T_LIM * 4, True), (T_LIM * 4 - (T_LIM - 1), True), (10, False),
     (T_LIM * 4 - T_LIM, False), (T_LIM * 4 - (T_LIM + 1), False),
     (T_LIM * 4 - (T_LIM - 2), True), (T_LIM * 4 + 1 - T_LIM, False), (0, False),
     (REJECT_AFTER_MESSAGES, False), (REJECT_AFTER_MESSAGES - 1, True),
     (REJECT_AFTER_MESSAGES, False), (REJECT_AFTER_MESSAGES - 1, False),
     (REJECT_AFTER_MESSAGES - 2, True), (REJECT_AFTER_MESSAGES + 1, False),
     (REJECT_AFTER_MESSAGES + 2, False), (REJECT_AFTER_MESSAGES - 2, False),
     (REJECT_AFTER_MESSAGES - 3, True), (0, False)]"

definition selftest_up :: "nat \<Rightarrow> nat \<Rightarrow> (u64 \<times> bool) list" where
  "selftest_up lo hi = map (\<lambda>i. (of_nat i, True)) [lo..<Suc hi]"

definition selftest_down :: "nat \<Rightarrow> nat \<Rightarrow> (u64 \<times> bool) list" where
  "selftest_down hi lo = map (\<lambda>i. (of_nat i, True)) (rev [lo..<Suc hi])"

definition selftest_runs :: "(u64 \<times> bool) list list" where
  "selftest_runs = (let w = unat COUNTER_WINDOW_SIZE in
    [selftest_fixed,
     selftest_up 1 w @ [(0, True), (0, False)],
     selftest_up 2 (w + 1) @ [(1, True), (0, False)],
     selftest_down w 0,
     selftest_down (w + 1) 1 @ [(0, False)],
     selftest_down w 1 @ [(COUNTER_WINDOW_SIZE + 1, True), (0, False)],
     selftest_down w 1 @ [(0, True), (COUNTER_WINDOW_SIZE + 1, True)]])"

definition wg_packet_counter_selftest :: "bool \<Rightarrow> bool" where
  "wg_packet_counter_selftest kmalloc_ok \<longleftrightarrow> kmalloc_ok \<and>
     list_all (\<lambda>run. fst (validate_run replay_init (map fst run)) = map snd run) selftest_runs"

section \<open>The abstract filter\<close>

text \<open>
  The specification keeps one more than the greatest accepted nonce and the set of all accepted
  nonces. A nonce is accepted when it is below the message limit, not older than the window and
  not accepted before.
\<close>

record replay_spec =
  next_nonce :: nat
  accepted :: "nat set"

definition spec_accepts :: "replay_spec \<Rightarrow> nat \<Rightarrow> bool" where
  "spec_accepts s n \<longleftrightarrow> n < unat REJECT_AFTER_MESSAGES \<and> next_nonce s \<le> n + 1 + 8128 \<and>
     n \<notin> accepted s"

definition spec_validate :: "replay_spec \<Rightarrow> nat \<Rightarrow> bool \<times> replay_spec" where
  "spec_validate s n =
     (if spec_accepts s n
      then (True, \<lparr>next_nonce = max (next_nonce s) (n + 1), accepted = insert n (accepted s)\<rparr>)
      else (False, s))"

fun spec_run :: "replay_spec \<Rightarrow> nat list \<Rightarrow> bool list \<times> replay_spec" where
  "spec_run s [] = ([], s)"
| "spec_run s (n # ns) =
     (let (r, s') = spec_validate s n; (rs, s'') = spec_run s' ns in (r # rs, s''))"

definition spec_init :: replay_spec where
  "spec_init = \<lparr>next_nonce = 0, accepted = {}\<rparr>"

text \<open>
  The simulation relation: the 128 words hold, for each of the last 128 blocks of 64 counter
  values up to the block of \<open>counter\<close>, exactly the bits of the accepted nonces.
\<close>

definition live_block :: "nat \<Rightarrow> nat \<Rightarrow> bool" where
  "live_block ntop b \<longleftrightarrow> b \<le> ntop div 64 \<and> ntop div 64 < b + 128"

definition slot :: "nat set \<Rightarrow> nat \<Rightarrow> bool" where
  "slot acc m \<longleftrightarrow> 0 < m \<and> m - 1 \<in> acc"

definition replay_sim :: "noise_replay_counter \<Rightarrow> replay_spec \<Rightarrow> bool" where
  "replay_sim c s \<longleftrightarrow> unat (counter c) = next_nonce s \<and> length (backtrack c) = 128 \<and>
     next_nonce s \<le> unat REJECT_AFTER_MESSAGES \<and> (\<forall>n \<in> accepted s. n < next_nonce s) \<and>
     (\<forall>b j. live_block (next_nonce s) b \<longrightarrow> j < 64 \<longrightarrow>
        bit (backtrack c ! (b mod 128)) j = slot (accepted s) (64 * b + j))"

section \<open>Refinement\<close>

lemma reject_val [unat_simps]:
  "unat REJECT_AFTER_MESSAGES = 18446744073709543486"
  "unat (REJECT_AFTER_MESSAGES + 1) = 18446744073709543487"
  "unat COUNTER_WINDOW_SIZE = 8128" "unat backtrack_longs = 128" "unat (backtrack_longs - 1) = 127"
  by (simp_all add: wg_defs)

lemma replay_sim_init: "replay_sim replay_init spec_init"
  by (auto simp: replay_sim_def replay_init_def spec_init_def slot_def live_block_def unat_simps)

lemma nth_clear_blocks:
  assumes "length bt = 128" "k < 128" "unat ic + unat ntop < 2 ^ 64"
  shows "clear_blocks ic ntop bt ! k =
    (if \<exists>i. 1 \<le> i \<and> i \<le> unat ntop \<and> (i + unat ic) mod 128 = k then 0 else bt ! k)"
proof -
  have ix: "unat ((of_nat i + ic) AND (backtrack_longs - 1)) = (i + unat ic) mod 128"
    if "i \<le> unat ntop" for i
  proof -
    have "unat (of_nat i :: u64) = i" using that assms(3) by (simp add: unat_of_nat)
    then have "unat (of_nat i + ic) = i + unat ic"
      using unat_add_small [of "of_nat i" ic] that assms(3) by simp
    then show ?thesis by (simp add: backtrack_longs_def wg_defs unat_and_127)
  qed
  have "clear_blocks ic ntop bt = fold (\<lambda>i bt. bt[(i + unat ic) mod 128 := 0]) [1..<Suc (unat ntop)] bt"
    unfolding clear_blocks_def
  proof (rule fold_cong)
    fix i assume "i \<in> set [1..<Suc (unat ntop)]"
    then have "i \<le> unat ntop" by auto
    then show "(\<lambda>bt. bt[unat ((of_nat i + ic) AND (backtrack_longs - 1)) := 0]) =
        (\<lambda>bt. bt[(i + unat ic) mod 128 := 0 :: u64])"
      by (simp only: ix)
  qed simp_all
  moreover have "k \<in> (\<lambda>i. (i + unat ic) mod 128) ` set [1..<Suc (unat ntop)] \<longleftrightarrow>
     (\<exists>i. 1 \<le> i \<and> i \<le> unat ntop \<and> (i + unat ic) mod 128 = k)"
    by (auto simp: image_iff less_Suc_eq_le)
  ultimately show ?thesis
    using nth_fold_update [of "[1..<Suc (unat ntop)]" "\<lambda>i. (i + unat ic) mod 128" bt 0] assms(1,2)
    by auto
qed

lemma length_clear_blocks [simp]: "length (clear_blocks ic ntop bt) = length bt"
  by (simp add: clear_blocks_def)

text \<open>A block between the old and the new head is cleared, an older live block is untouched.\<close>

lemma cleared_iff:
  fixes cur new b t :: nat
  assumes "cur \<le> new" "t = min (new - cur) 128" "b \<le> new" "new < b + 128"
  shows "(\<exists>i. 1 \<le> i \<and> i \<le> t \<and> (i + cur) mod 128 = b mod 128) \<longleftrightarrow> cur < b"
proof
  assume "\<exists>i. 1 \<le> i \<and> i \<le> t \<and> (i + cur) mod 128 = b mod 128"
  then obtain i where i: "1 \<le> i" "i \<le> t" "(i + cur) mod 128 = b mod 128" by blast
  show "cur < b"
  proof (rule ccontr)
    assume "\<not> cur < b"
    with i(1,2) assms have lt: "b < i + cur" "i + cur - b < 128" by auto
    with i(3) have "128 dvd i + cur - b"
      by (metis less_imp_le mod_eq_dvd_iff_nat)
    with lt show False using nat_dvd_not_less [of "i + cur - b" 128] by auto
  qed
next
  assume "cur < b"
  define i where "i = Suc ((b - cur - 1) mod 128)"
  have "i \<le> t"
  proof (cases "b - cur \<le> 128")
    case True
    with \<open>cur < b\<close> have "i = b - cur" by (auto simp: i_def)
    with True assms show ?thesis by auto
  next
    case False
    with assms have "t = 128" by auto
    then show ?thesis by (simp add: i_def Suc_le_eq)
  qed
  moreover have "(i + cur) mod 128 = b mod 128"
  proof -
    have "(i + cur) mod 128 = (b - cur - 1 + Suc cur) mod 128"
      unfolding i_def by (metis add_Suc_shift mod_add_left_eq)
    with \<open>cur < b\<close> show ?thesis by simp
  qed
  ultimately have "1 \<le> i \<and> i \<le> t \<and> (i + cur) mod 128 = b mod 128"
    by (simp add: i_def)
  then show "\<exists>i. 1 \<le> i \<and> i \<le> t \<and> (i + cur) mod 128 = b mod 128" by blast
qed

text \<open>Moving the head forward keeps the simulation, with the accepted set unchanged.\<close>

lemma clear_blocks_live:
  assumes sim: "replay_sim c s" and new: "next_nonce s < unat n" and lim: "unat n \<le> unat REJECT_AFTER_MESSAGES"
    and live: "live_block (unat n) b" and j: "j < 64"
  shows "bit (clear_blocks (drop_bit 6 (counter c))
      (min (drop_bit 6 n - drop_bit 6 (counter c)) backtrack_longs) (backtrack c) ! (b mod 128)) j =
      slot (accepted s) (64 * b + j)"
proof -
  let ?cur = "unat (drop_bit 6 (counter c))" and ?new = "unat (drop_bit 6 n)"
  let ?ntop = "min (drop_bit 6 n - drop_bit 6 (counter c)) backtrack_longs"
  from sim have cnt: "unat (counter c) = next_nonce s" and len: "length (backtrack c) = 128"
    and acc: "\<forall>m \<in> accepted s. m < next_nonce s"
    and bits: "\<And>b j. live_block (next_nonce s) b \<Longrightarrow> j < 64 \<Longrightarrow>
        bit (backtrack c ! (b mod 128)) j = slot (accepted s) (64 * b + j)"
    by (auto simp: replay_sim_def)
  have cur: "?cur = next_nonce s div 64" and new_eq: "?new = unat n div 64"
    by (simp_all add: unat_drop_bit_div cnt)
  have le: "?cur \<le> ?new" using new by (simp add: cur new_eq div_le_mono)
  then have "unat (drop_bit 6 n - drop_bit 6 (counter c)) = ?new - ?cur"
    by (intro unat_diff_small) (simp add: word_le_nat_alt)
  then have ntop: "unat ?ntop = min (?new - ?cur) 128"
    by (simp add: min_def word_le_nat_alt reject_val)
  have small: "?cur + unat ?ntop < 2 ^ 64"
  proof -
    have "unat (counter c) < 2 ^ LENGTH(64)" by (rule unsigned_less)
    then have "?cur < 2 ^ 58" by (simp add: unat_drop_bit_div)
    then show ?thesis using ntop by simp
  qed
  have rng: "b \<le> ?new" "?new < b + 128" using live by (simp_all add: live_block_def new_eq)
  have nth: "clear_blocks (drop_bit 6 (counter c)) ?ntop (backtrack c) ! (b mod 128) =
      (if ?cur < b then 0 else backtrack c ! (b mod 128))"
    using nth_clear_blocks [OF len _ small, of "b mod 128"]
    unfolding ntop cleared_iff [OF le refl rng] by simp
  show ?thesis
  proof (cases "?cur < b")
    case True
    have "next_nonce s < 64 * b"
      using True unfolding cur by (metis div_less_iff_less_mult mult.commute zero_less_numeral)
    then have "\<not> slot (accepted s) (64 * b + j)" using acc by (fastforce simp: slot_def)
    with True show ?thesis using nth by simp
  next
    case False
    then have "live_block (next_nonce s) b"
      using rng le by (auto simp: live_block_def cur new_eq)
    then show ?thesis using False nth bits [OF _ j] by simp
  qed
qed

lemma set_bit_slot:
  fixes bt :: "u64 list"
  assumes len: "length bt = 128"
    and bits: "\<And>b j. live_block ntop b \<Longrightarrow> j < 64 \<Longrightarrow> bit (bt ! (b mod 128)) j = slot acc (64 * b + j)"
    and m: "0 < m" "live_block ntop (m div 64)"
    and live: "live_block ntop b" and j: "j < 64"
  shows "bit (bt[m div 64 mod 128 := set_bit (m mod 64) (bt ! (m div 64 mod 128))] ! (b mod 128)) (j::nat) =
     slot (insert (m - 1) acc) (64 * b + j)"
proof (cases "b mod 128 = m div 64 mod 128")
  case True
  have "b = m div 64"
  proof (rule ccontr)
    assume "b \<noteq> m div 64"
    with live m(2) have "b < m div 64 \<and> m div 64 - b < 128 \<or> m div 64 < b \<and> b - m div 64 < 128"
      by (auto simp: live_block_def)
    with True show False
      by (metis less_imp_le mod_eq_dvd_iff_nat nat_dvd_not_less zero_less_diff)
  qed
  moreover have "slot (insert (m - 1) acc) (64 * (m div 64) + j) \<longleftrightarrow>
      j = m mod 64 \<or> slot acc (64 * (m div 64) + j)"
  proof -
    have "64 * (m div 64) + j = m \<longleftrightarrow> j = m mod 64"
      using j by (metis add_left_cancel mult_div_mod_eq)
    then show ?thesis using m(1) by (auto simp: slot_def)
  qed
  ultimately show ?thesis
    using True len j bits [OF live j] by (auto simp: bit_set_bit_iff)
next
  case False
  have "64 * b + j \<noteq> m"
  proof
    assume "64 * b + j = m"
    then have "b = m div 64" using j by auto
    with False show False by simp
  qed
  then have "slot (insert (m - 1) acc) (64 * b + j) = slot acc (64 * b + j)"
    using m(1) by (auto simp: slot_def)
  with False len show ?thesis using bits [OF live j] by (simp add: nth_list_update_neq)
qed

lemma live_of_window:
  "ntop \<le> m + 8128 \<Longrightarrow> m \<le> ntop \<Longrightarrow> live_block ntop (m div 64)"
  unfolding live_block_def by auto

text \<open>One validation step of the implementation simulates one step of the specification.\<close>

lemma replay_sim_step:
  assumes sim: "replay_sim c s"
  shows "fst (counter_validate c n) = fst (spec_validate s (unat n)) \<and>
    replay_sim (snd (counter_validate c n)) (snd (spec_validate s (unat n)))"
proof -
  from sim have cnt: "unat (counter c) = next_nonce s" and len: "length (backtrack c) = 128"
    and lim: "next_nonce s \<le> unat REJECT_AFTER_MESSAGES"
    and acc: "\<forall>m \<in> accepted s. m < next_nonce s"
    and bits: "\<And>b j. live_block (next_nonce s) b \<Longrightarrow> j < 64 \<Longrightarrow>
        bit (backtrack c ! (b mod 128)) j = slot (accepted s) (64 * b + j)"
    by (auto simp: replay_sim_def)
  have low: "\<not> counter c \<ge> REJECT_AFTER_MESSAGES + 1"
    using cnt lim by (simp add: word_le_nat_alt reject_val)
  show ?thesis
  proof (cases "n \<ge> REJECT_AFTER_MESSAGES")
    case True
    then show ?thesis
      using sim by (simp add: counter_validate_def spec_validate_def spec_accepts_def word_le_nat_alt)
  next
    case False
    let ?m = "n + 1"
    have m: "unat ?m = unat n + 1"
      using False unat_add_small [of n 1] by (simp add: word_le_nat_alt reject_val)
    have mlim: "unat ?m \<le> unat REJECT_AFTER_MESSAGES"
      using False m by (simp add: word_le_nat_alt)
    have win: "COUNTER_WINDOW_SIZE + ?m < counter c \<longleftrightarrow> unat n + 1 + 8128 < next_nonce s"
      using unat_add_small [of COUNTER_WINDOW_SIZE ?m] m mlim
      by (simp add: word_less_nat_alt cnt reject_val)
    show ?thesis
    proof (cases "unat n + 1 + 8128 < next_nonce s")
      case True
      then show ?thesis
        using False low win sim
        by (simp add: counter_validate_def spec_validate_def spec_accepts_def)
    next
      case inwin: False
      define bt1 where "bt1 = (if ?m > counter c then clear_blocks (drop_bit 6 (counter c))
          (min (drop_bit 6 ?m - drop_bit 6 (counter c)) backtrack_longs) (backtrack c) else backtrack c)"
      define ntop where "ntop = max (next_nonce s) (unat n + 1)"
      have gt: "?m > counter c \<longleftrightarrow> next_nonce s < unat n + 1"
        by (simp add: word_less_nat_alt cnt m)
      have len1: "length bt1 = 128" by (simp add: bt1_def len)
      have bits1: "bit (bt1 ! (b mod 128)) j = slot (accepted s) (64 * b + j)"
        if "live_block ntop b" "j < 64" for b j
      proof (cases "next_nonce s < unat n + 1")
        case True
        then show ?thesis
          using clear_blocks_live [OF sim, of ?m b j] that m mlim gt by (simp add: bt1_def ntop_def)
      next
        case False
        then show ?thesis using bits [of b j] that gt by (simp add: bt1_def ntop_def max_def)
      qed
      have live: "live_block ntop ((unat n + 1) div 64)"
        using inwin by (intro live_of_window) (auto simp: ntop_def)
      have idx: "unat (drop_bit 6 ?m AND (backtrack_longs - 1)) = (unat n + 1) div 64 mod 128"
        using unat_and_127 [of "drop_bit 6 ?m"] by (simp add: wg_defs unat_drop_bit_div m)
      have nr: "unat (?m AND (BITS_PER_LONG - 1)) = (unat n + 1) mod 64"
        using unat_and_63 [of ?m] by (simp add: wg_defs m)
      have old: "bit (bt1 ! ((unat n + 1) div 64 mod 128)) ((unat n + 1) mod 64) \<longleftrightarrow> unat n \<in> accepted s"
        using bits1 [OF live, of "(unat n + 1) mod 64"] by (simp add: slot_def)
      define bt2 where "bt2 = bt1[(unat n + 1) div 64 mod 128 :=
          set_bit ((unat n + 1) mod 64) (bt1 ! ((unat n + 1) div 64 mod 128))]"
      have res: "counter_validate c n = (unat n \<notin> accepted s,
          \<lparr>counter = (if ?m > counter c then ?m else counter c), backtrack = bt2\<rparr>)"
        using False low win inwin old
        by (cases c) (auto simp: counter_validate_def Let_def test_and_set_bit_def idx nr bt1_def bt2_def)
      have top_eq: "unat (if ?m > counter c then ?m else counter c) = ntop"
        using gt by (auto simp: ntop_def cnt m)
      have bits2: "bit (bt2 ! (b mod 128)) j = slot (insert (unat n) (accepted s)) (64 * b + j)"
        if "live_block ntop b" "j < 64" for b j
        using set_bit_slot [OF len1, of ntop "accepted s" "unat n + 1" b j] bits1 live that
        by (simp add: bt2_def)
      have topl: "ntop \<le> unat REJECT_AFTER_MESSAGES" using lim mlim m by (simp add: ntop_def)
      have sim2: "replay_sim \<lparr>counter = (if ?m > counter c then ?m else counter c), backtrack = bt2\<rparr>
          \<lparr>next_nonce = ntop, accepted = insert (unat n) (accepted s)\<rparr>"
        unfolding replay_sim_def
        using bits2 len1 topl top_eq acc by (auto simp: bt2_def ntop_def)
      show ?thesis
      proof (cases "unat n \<in> accepted s")
        case True
        then have "next_nonce s = ntop" "insert (unat n) (accepted s) = accepted s"
          using acc by (auto simp: ntop_def)
        then have "\<lparr>next_nonce = ntop, accepted = insert (unat n) (accepted s)\<rparr> = s" by simp
        with True show ?thesis
          using sim2 by (simp add: res spec_validate_def spec_accepts_def)
      next
        case fresh: False
        then have "spec_accepts s (unat n)"
          using inwin False by (simp add: spec_accepts_def word_le_nat_alt)
        then show ?thesis using fresh sim2 by (simp add: res spec_validate_def ntop_def)
      qed
    qed
  qed
qed

lemma replay_sim_run:
  "replay_sim c s \<Longrightarrow> fst (validate_run c ns) = fst (spec_run s (map unat ns)) \<and>
     replay_sim (snd (validate_run c ns)) (snd (spec_run s (map unat ns)))"
proof (induction ns arbitrary: c s)
  case Nil
  then show ?case by simp
next
  case (Cons n ns)
  from replay_sim_step [OF Cons.prems, of n]
  have "fst (counter_validate c n) = fst (spec_validate s (unat n))"
    and "replay_sim (snd (counter_validate c n)) (snd (spec_validate s (unat n)))" by auto
  with Cons.IH show ?case by (simp add: split_def Let_def)
qed

section \<open>What the filter guarantees\<close>

lemma length_spec_run [simp]: "length (fst (spec_run s ns)) = length ns"
  by (induction ns arbitrary: s) (auto simp: split_def Let_def)

lemma spec_run_append:
  "spec_run s (ms @ ns) = (fst (spec_run s ms) @ fst (spec_run (snd (spec_run s ms)) ns),
     snd (spec_run (snd (spec_run s ms)) ns))"
  by (induction ms arbitrary: s) (auto simp: split_def Let_def)

text \<open>The accepted set grows by exactly the accepted nonces, each of them new.\<close>

lemma spec_run_accepted:
  fixes s :: replay_spec and ns :: "nat list"
  defines "acc \<equiv> map fst (filter snd (zip ns (fst (spec_run s ns))))"
  shows "accepted (snd (spec_run s ns)) = accepted s \<union> set acc \<and> distinct acc \<and>
    set acc \<inter> accepted s = {}"
  unfolding acc_def
proof (induction ns arbitrary: s)
  case Nil
  show ?case by simp
next
  case (Cons n ns)
  define t where "t = snd (spec_validate s n)"
  define A where "A = map fst (filter snd (zip ns (fst (spec_run t ns))))"
  have "map fst (filter snd (zip (n # ns) (fst (spec_run s (n # ns))))) =
      (if spec_accepts s n then n # A else A)"
    by (simp add: split_def Let_def spec_validate_def A_def t_def)
  moreover have "accepted (snd (spec_run t ns)) = accepted t \<union> set A \<and> distinct A \<and> set A \<inter> accepted t = {}"
    using Cons.IH [of t] unfolding A_def .
  moreover have "accepted t = (if spec_accepts s n then insert n (accepted s) else accepted s)"
    by (simp add: t_def spec_validate_def)
  moreover have "snd (spec_run s (n # ns)) = snd (spec_run t ns)"
    by (simp add: split_def Let_def t_def)
  moreover have "spec_accepts s n \<Longrightarrow> n \<notin> accepted s"
    by (simp add: spec_accepts_def)
  ultimately show ?case by auto
qed

lemma spec_next_nonce:
  assumes "\<forall>n \<in> accepted s. n < next_nonce s"
    and "next_nonce s = 0 \<or> next_nonce s - 1 \<in> accepted s"
  shows "(\<forall>n \<in> accepted (snd (spec_run s ns)). n < next_nonce (snd (spec_run s ns))) \<and>
    (next_nonce (snd (spec_run s ns)) = 0 \<or>
     next_nonce (snd (spec_run s ns)) - 1 \<in> accepted (snd (spec_run s ns)))"
  using assms
proof (induction ns arbitrary: s)
  case Nil
  then show ?case by simp
next
  case (Cons n ns)
  have "(\<forall>m \<in> accepted (snd (spec_validate s n)). m < next_nonce (snd (spec_validate s n))) \<and>
    (next_nonce (snd (spec_validate s n)) = 0 \<or>
     next_nonce (snd (spec_validate s n)) - 1 \<in> accepted (snd (spec_validate s n)))"
    using Cons.prems by (auto simp: spec_validate_def max_def)
  with Cons.IH [of "snd (spec_validate s n)"] show ?case by (simp add: split_def Let_def)
qed

lemma filter_zip_map_unat:
  "map fst (filter snd (zip (map unat ns) rs)) = map unat (map fst (filter snd (zip ns rs)))"
  by (simp add: zip_map1 filter_map o_def split_def)

lemma accepted_nonces_spec:
  "map unat (accepted_nonces replay_init ns) =
     map fst (filter snd (zip (map unat ns) (fst (spec_run spec_init (map unat ns)))))"
  using replay_sim_run [OF replay_sim_init, of ns]
  by (simp add: accepted_nonces_def filter_zip_map_unat)

text \<open>A run of fresh nonces that all lie within one window is accepted in full.\<close>

lemma spec_run_fresh:
  assumes "distinct ns" "set ns \<inter> accepted s = {}" "\<forall>n \<in> set ns. n < unat REJECT_AFTER_MESSAGES"
    and "\<forall>n \<in> set ns. lo \<le> n \<and> n \<le> lo + 8128" "next_nonce s \<le> lo + 8129"
  shows "spec_run s ns = (replicate (length ns) True,
    \<lparr>next_nonce = fold (\<lambda>n m. max m (n + 1)) ns (next_nonce s), accepted = accepted s \<union> set ns\<rparr>)"
  using assms
proof (induction ns arbitrary: s)
  case Nil
  then show ?case by simp
next
  case (Cons n ns)
  then have "spec_validate s n =
      (True, \<lparr>next_nonce = max (next_nonce s) (n + 1), accepted = insert n (accepted s)\<rparr>)"
    by (auto simp: spec_validate_def spec_accepts_def)
  moreover have "spec_run \<lparr>next_nonce = max (next_nonce s) (n + 1), accepted = insert n (accepted s)\<rparr> ns =
     (replicate (length ns) True, \<lparr>next_nonce = fold (\<lambda>n m. max m (n + 1)) ns (max (next_nonce s) (n + 1)),
        accepted = insert n (accepted s) \<union> set ns\<rparr>)"
    using Cons.prems by (subst Cons.IH) auto
  ultimately show ?case by simp
qed

lemma fold_max_up: "lo \<le> hi \<Longrightarrow> fold (\<lambda>n m. max m (n + 1)) [lo..<hi] (0::nat) = (if lo < hi then hi else 0)"
proof (induction hi)
  case 0
  then show ?case by simp
next
  case (Suc hi)
  then show ?case by (cases "lo = Suc hi") auto
qed

lemma fold_max_down:
  "fold (\<lambda>n m. max m (n + 1)) (rev [lo..<hi]) (k::nat) = (if lo < hi then max k hi else k)"
proof (induction hi arbitrary: k)
  case 0
  then show ?case by simp
next
  case (Suc hi)
  then show ?case by (auto simp: max_def)
qed

lemmas window_eval = REJECT_AFTER_MESSAGES_def COUNTER_WINDOW_SIZE_def COUNTER_BITS_TOTAL_def
  COUNTER_REDUNDANT_BITS_def BITS_PER_LONG_def U64_MAX_def T_LIM_def

lemma selftest_run_iff:
  "fst (validate_run replay_init (map fst run)) = map snd run \<longleftrightarrow>
   fst (spec_run spec_init (map (unat \<circ> fst) run)) = map snd run"
  using replay_sim_run [OF replay_sim_init, of "map fst run"] by simp

lemma unat_window: "unat COUNTER_WINDOW_SIZE = 8128"
  by (simp add: window_eval)

lemma map_unat_of_nat: "\<forall>i \<in> set is. i < 2 ^ 64 \<Longrightarrow> map (\<lambda>i. unat (of_nat i :: u64)) is = is"
  by (induction "is") (auto simp: unat_of_nat)

lemma selftest_list_run:
  assumes "distinct is" "\<forall>i \<in> set is. lo \<le> i \<and> i \<le> lo + 8128" "lo < 10000"
  shows "fst (spec_run spec_init (map (unat \<circ> fst) (map (\<lambda>i. (of_nat i :: u64, True)) is @ rest))) =
    map snd (map (\<lambda>i. (of_nat i :: u64, True)) is) @
    fst (spec_run \<lparr>next_nonce = fold (\<lambda>n m. max m (n + 1)) is 0, accepted = set is\<rparr>
      (map (unat \<circ> fst) rest))"
proof -
  have le: "i \<le> 20000" if "i \<in> set is" for i
    using assms that by fastforce
  then have "\<forall>i \<in> set is. i < 2 ^ 64"
    by fastforce
  then have "map (unat \<circ> fst) (map (\<lambda>i. (of_nat i :: u64, True)) is) = is"
    using map_unat_of_nat by (simp add: o_def)
  moreover have "\<forall>i \<in> set is. i < unat REJECT_AFTER_MESSAGES"
    using le by (fastforce simp: window_eval)
  then have "spec_run spec_init is = (replicate (length is) True,
      \<lparr>next_nonce = fold (\<lambda>n m. max m (n + 1)) is 0, accepted = set is\<rparr>)"
    using assms spec_run_fresh [of "is" spec_init lo] by (simp add: spec_init_def)
  moreover have "map snd (map (\<lambda>i. (of_nat i :: u64, True)) is) = replicate (length is) True"
    by (simp add: o_def map_replicate_const)
  ultimately show ?thesis
    by (simp only: map_append spec_run_append fst_conv snd_conv)
qed

lemma selftest_fixed_passes:
  "fst (spec_run spec_init (map (unat \<circ> fst) selftest_fixed)) = map snd selftest_fixed"
  by (simp add: selftest_fixed_def spec_init_def spec_validate_def spec_accepts_def window_eval)

lemma selftest_up_then:
  assumes "lo \<le> hi" "hi \<le> lo + 8128" "lo < 10000"
  shows "fst (spec_run spec_init (map (unat \<circ> fst) (selftest_up lo hi @ rest))) =
      map snd (selftest_up lo hi @ rest) \<longleftrightarrow>
    fst (spec_run \<lparr>next_nonce = Suc hi, accepted = {lo..hi}\<rparr> (map (unat \<circ> fst) rest)) = map snd rest"
proof -
  have "fold (\<lambda>n m. max m (n + 1)) [lo..<Suc hi] 0 = Suc hi" "set [lo..<Suc hi] = {lo..hi}"
    using assms by (subst fold_max_up) auto
  then show ?thesis
    using selftest_list_run [of "[lo..<Suc hi]" lo rest] assms
    unfolding selftest_up_def by (simp del: upt_Suc)
qed

lemma selftest_down_then:
  assumes "lo \<le> hi" "hi \<le> lo + 8128" "lo < 10000"
  shows "fst (spec_run spec_init (map (unat \<circ> fst) (selftest_down hi lo @ rest))) =
      map snd (selftest_down hi lo @ rest) \<longleftrightarrow>
    fst (spec_run \<lparr>next_nonce = Suc hi, accepted = {lo..hi}\<rparr> (map (unat \<circ> fst) rest)) = map snd rest"
proof -
  have "fold (\<lambda>n m. max m (n + 1)) (rev [lo..<Suc hi]) 0 = Suc hi" "set (rev [lo..<Suc hi]) = {lo..hi}"
    using assms by (subst fold_max_down) auto
  then show ?thesis
    using selftest_list_run [of "rev [lo..<Suc hi]" lo rest] assms
    unfolding selftest_down_def by (simp del: upt_Suc)
qed

lemma selftest_down_alone:
  "fst (spec_run spec_init (map (unat \<circ> fst) (selftest_down 8128 0))) = map snd (selftest_down 8128 0)"
  using selftest_down_then [of 0 8128 "[]"] by simp

lemma selftest_runs_pass:
  assumes "run \<in> set selftest_runs"
  shows "fst (spec_run spec_init (map (unat \<circ> fst) run)) = map snd run"
  using assms unfolding selftest_runs_def Let_def unat_window set_simps insert_iff empty_iff
  by (elim disjE; hypsubst?;
      simp add: selftest_up_then selftest_down_then selftest_fixed_passes selftest_down_alone
        spec_validate_def spec_accepts_def window_eval del: map_append)

text \<open>
  C11. The word-level filter is exactly the abstract one: on every sequence of received nonces,
  starting from the state a new key pair has, it returns the verdicts of the specification that
  remembers all accepted nonces in a set.
\<close>

theorem counter_validate_refines:
  "fst (validate_run replay_init ns) = fst (spec_run spec_init (map unat ns))"
  using replay_sim_run [OF replay_sim_init, of ns] by simp

text \<open>
  C10. Replay protection: whatever sequence of nonces arrives, no nonce is accepted twice.
\<close>

theorem counter_never_accepts_twice: "distinct (accepted_nonces replay_init ns)"
proof -
  have "distinct (map unat (accepted_nonces replay_init ns))"
    using spec_run_accepted [of spec_init "map unat ns"] by (simp only: accepted_nonces_spec)
  then show ?thesis by (simp add: distinct_map)
qed

text \<open>
  C14. Availability of the window: after any history a nonce is accepted exactly when it is below
  the message limit, has not been accepted before, and lags no accepted nonce by more than the
  window of 8128.
\<close>

theorem counter_accepts_iff:
  "fst (counter_validate (snd (validate_run replay_init ns)) n) \<longleftrightarrow>
     n < REJECT_AFTER_MESSAGES \<and> n \<notin> set (accepted_nonces replay_init ns) \<and>
     (\<forall>m \<in> set (accepted_nonces replay_init ns). unat m \<le> unat n + unat COUNTER_WINDOW_SIZE)"
proof -
  let ?s = "snd (spec_run spec_init (map unat ns))"
  have sim: "replay_sim (snd (validate_run replay_init ns)) ?s"
    using replay_sim_run [OF replay_sim_init, of ns] by simp
  have acc: "accepted ?s = unat ` set (accepted_nonces replay_init ns)"
    using spec_run_accepted [of spec_init "map unat ns"]
    by (simp only: accepted_nonces_spec [symmetric] set_map) (simp add: spec_init_def)
  have "(\<forall>m \<in> accepted ?s. m < next_nonce ?s) \<and> (next_nonce ?s = 0 \<or> next_nonce ?s - 1 \<in> accepted ?s)"
    by (rule spec_next_nonce) (simp_all add: spec_init_def)
  then have "next_nonce ?s \<le> unat n + 1 + 8128 \<longleftrightarrow> (\<forall>m \<in> accepted ?s. m \<le> unat n + 8128)"
    by (cases "next_nonce ?s = 0") fastforce+
  then show ?thesis
    using replay_sim_step [OF sim, of n] unfolding spec_validate_def spec_accepts_def acc
    by (auto simp: unat_window word_less_nat_alt dest: unsigned_word_eqI)
qed

theorem counter_accepts_iff_witness:
  "fst (counter_validate (snd (validate_run replay_init [0, 9000])) 872) \<and>
   \<not> fst (counter_validate (snd (validate_run replay_init [0, 9000])) 871)"
proof -
  have "fst (validate_run replay_init [0, 9000]) = [True, True]"
    using replay_sim_run [OF replay_sim_init, of "[0, 9000]"]
    by (simp add: spec_init_def spec_validate_def spec_accepts_def window_eval)
  then have "accepted_nonces replay_init [0, 9000] = [0, 9000]"
    by (simp add: accepted_nonces_def)
  then show ?thesis
    unfolding counter_accepts_iff by (simp add: window_eval)
qed

text \<open>
  The module's own start-up test of the replay filter succeeds whenever its allocation does.
\<close>

theorem counter_selftest_passes: "wg_packet_counter_selftest True"
  by (simp add: wg_packet_counter_selftest_def list_all_iff selftest_run_iff selftest_runs_pass)

end
