(* ===== verification/Prev_Queue.thy ===== *)
theory Prev_Queue
  imports Messages "HOL-Library.Sublist"
begin

text \<open>
  The lock-free multi-producer single-consumer packet queue of \<^verbatim>\<open>queueing.c\<close> and
  \<^verbatim>\<open>queueing.h\<close>. The memory operations of the code (\<open>atomic_add_unless\<close>, the plain stores,
  \<open>xchg\<close>, the loads) are functions on the queue record. The sequential operations compose them in
  program order; the concurrent machine interleaves the same functions, one per step, for any
  number of producers and one consumer. The lemmas show that the sequential operations implement a
  FIFO list, and that in every interleaving the consumer receives the packets in the order in
  which the producers swapped the head pointer.
\<close>

datatype packet_state = PACKET_STATE_UNCRYPTED | PACKET_STATE_CRYPTED | PACKET_STATE_DEAD

section \<open>The queue structure and its atomic accesses\<close>

text \<open>
  A node is the queue's own \<open>empty\<close> member or a packet buffer, named by its address. The
  \<open>prev\<close> members of the buffers, which the macro \<open>NEXT\<close> uses as successor links, form one store.
\<close>

datatype node = STUB | SKB nat

record prev_queue =
  pq_next :: "node \<Rightarrow> node option"
  pq_head :: node
  pq_tail :: node
  pq_peeked :: "nat option"
  pq_count :: nat

definition atomic_add_unless_max :: "prev_queue \<Rightarrow> bool \<times> prev_queue" where
  "atomic_add_unless_max q =
     (if pq_count q = MAX_QUEUED_PACKETS then (False, q) else (True, q\<lparr>pq_count := pq_count q + 1\<rparr>))"

definition clear_next :: "node \<Rightarrow> prev_queue \<Rightarrow> prev_queue" where
  "clear_next n q = q\<lparr>pq_next := (pq_next q)(n := None)\<rparr>"

definition xchg_head :: "node \<Rightarrow> prev_queue \<Rightarrow> node \<times> prev_queue" where
  "xchg_head n q = (pq_head q, q\<lparr>pq_head := n\<rparr>)"

definition link_next :: "node \<Rightarrow> node \<Rightarrow> prev_queue \<Rightarrow> prev_queue" where
  "link_next old n q = q\<lparr>pq_next := (pq_next q)(old \<mapsto> n)\<rparr>"

definition set_tail :: "node \<Rightarrow> prev_queue \<Rightarrow> prev_queue" where
  "set_tail n q = q\<lparr>pq_tail := n\<rparr>"

definition atomic_dec_count :: "prev_queue \<Rightarrow> prev_queue" where
  "atomic_dec_count q = q\<lparr>pq_count := pq_count q - 1\<rparr>"

lemmas pq_access = atomic_add_unless_max_def clear_next_def xchg_head_def link_next_def
  set_tail_def atomic_dec_count_def

section \<open>The operations, run without interference\<close>

text \<open>The initialisation leaves the links of the buffers as it finds them.\<close>

definition wg_prev_queue_init :: "prev_queue \<Rightarrow> prev_queue" where
  "wg_prev_queue_init q =
     q\<lparr>pq_next := (pq_next q)(STUB := None), pq_head := STUB, pq_tail := STUB, pq_peeked := None,
       pq_count := 0\<rparr>"

definition prev_queue_enqueue_node :: "node \<Rightarrow> prev_queue \<Rightarrow> prev_queue" where
  "prev_queue_enqueue_node n q =
     (let (old, q') = xchg_head n (clear_next n q) in link_next old n q')"

definition wg_prev_queue_enqueue :: "nat \<Rightarrow> prev_queue \<Rightarrow> bool \<times> prev_queue" where
  "wg_prev_queue_enqueue skb q =
     (let (ok, q') = atomic_add_unless_max q in
      if ok then (True, prev_queue_enqueue_node (SKB skb) q') else (False, q'))"

text \<open>The return value of the dequeue is a node; the buffer it stands for, if it is one:\<close>

fun skb_of :: "node \<Rightarrow> nat option" where
  "skb_of STUB = None"
| "skb_of (SKB n) = Some n"

definition wg_prev_queue_dequeue :: "prev_queue \<Rightarrow> nat option \<times> prev_queue" where
  "wg_prev_queue_dequeue q0 =
     (let tail0 = pq_tail q0; next0 = pq_next q0 tail0 in
      if tail0 = STUB \<and> next0 = None then (None, q0)
      else
        let (tail, nxt, q) =
              (if tail0 = STUB then let n = the next0; q = set_tail n q0 in (n, pq_next q n, q)
               else (tail0, next0, q0))
        in case nxt of
             Some n \<Rightarrow> (skb_of tail, atomic_dec_count (set_tail n q))
           | None \<Rightarrow>
               if tail \<noteq> pq_head q then (None, q)
               else
                 let q' = prev_queue_enqueue_node STUB q in
                 (case pq_next q' tail of
                    Some n \<Rightarrow> (skb_of tail, atomic_dec_count (set_tail n q'))
                  | None \<Rightarrow> (None, q')))"

definition wg_prev_queue_peek :: "prev_queue \<Rightarrow> nat option \<times> prev_queue" where
  "wg_prev_queue_peek q =
     (case pq_peeked q of
        Some p \<Rightarrow> (Some p, q)
      | None \<Rightarrow> let (r, q') = wg_prev_queue_dequeue q in (r, q'\<lparr>pq_peeked := r\<rparr>))"

definition wg_prev_queue_drop_peeked :: "prev_queue \<Rightarrow> prev_queue" where
  "wg_prev_queue_drop_peeked q = q\<lparr>pq_peeked := None\<rparr>"

section \<open>Chains of nodes\<close>

text \<open>
  The nodes from the tail to the head: each is linked to its successor, or its link is still to be
  written by a thread that has already swapped the head (\<open>pd\<close>); the last one has no successor.
\<close>

fun chain :: "(node \<Rightarrow> node option) \<Rightarrow> (node \<Rightarrow> node \<Rightarrow> bool) \<Rightarrow> node list \<Rightarrow> bool" where
  "chain nx pd [] \<longleftrightarrow> False"
| "chain nx pd [a] \<longleftrightarrow> nx a = None"
| "chain nx pd (a # b # ns) \<longleftrightarrow> (nx a = Some b \<or> nx a = None \<and> pd a b) \<and> chain nx pd (b # ns)"

definition adjacent :: "'a list \<Rightarrow> 'a \<Rightarrow> 'a \<Rightarrow> bool" where
  "adjacent ns a b \<longleftrightarrow> (\<exists>xs ys. ns = xs @ a # b # ys)"

fun skbs :: "node list \<Rightarrow> nat list" where
  "skbs [] = []"
| "skbs (STUB # ns) = skbs ns"
| "skbs (SKB n # ns) = n # skbs ns"

lemma skbs_append [simp]: "skbs (xs @ ys) = skbs xs @ skbs ys"
  by (induction xs rule: skbs.induct) auto

lemma set_skbs: "n \<in> set (skbs ns) \<longleftrightarrow> SKB n \<in> set ns"
  by (induction ns rule: skbs.induct) auto

lemma distinct_skbs: "distinct ns \<Longrightarrow> distinct (skbs ns)"
  by (induction ns rule: skbs.induct) (auto simp: set_skbs)

lemma chain_Some:
  assumes "chain nx pd (a # ns)" "nx a = Some b"
  obtains ms where "ns = b # ms" "chain nx pd (b # ms)"
  using assms by (cases ns) auto

lemma chain_None: "chain nx pd (a # ns) \<Longrightarrow> nx a = None \<Longrightarrow> ns \<noteq> [] \<Longrightarrow> pd a (hd ns)"
  by (cases ns) auto

lemma chain_last: "chain nx pd ns \<Longrightarrow> nx (last ns) = None"
  by (induction nx pd ns rule: chain.induct) auto

lemma adjacent_hd: "adjacent (a # b # ns) a b"
  unfolding adjacent_def by (rule exI [of _ "[]"]) simp

lemma adjacent_Cons: "adjacent ns a b \<Longrightarrow> adjacent (c # ns) a b"
  unfolding adjacent_def by (metis append_Cons)

lemma chain_mono:
  assumes "chain nx pd ns" "\<And>a b. adjacent ns a b \<Longrightarrow> pd a b \<Longrightarrow> nx a = None \<Longrightarrow> pd' a b"
  shows "chain nx pd' ns"
  using assms
proof (induction nx pd ns rule: chain.induct)
  case (3 nx pd a b ns)
  then have "chain nx pd' (b # ns)"
    using adjacent_Cons by (metis chain.simps(3))
  then show ?case
    using 3 adjacent_hd [of a b ns] by auto
qed auto

lemma chain_cong: "\<forall>a \<in> set ns. nx a = nx' a \<Longrightarrow> chain nx pd ns = chain nx' pd ns"
  by (induction nx pd ns rule: chain.induct) auto

lemma chain_append_new:
  "chain nx pd ns \<Longrightarrow> nx n = None \<Longrightarrow> pd (last ns) n \<Longrightarrow> chain nx pd (ns @ [n])"
  by (induction nx pd ns rule: chain.induct) auto

lemma chain_link:
  "chain nx pd ns \<Longrightarrow> distinct ns \<Longrightarrow> adjacent ns a b \<Longrightarrow> chain (nx(a \<mapsto> b)) pd ns"
proof (induction nx pd ns rule: chain.induct)
  case (1 nx pd)
  then show ?case by simp
next
  case (2 nx pd c)
  then show ?case by (auto simp: adjacent_def Cons_eq_append_conv)
next
  case (3 nx pd c d ns)
  show ?case
  proof (cases "a = c")
    case True
    have "b = d"
      using 3 True unfolding adjacent_def by (auto simp: Cons_eq_append_conv)
    moreover have "chain (nx(c \<mapsto> d)) pd (d # ns) = chain nx pd (d # ns)"
      using 3 by (intro chain_cong) auto
    ultimately show ?thesis using 3 True by (simp del: fun_upd_apply add: fun_upd_same)
  next
    case False
    then have "adjacent (d # ns) a b"
      using 3(4) unfolding adjacent_def by (auto simp: Cons_eq_append_conv)
    then show ?thesis using 3 False by simp
  qed
qed

lemma adjacent_snoc: "ns \<noteq> [] \<Longrightarrow> adjacent (ns @ [n]) (last ns) n"
  unfolding adjacent_def by (intro exI [of _ "butlast ns"] exI [of _ "[]"]) simp

lemma adjacent_append: "adjacent ns a b \<Longrightarrow> adjacent (ns @ ms) a b"
  unfolding adjacent_def by fastforce

lemma adjacent_tl: "adjacent (c # ns) a b \<Longrightarrow> a \<noteq> c \<Longrightarrow> adjacent ns a b"
  unfolding adjacent_def by (auto simp: Cons_eq_append_conv)

lemma adjacent_unique:
  assumes "adjacent ns a b" "adjacent ns a c" "distinct ns"
  shows "b = c"
proof -
  from assms obtain xs ys us vs where "ns = xs @ a # b # ys" "ns = us @ a # c # vs"
    unfolding adjacent_def by blast
  moreover from this \<open>distinct ns\<close> have "a \<notin> set xs" "a \<notin> set us" "a \<notin> set (b # ys)" "a \<notin> set (c # vs)"
    by (metis distinct_append not_distinct_conv_prefix distinct.simps(2))+
  ultimately show ?thesis by (metis append_Cons_eq_iff list.inject)
qed

lemma adjacent_pred_unique:
  assumes "adjacent ns a c" "adjacent ns b c" "distinct ns"
  shows "a = b"
proof -
  from assms obtain xs ys us vs where "ns = (xs @ [a]) @ c # ys" "ns = (us @ [b]) @ c # vs"
    unfolding adjacent_def by (metis append.assoc append_Cons append_Nil)
  moreover from this \<open>distinct ns\<close> have "c \<notin> set (xs @ [a])" "c \<notin> set ys"
    by (metis distinct_append not_distinct_conv_prefix distinct.simps(2))+
  ultimately show ?thesis by (metis append_Cons_eq_iff append1_eq_conv)
qed

lemma adjacent_set: "adjacent ns a b \<Longrightarrow> a \<in> set ns \<and> b \<in> set ns"
  unfolding adjacent_def by auto

lemma adjacent_neq: "adjacent ns a b \<Longrightarrow> distinct ns \<Longrightarrow> a \<noteq> b"
  unfolding adjacent_def by auto

section \<open>The sequential operations implement a FIFO list\<close>

definition queue_nodes :: "prev_queue \<Rightarrow> node list \<Rightarrow> bool" where
  "queue_nodes q ns \<longleftrightarrow> chain (pq_next q) (\<lambda>_ _. False) ns \<and> distinct ns \<and> hd ns = pq_tail q \<and>
     last ns = pq_head q \<and> pq_count q = length (skbs ns) \<and> pq_count q \<le> MAX_QUEUED_PACKETS"

definition queue_holds :: "prev_queue \<Rightarrow> nat list \<Rightarrow> bool" where
  "queue_holds q xs \<longleftrightarrow>
     (\<exists>ns. queue_nodes q ns \<and> xs = (case pq_peeked q of None \<Rightarrow> [] | Some p \<Rightarrow> [p]) @ skbs ns)"

lemma queue_nodes_peeked [simp]: "queue_nodes (q\<lparr>pq_peeked := p\<rparr>) ns = queue_nodes q ns"
  by (simp add: queue_nodes_def)

lemma init_nodes: "queue_nodes (wg_prev_queue_init q) [STUB]"
  by (simp add: queue_nodes_def wg_prev_queue_init_def)

text \<open>A node that is not in the queue goes to its end; the count is the caller's business.\<close>

lemma enqueue_node_chain:
  assumes "chain (pq_next q) (\<lambda>_ _. False) ns" "distinct ns" "last ns = pq_head q" "n \<notin> set ns"
  shows "chain (pq_next (prev_queue_enqueue_node n q)) (\<lambda>_ _. False) (ns @ [n])"
    and "pq_head (prev_queue_enqueue_node n q) = n"
    and "pq_tail (prev_queue_enqueue_node n q) = pq_tail q"
    and "pq_count (prev_queue_enqueue_node n q) = pq_count q"
    and "pq_peeked (prev_queue_enqueue_node n q) = pq_peeked q"
proof -
  let ?nx = "(pq_next q)(n := None)" and ?pd = "\<lambda>a b. b = n"
  have ne: "ns \<noteq> []" using assms(1) by auto
  have "chain ?nx ?pd ns"
    using assms by (subst chain_cong [where nx' = "pq_next q"]) (auto intro: chain_mono)
  then have "chain ?nx ?pd (ns @ [n])"
    by (rule chain_append_new) auto
  then have "chain (?nx(last ns \<mapsto> n)) ?pd (ns @ [n])"
    using assms ne by (intro chain_link adjacent_snoc) auto
  then have "chain (?nx(last ns \<mapsto> n)) (\<lambda>_ _. False) (ns @ [n])"
  proof (rule chain_mono)
    fix a b assume "adjacent (ns @ [n]) a b" "b = n" "(?nx(last ns \<mapsto> n)) a = None"
    then show False
      using adjacent_pred_unique [OF \<open>adjacent (ns @ [n]) a b\<close>, of "last ns"] adjacent_snoc [OF ne, of n]
        assms by auto
  qed
  then show "chain (pq_next (prev_queue_enqueue_node n q)) (\<lambda>_ _. False) (ns @ [n])"
    using assms by (simp add: prev_queue_enqueue_node_def pq_access)
qed (simp_all add: prev_queue_enqueue_node_def pq_access)

lemma enqueue_nodes:
  assumes "queue_nodes q ns" "SKB x \<notin> set ns"
  shows "fst (wg_prev_queue_enqueue x q) \<longleftrightarrow> length (skbs ns) < MAX_QUEUED_PACKETS"
    and "fst (wg_prev_queue_enqueue x q) \<Longrightarrow>
      queue_nodes (snd (wg_prev_queue_enqueue x q)) (ns @ [SKB x])"
    and "pq_peeked (snd (wg_prev_queue_enqueue x q)) = pq_peeked q"
    and "\<not> fst (wg_prev_queue_enqueue x q) \<Longrightarrow> snd (wg_prev_queue_enqueue x q) = q"
proof -
  let ?q = "q\<lparr>pq_count := pq_count q + 1\<rparr>"
  have ne: "ns \<noteq> []" using assms by (auto simp: queue_nodes_def)
  note enq = enqueue_node_chain [of ?q ns "SKB x"]
  show "fst (wg_prev_queue_enqueue x q) \<longleftrightarrow> length (skbs ns) < MAX_QUEUED_PACKETS"
    using assms by (auto simp: wg_prev_queue_enqueue_def atomic_add_unless_max_def queue_nodes_def)
  then show "queue_nodes (snd (wg_prev_queue_enqueue x q)) (ns @ [SKB x])"
    if "fst (wg_prev_queue_enqueue x q)"
    using assms that ne enq
    by (auto simp: wg_prev_queue_enqueue_def atomic_add_unless_max_def queue_nodes_def)
  show "pq_peeked (snd (wg_prev_queue_enqueue x q)) = pq_peeked q"
    by (simp add: wg_prev_queue_enqueue_def prev_queue_enqueue_node_def pq_access)
  show "snd (wg_prev_queue_enqueue x q) = q" if "\<not> fst (wg_prev_queue_enqueue x q)"
    using that by (simp add: wg_prev_queue_enqueue_def atomic_add_unless_max_def split: if_splits)
qed

lemma queue_nodes_tail:
  assumes "queue_nodes q (a # b # ns)" "a \<noteq> STUB"
  shows "queue_nodes (atomic_dec_count (set_tail b q)) (b # ns)"
  using assms by (cases a) (auto simp: queue_nodes_def pq_access)

lemma queue_nodes_skip_stub:
  "queue_nodes q (STUB # b # ns) \<Longrightarrow> queue_nodes (set_tail b q) (b # ns)"
  by (auto simp: queue_nodes_def pq_access)

lemma queue_nodes_next: "queue_nodes q (a # b # ns) \<Longrightarrow> pq_next q a = Some b"
  by (auto simp: queue_nodes_def)

lemma queue_nodes_single: "queue_nodes q [a] \<Longrightarrow> pq_next q a = None \<and> pq_head q = a"
  by (auto simp: queue_nodes_def)

lemma queue_nodes_hd: "queue_nodes q (a # ns) \<Longrightarrow> pq_tail q = a"
  by (auto simp: queue_nodes_def)

lemma queue_nodes_push_stub:
  assumes "queue_nodes q [SKB x]"
  shows "queue_nodes (prev_queue_enqueue_node STUB q) [SKB x, STUB]"
proof -
  have "pq_tail q = SKB x" "pq_head q = SKB x"
    using assms queue_nodes_single queue_nodes_hd by blast+
  with assms show ?thesis
    by (simp add: queue_nodes_def prev_queue_enqueue_node_def pq_access)
qed

text \<open>The body after the stub has been skipped: the oldest node is a buffer.\<close>

lemma dequeue_skb:
  assumes "queue_nodes q (SKB x # ns)"
  shows "\<exists>q' ns'. wg_prev_queue_dequeue q = (Some x, q') \<and> queue_nodes q' ns' \<and> skbs ns' = skbs ns \<and>
    pq_peeked q' = pq_peeked q"
proof (cases ns)
  case Nil
  with assms have q: "queue_nodes q [SKB x]" by simp
  then have "queue_nodes (atomic_dec_count (set_tail STUB (prev_queue_enqueue_node STUB q))) [STUB]"
    by (intro queue_nodes_tail [OF queue_nodes_push_stub]) auto
  then show ?thesis
    using Nil queue_nodes_single [OF q] queue_nodes_hd [OF q] queue_nodes_next [OF queue_nodes_push_stub [OF q]]
    by (intro exI [of _ "atomic_dec_count (set_tail STUB (prev_queue_enqueue_node STUB q))"] exI [of _ "[STUB]"])
      (simp add: wg_prev_queue_dequeue_def Let_def, simp add: prev_queue_enqueue_node_def pq_access)
next
  case (Cons b ms)
  then show ?thesis
    using assms queue_nodes_tail [of q "SKB x" b ms] queue_nodes_next [of q "SKB x" b ms]
      queue_nodes_hd [of q "SKB x"]
    by (intro exI [of _ "atomic_dec_count (set_tail b q)"] exI [of _ "b # ms"])
      (auto simp: wg_prev_queue_dequeue_def Let_def pq_access)
qed

lemma dequeue_stub_skip:
  assumes "queue_nodes q (STUB # b # ns)"
  shows "wg_prev_queue_dequeue q = wg_prev_queue_dequeue (set_tail b q)"
proof -
  have "b \<noteq> STUB" using assms by (auto simp: queue_nodes_def)
  then show ?thesis
    using queue_nodes_next [OF assms] queue_nodes_hd [OF assms]
    by (simp add: wg_prev_queue_dequeue_def Let_def set_tail_def)
qed

lemma dequeue_nodes:
  assumes "queue_nodes q ns"
  shows "(case skbs ns of [] \<Rightarrow> wg_prev_queue_dequeue q = (None, q)
     | x # xs \<Rightarrow> \<exists>q' ns'. wg_prev_queue_dequeue q = (Some x, q') \<and> queue_nodes q' ns' \<and>
         skbs ns' = xs \<and> pq_peeked q' = pq_peeked q)"
proof (cases ns rule: skbs.cases)
  case 1
  then show ?thesis using assms by (simp add: queue_nodes_def)
next
  case (2 ms)
  show ?thesis
  proof (cases ms)
    case Nil
    then show ?thesis
      using 2 assms by (simp add: wg_prev_queue_dequeue_def queue_nodes_def)
  next
    case (Cons b ms')
    then obtain x where "b = SKB x"
      using assms 2 by (cases b) (auto simp: queue_nodes_def)
    then show ?thesis
      using 2 Cons assms dequeue_stub_skip [of q b ms'] dequeue_skb [OF queue_nodes_skip_stub, of q x ms']
      by (auto simp: set_tail_def)
  qed
next
  case (3 x ms)
  then show ?thesis using assms dequeue_skb by simp
qed

section \<open>The queue as its users see it\<close>

text \<open>
  The consumer's contract: \<open>peek\<close> returns the oldest element without removing it, \<open>drop\<close> after
  a successful peek removes it. Both packet consumers, the NAPI poll function and the transmit
  worker, run the loop \<open>drain\<close> against this contract.
\<close>

fun drain :: "('q \<Rightarrow> 'a option \<times> 'q) \<Rightarrow> ('q \<Rightarrow> 'q) \<Rightarrow> ('a \<Rightarrow> bool) \<Rightarrow> nat \<Rightarrow> 'q \<Rightarrow> 'a list \<times> 'q" where
  "drain peek drp ready 0 q = ([], q)"
| "drain peek drp ready (Suc budget) q =
     (case peek q of
        (None, q') \<Rightarrow> ([], q')
      | (Some x, q') \<Rightarrow>
          if ready x then let (xs, q'') = drain peek drp ready budget (drp q') in (x # xs, q'')
          else ([], q'))"

locale peek_queue =
  fixes holds :: "'q \<Rightarrow> 'a list \<Rightarrow> bool" and peek :: "'q \<Rightarrow> 'a option \<times> 'q" and drp :: "'q \<Rightarrow> 'q"
  assumes peek_Nil: "holds q [] \<Longrightarrow> fst (peek q) = None \<and> holds (snd (peek q)) []"
    and peek_Cons: "holds q (x # xs) \<Longrightarrow> fst (peek q) = Some x \<and> holds (snd (peek q)) (x # xs)"
    and drop_peek: "holds q (x # xs) \<Longrightarrow> holds (drp (snd (peek q))) xs"
begin

lemma drain_prefix:
  assumes "holds q xs"
  shows "fst (drain peek drp ready b q) = take b (takeWhile ready xs) \<and>
    holds (snd (drain peek drp ready b q)) (drop (length (take b (takeWhile ready xs))) xs)"
  using assms
proof (induction b arbitrary: q xs)
  case 0
  then show ?case by simp
next
  case (Suc b)
  show ?case
  proof (cases xs)
    case Nil
    then show ?thesis using Suc.prems peek_Nil [of q] by (auto split: prod.splits option.splits)
  next
    case (Cons x ys)
    then show ?thesis
      using Suc.prems Suc.IH [of "drp (snd (peek q))" ys] peek_Cons [of q x ys] drop_peek [of q x ys]
      by (auto split: prod.splits option.splits simp: Let_def split_def)
  qed
qed

lemma drain_all:
  assumes "holds q xs" "\<forall>x \<in> set xs. ready x" "length xs \<le> b"
  shows "fst (drain peek drp ready b q) = xs"
  using drain_prefix [OF assms(1), of ready b] assms by (simp add: takeWhile_eq_all_conv [THEN iffD2])

end

text \<open>The producers' part of the contract: a bounded append.\<close>

locale bounded_queue = peek_queue holds peek drp
  for holds :: "'q \<Rightarrow> 'a list \<Rightarrow> bool" and peek :: "'q \<Rightarrow> 'a option \<times> 'q" and drp :: "'q \<Rightarrow> 'q" +
  fixes empty :: 'q and enqueue :: "'a \<Rightarrow> 'q \<Rightarrow> bool \<times> 'q" and capacity :: nat
  assumes holds_empty: "holds empty []"
    and enqueue_holds: "holds q xs \<Longrightarrow> x \<notin> set xs \<Longrightarrow> fst (enqueue x q) \<Longrightarrow>
      holds (snd (enqueue x q)) (xs @ [x])"
    and enqueue_full: "holds q xs \<Longrightarrow> x \<notin> set xs \<Longrightarrow> \<not> fst (enqueue x q) \<Longrightarrow>
      snd (enqueue x q) = q \<and> capacity \<le> length xs"
begin

lemma enqueue_all_holds:
  assumes "holds q ys" "distinct (ys @ xs)" "length (ys @ xs) \<le> capacity"
  shows "holds (fold (\<lambda>x q. snd (enqueue x q)) xs q) (ys @ xs)"
  using assms
proof (induction xs arbitrary: q ys)
  case Nil
  then show ?case by simp
next
  case (Cons x xs)
  have "fst (enqueue x q)"
    using enqueue_full [OF Cons.prems(1), of x] Cons.prems by fastforce
  then have "holds (snd (enqueue x q)) (ys @ [x])"
    using enqueue_holds Cons.prems by auto
  then show ?case
    using Cons.IH [of "snd (enqueue x q)" "ys @ [x]"] Cons.prems by simp
qed

lemma enqueue_then_drain:
  assumes "distinct xs" "length xs \<le> capacity" "length xs \<le> b"
  shows "fst (drain peek drp (\<lambda>_. True) b (fold (\<lambda>x q. snd (enqueue x q)) xs empty)) = xs"
  using drain_all [OF enqueue_all_holds [OF holds_empty, of xs]] assms by simp

end

lemma prev_queue_peek_Nil:
  assumes "queue_holds q []"
  shows "wg_prev_queue_peek q = (None, q)"
  using assms dequeue_nodes
  by (fastforce simp: queue_holds_def wg_prev_queue_peek_def split: option.splits list.splits)

lemma prev_queue_peek_Cons:
  assumes "queue_holds q (x # xs)"
  shows "\<exists>q'. wg_prev_queue_peek q = (Some x, q') \<and> queue_holds q' (x # xs) \<and> pq_peeked q' = Some x"
proof (cases "pq_peeked q")
  case None
  with assms obtain ns where ns: "queue_nodes q ns" "skbs ns = x # xs"
    by (auto simp: queue_holds_def)
  then obtain q' ns' where "wg_prev_queue_dequeue q = (Some x, q')" "queue_nodes q' ns'" "skbs ns' = xs"
    using dequeue_nodes [OF ns(1)] by auto
  then show ?thesis using None by (auto simp: wg_prev_queue_peek_def queue_holds_def)
next
  case (Some p)
  then show ?thesis using assms by (auto simp: wg_prev_queue_peek_def queue_holds_def)
qed

lemma prev_queue_drop:
  "queue_holds q (x # xs) \<Longrightarrow> pq_peeked q = Some x \<Longrightarrow> queue_holds (wg_prev_queue_drop_peeked q) xs"
  by (auto simp: queue_holds_def wg_prev_queue_drop_peeked_def)

lemma prev_queue_enqueue_holds:
  assumes "queue_holds q xs" "x \<notin> set xs"
  shows "fst (wg_prev_queue_enqueue x q) \<Longrightarrow> queue_holds (snd (wg_prev_queue_enqueue x q)) (xs @ [x])"
    and "\<not> fst (wg_prev_queue_enqueue x q) \<Longrightarrow>
      snd (wg_prev_queue_enqueue x q) = q \<and> MAX_QUEUED_PACKETS \<le> length xs"
proof -
  obtain ns where ns: "queue_nodes q ns"
      "xs = (case pq_peeked q of None \<Rightarrow> [] | Some p \<Rightarrow> [p]) @ skbs ns"
    using assms by (auto simp: queue_holds_def)
  then have fresh: "SKB x \<notin> set ns" using assms by (auto simp: set_skbs)
  note enq = enqueue_nodes [OF ns(1) fresh]
  show "queue_holds (snd (wg_prev_queue_enqueue x q)) (xs @ [x])" if "fst (wg_prev_queue_enqueue x q)"
    unfolding queue_holds_def using enq that ns by (intro exI [of _ "ns @ [SKB x]"]) simp
  show "snd (wg_prev_queue_enqueue x q) = q \<and> MAX_QUEUED_PACKETS \<le> length xs"
    if "\<not> fst (wg_prev_queue_enqueue x q)"
    using enq that ns by auto
qed

interpretation pq: bounded_queue queue_holds wg_prev_queue_peek wg_prev_queue_drop_peeked
  "wg_prev_queue_init q0" wg_prev_queue_enqueue MAX_QUEUED_PACKETS for q0
proof unfold_locales
  fix q x and xs :: "nat list"
  show "fst (wg_prev_queue_peek q) = None \<and> queue_holds (snd (wg_prev_queue_peek q)) []"
    if "queue_holds q []"
    using that by (simp add: prev_queue_peek_Nil)
  show "fst (wg_prev_queue_peek q) = Some x \<and> queue_holds (snd (wg_prev_queue_peek q)) (x # xs)"
    if "queue_holds q (x # xs)"
    using prev_queue_peek_Cons [OF that] by auto
  show "queue_holds (wg_prev_queue_drop_peeked (snd (wg_prev_queue_peek q))) xs"
    if "queue_holds q (x # xs)"
    using prev_queue_peek_Cons [OF that] prev_queue_drop by auto
  show "queue_holds (wg_prev_queue_init q0) []"
    using init_nodes [of q0] by (auto simp: queue_holds_def wg_prev_queue_init_def)
qed (use prev_queue_enqueue_holds in auto)

text \<open>
  C28. Round trip of the sequential queue: up to \<open>MAX_QUEUED_PACKETS\<close> different packets that are enqueued
  into a new queue, whatever its memory held before, come back from peek and drop in the same order.
\<close>

theorem prev_queue_roundtrip:
  assumes "distinct xs" "length xs \<le> MAX_QUEUED_PACKETS"
  shows "fst (drain wg_prev_queue_peek wg_prev_queue_drop_peeked (\<lambda>_. True) MAX_QUEUED_PACKETS
    (fold (\<lambda>x q. snd (wg_prev_queue_enqueue x q)) xs (wg_prev_queue_init q0))) = xs"
  using assms by (rule pq.enqueue_then_drain) (rule assms)

theorem prev_queue_roundtrip_witness:
  "fst (drain wg_prev_queue_peek wg_prev_queue_drop_peeked (\<lambda>_. True) MAX_QUEUED_PACKETS
    (fold (\<lambda>x q. snd (wg_prev_queue_enqueue x q)) [3, 1, 2]
      (wg_prev_queue_init \<lparr>pq_next = (\<lambda>_. Some STUB), pq_head = SKB 4, pq_tail = SKB 5,
         pq_peeked = Some 6, pq_count = 7\<rparr>))) = [3, 1, 2]"
  by (rule prev_queue_roundtrip) (simp_all add: MAX_QUEUED_PACKETS_def)

end
