(* ===== verification/Queue_Concurrency.thy ===== *)
theory Queue_Concurrency
  imports Prev_Queue
begin

text \<open>
  The packet queue under interference. Any number of producers and one consumer execute the
  memory accesses of \<^verbatim>\<open>wg_prev_queue_enqueue\<close> and \<^verbatim>\<open>wg_prev_queue_dequeue\<close>, one access per
  step, in any order. Two history variables record the order in which producers swap the head and
  the order in which the consumer returns packets. The store order is sequentially consistent; the
  release and acquire annotations of the code are what entitles it to that view of the links.
\<close>

section \<open>The machine\<close>

datatype prod_pc =
    PIdle
  | PAdded nat          \<comment> \<open>\<open>atomic_add_unless\<close> succeeded\<close>
  | PCleared nat        \<comment> \<open>\<open>NEXT(skb) = NULL\<close> written\<close>
  | PSwapped node nat   \<comment> \<open>head swapped; the old head is still to be linked\<close>

datatype cons_pc =
    CIdle
  | CLoad node            \<comment> \<open>about to load \<open>NEXT(tail)\<close>\<close>
  | CCheck node           \<comment> \<open>no successor seen; about to compare with \<open>head\<close>\<close>
  | CStub node            \<comment> \<open>about to clear \<open>NEXT(STUB)\<close>\<close>
  | CStubSwap node        \<comment> \<open>about to swap the head for \<open>STUB\<close>\<close>
  | CStubLink node node   \<comment> \<open>about to link the old head to \<open>STUB\<close>\<close>
  | CReload node          \<comment> \<open>about to load \<open>NEXT(tail)\<close> again\<close>
  | CDec node             \<comment> \<open>tail advanced; about to decrement the count and return\<close>

record mpsc =
  mq :: prev_queue
  producers :: "nat \<Rightarrow> prod_pc"
  consumer :: cons_pc
  enq_log :: "nat list"
  deq_log :: "nat list"

fun owns :: "prod_pc \<Rightarrow> nat option" where
  "owns PIdle = None"
| "owns (PAdded n) = Some n"
| "owns (PCleared n) = Some n"
| "owns (PSwapped _ n) = Some n"

text \<open>A producer only enqueues a buffer that is neither in the queue nor in another producer's hands.\<close>

definition fresh :: "mpsc \<Rightarrow> nat \<Rightarrow> bool" where
  "fresh s skb \<longleftrightarrow> skb \<notin> set (drop (length (deq_log s)) (enq_log s)) \<and>
     (\<forall>i. owns (producers s i) \<noteq> Some skb)"

definition mpsc_init :: "mpsc \<Rightarrow> bool" where
  "mpsc_init s \<longleftrightarrow> (\<exists>q. mq s = wg_prev_queue_init q) \<and> producers s = (\<lambda>_. PIdle) \<and>
     consumer s = CIdle \<and> enq_log s = [] \<and> deq_log s = []"

inductive enqueue_step :: "nat \<Rightarrow> mpsc \<Rightarrow> mpsc \<Rightarrow> bool" for i where
  p_full: "\<lbrakk>producers s i = PIdle; \<not> fst (atomic_add_unless_max (mq s))\<rbrakk> \<Longrightarrow>
    enqueue_step i s (s\<lparr>mq := snd (atomic_add_unless_max (mq s))\<rparr>)"
| p_reserve: "\<lbrakk>producers s i = PIdle; fresh s skb; fst (atomic_add_unless_max (mq s))\<rbrakk> \<Longrightarrow>
    enqueue_step i s (s\<lparr>mq := snd (atomic_add_unless_max (mq s)), producers := (producers s)(i := PAdded skb)\<rparr>)"
| p_clear: "producers s i = PAdded skb \<Longrightarrow>
    enqueue_step i s (s\<lparr>mq := clear_next (SKB skb) (mq s), producers := (producers s)(i := PCleared skb)\<rparr>)"
| p_swap: "producers s i = PCleared skb \<Longrightarrow>
    enqueue_step i s (s\<lparr>mq := snd (xchg_head (SKB skb) (mq s)),
      producers := (producers s)(i := PSwapped (fst (xchg_head (SKB skb) (mq s))) skb),
      enq_log := enq_log s @ [skb]\<rparr>)"
| p_link: "producers s i = PSwapped old skb \<Longrightarrow>
    enqueue_step i s (s\<lparr>mq := link_next old (SKB skb) (mq s), producers := (producers s)(i := PIdle)\<rparr>)"

inductive dequeue_step :: "mpsc \<Rightarrow> mpsc \<Rightarrow> bool" where
  c_empty: "\<lbrakk>consumer s = CIdle; pq_tail (mq s) = STUB; pq_next (mq s) STUB = None\<rbrakk> \<Longrightarrow>
    dequeue_step s s"
| c_skip: "\<lbrakk>consumer s = CIdle; pq_tail (mq s) = STUB; pq_next (mq s) STUB = Some n\<rbrakk> \<Longrightarrow>
    dequeue_step s (s\<lparr>mq := set_tail n (mq s), consumer := CLoad n\<rparr>)"
| c_start: "\<lbrakk>consumer s = CIdle; pq_tail (mq s) = t; t \<noteq> STUB\<rbrakk> \<Longrightarrow>
    dequeue_step s (s\<lparr>consumer := CLoad t\<rparr>)"
| c_take: "\<lbrakk>consumer s = CLoad t; pq_next (mq s) t = Some n\<rbrakk> \<Longrightarrow>
    dequeue_step s (s\<lparr>mq := set_tail n (mq s), consumer := CDec t\<rparr>)"
| c_none: "\<lbrakk>consumer s = CLoad t; pq_next (mq s) t = None\<rbrakk> \<Longrightarrow>
    dequeue_step s (s\<lparr>consumer := CCheck t\<rparr>)"
| c_busy: "\<lbrakk>consumer s = CCheck t; t \<noteq> pq_head (mq s)\<rbrakk> \<Longrightarrow>
    dequeue_step s (s\<lparr>consumer := CIdle\<rparr>)"
| c_stub: "\<lbrakk>consumer s = CCheck t; t = pq_head (mq s)\<rbrakk> \<Longrightarrow>
    dequeue_step s (s\<lparr>consumer := CStub t\<rparr>)"
| c_stub_clear: "consumer s = CStub t \<Longrightarrow>
    dequeue_step s (s\<lparr>mq := clear_next STUB (mq s), consumer := CStubSwap t\<rparr>)"
| c_stub_swap: "consumer s = CStubSwap t \<Longrightarrow>
    dequeue_step s (s\<lparr>mq := snd (xchg_head STUB (mq s)),
      consumer := CStubLink t (fst (xchg_head STUB (mq s)))\<rparr>)"
| c_stub_link: "consumer s = CStubLink t old \<Longrightarrow>
    dequeue_step s (s\<lparr>mq := link_next old STUB (mq s), consumer := CReload t\<rparr>)"
| c_reload_take: "\<lbrakk>consumer s = CReload t; pq_next (mq s) t = Some n\<rbrakk> \<Longrightarrow>
    dequeue_step s (s\<lparr>mq := set_tail n (mq s), consumer := CDec t\<rparr>)"
| c_reload_none: "\<lbrakk>consumer s = CReload t; pq_next (mq s) t = None\<rbrakk> \<Longrightarrow>
    dequeue_step s (s\<lparr>consumer := CIdle\<rparr>)"
| c_dec: "\<lbrakk>consumer s = CDec t; skb_of t = Some x\<rbrakk> \<Longrightarrow>
    dequeue_step s (s\<lparr>mq := atomic_dec_count (mq s), consumer := CIdle, deq_log := deq_log s @ [x]\<rparr>)"

definition mpsc_step :: "mpsc \<Rightarrow> mpsc \<Rightarrow> bool" where
  "mpsc_step s t \<longleftrightarrow> (\<exists>i. enqueue_step i s t) \<or> dequeue_step s t"

section \<open>The invariant\<close>

text \<open>Links that a thread has committed to by swapping the head but not yet written:\<close>

definition pend :: "mpsc \<Rightarrow> node \<Rightarrow> node \<Rightarrow> bool" where
  "pend s a b \<longleftrightarrow> (\<exists>n. b = SKB n \<and> (\<exists>i. producers s i = PSwapped a n)) \<or>
     (\<exists>t. consumer s = CStubLink t a \<and> b = STUB)"

definition reserved :: "mpsc \<Rightarrow> nat set" where
  "reserved s = {i. \<exists>n. producers s i = PAdded n \<or> producers s i = PCleared n}"

definition in_hand :: "cons_pc \<Rightarrow> nat list" where
  "in_hand c = (case c of CDec t \<Rightarrow> skbs [t] | _ \<Rightarrow> [])"

definition nodes_ok :: "mpsc \<Rightarrow> node list \<Rightarrow> bool" where
  "nodes_ok s ns \<longleftrightarrow> chain (pq_next (mq s)) (pend s) ns \<and> distinct ns \<and>
     hd ns = pq_tail (mq s) \<and> last ns = pq_head (mq s) \<and>
     (\<forall>a b. pend s a b \<longrightarrow> adjacent ns a b \<and> pq_next (mq s) a = None)"

definition producers_ok :: "mpsc \<Rightarrow> node list \<Rightarrow> bool" where
  "producers_ok s ns \<longleftrightarrow> finite {i. producers s i \<noteq> PIdle} \<and>
     (\<forall>i n. producers s i = PAdded n \<or> producers s i = PCleared n \<longrightarrow> SKB n \<notin> set ns) \<and>
     (\<forall>i n. producers s i = PCleared n \<longrightarrow> pq_next (mq s) (SKB n) = None) \<and>
     (\<forall>i j n. owns (producers s i) = Some n \<longrightarrow> owns (producers s j) = Some n \<longrightarrow> i = j)"

definition consumer_ok :: "mpsc \<Rightarrow> node list \<Rightarrow> bool" where
  "consumer_ok s ns \<longleftrightarrow> (case consumer s of
       CIdle \<Rightarrow> True
     | CLoad t \<Rightarrow> t = pq_tail (mq s) \<and> t \<noteq> STUB
     | CCheck t \<Rightarrow> t = pq_tail (mq s) \<and> t \<noteq> STUB
     | CStub t \<Rightarrow> t = pq_tail (mq s) \<and> t \<noteq> STUB \<and> STUB \<notin> set ns
     | CStubSwap t \<Rightarrow> t = pq_tail (mq s) \<and> t \<noteq> STUB \<and> STUB \<notin> set ns \<and> pq_next (mq s) STUB = None
     | CStubLink t old \<Rightarrow> t = pq_tail (mq s) \<and> t \<noteq> STUB \<and> STUB \<in> set ns
     | CReload t \<Rightarrow> t = pq_tail (mq s) \<and> t \<noteq> STUB \<and> STUB \<in> set ns
     | CDec t \<Rightarrow> t \<noteq> STUB)"

definition count_ok :: "mpsc \<Rightarrow> node list \<Rightarrow> bool" where
  "count_ok s ns \<longleftrightarrow> pq_count (mq s) = card (reserved s) + length (in_hand (consumer s)) + length (skbs ns) \<and>
     pq_count (mq s) \<le> MAX_QUEUED_PACKETS"

definition log_ok :: "mpsc \<Rightarrow> node list \<Rightarrow> bool" where
  "log_ok s ns \<longleftrightarrow> enq_log s = deq_log s @ in_hand (consumer s) @ skbs ns"

definition mpsc_inv_at :: "mpsc \<Rightarrow> node list \<Rightarrow> bool" where
  "mpsc_inv_at s ns \<longleftrightarrow> nodes_ok s ns \<and> producers_ok s ns \<and> consumer_ok s ns \<and> count_ok s ns \<and> log_ok s ns"

definition mpsc_inv :: "mpsc \<Rightarrow> bool" where
  "mpsc_inv s \<longleftrightarrow> (\<exists>ns. mpsc_inv_at s ns)"

lemma mpsc_init_inv: "mpsc_init s \<Longrightarrow> mpsc_inv s"
  unfolding mpsc_inv_def
  by (rule exI [of _ "[STUB]"])
    (auto simp: mpsc_init_def mpsc_inv_at_def nodes_ok_def producers_ok_def consumer_ok_def count_ok_def
      log_ok_def wg_prev_queue_init_def pend_def reserved_def in_hand_def)

subsection \<open>What each access does to the chain\<close>

lemma nodes_frame:
  assumes "nodes_ok s ns" "\<forall>a \<in> set ns. pq_next (mq t) a = pq_next (mq s) a"
    and "pq_head (mq t) = pq_head (mq s)" "pq_tail (mq t) = pq_tail (mq s)" "pend t = pend s"
  shows "nodes_ok t ns"
proof -
  have "chain (pq_next (mq t)) (pend t) ns"
    using assms chain_cong [of ns "pq_next (mq t)" "pq_next (mq s)"] by (simp add: nodes_ok_def)
  moreover have "pend s a b \<Longrightarrow> pq_next (mq t) a = None" for a b
    using assms adjacent_set unfolding nodes_ok_def by metis
  ultimately show ?thesis using assms by (simp add: nodes_ok_def)
qed

lemma nodes_push:
  assumes "nodes_ok s ns" "n \<notin> set ns" "pq_next (mq s) n = None"
    and "pq_next (mq t) = pq_next (mq s)" "pq_head (mq t) = n" "pq_tail (mq t) = pq_tail (mq s)"
    and pend: "\<And>a b. pend t a b \<longleftrightarrow> pend s a b \<or> a = pq_head (mq s) \<and> b = n"
  shows "nodes_ok t (ns @ [n])"
proof -
  have ne: "ns \<noteq> []" using assms by (auto simp: nodes_ok_def)
  have last: "last ns = pq_head (mq s)" "pq_next (mq s) (last ns) = None"
    using assms chain_last unfolding nodes_ok_def by blast+
  have "chain (pq_next (mq s)) (pend t) ns"
    using assms chain_mono [of "pq_next (mq s)" "pend s" ns "pend t"] by (auto simp: nodes_ok_def)
  then have "chain (pq_next (mq t)) (pend t) (ns @ [n])"
    using assms last by (intro chain_append_new) auto
  moreover have "adjacent (ns @ [n]) a b \<and> pq_next (mq t) a = None" if "pend t a b" for a b
  proof (cases "pend s a b")
    case True
    then show ?thesis using assms(1,4) adjacent_append [of ns a b "[n]"] by (auto simp: nodes_ok_def)
  next
    case False
    then show ?thesis using that pend last adjacent_snoc [OF ne, of n] assms(4) by auto
  qed
  ultimately show ?thesis using assms ne by (simp add: nodes_ok_def)
qed

lemma nodes_link:
  assumes "nodes_ok s ns" "pend s a b"
    and "pq_next (mq t) = (pq_next (mq s))(a \<mapsto> b)"
    and "pq_head (mq t) = pq_head (mq s)" "pq_tail (mq t) = pq_tail (mq s)"
    and pend: "\<And>x y. pend t x y \<longleftrightarrow> pend s x y \<and> x \<noteq> a"
  shows "nodes_ok t ns"
proof -
  have "chain ((pq_next (mq s))(a \<mapsto> b)) (pend s) ns"
    using assms by (intro chain_link) (auto simp: nodes_ok_def)
  then have "chain (pq_next (mq t)) (pend t) ns"
    unfolding assms(3) by (rule chain_mono) (auto simp: pend split: if_splits)
  then show ?thesis using assms by (auto simp: nodes_ok_def)
qed

lemma nodes_advance:
  assumes "nodes_ok s ns" "pq_next (mq s) (pq_tail (mq s)) = Some n"
    and "pq_next (mq t) = pq_next (mq s)" "pq_head (mq t) = pq_head (mq s)" "pq_tail (mq t) = n"
    and "pend t = pend s"
  obtains ms where "ns = pq_tail (mq s) # n # ms" "nodes_ok t (n # ms)"
proof -
  let ?t = "pq_tail (mq s)"
  obtain rest where ns: "ns = ?t # rest"
    using assms by (cases ns) (auto simp: nodes_ok_def)
  obtain ms where rest: "rest = n # ms" "chain (pq_next (mq s)) (pend s) (n # ms)"
    using chain_Some [of "pq_next (mq s)" "pend s" ?t rest n] assms ns by (auto simp: nodes_ok_def)
  have "pend s a b \<Longrightarrow> adjacent (n # ms) a b" for a b
    using assms(1,2) adjacent_tl [of ?t "n # ms" a b] unfolding ns rest(1) nodes_ok_def by fastforce
  then have "nodes_ok t (n # ms)"
    using assms ns rest by (auto simp: nodes_ok_def)
  with ns rest that show thesis by blast
qed

subsection \<open>Producers\<close>

lemma reserved_finite: "producers_ok s ns \<Longrightarrow> finite (reserved s)"
  by (rule finite_subset [of _ "{i. producers s i \<noteq> PIdle}"]) (auto simp: producers_ok_def reserved_def)

lemma pend_upd:
  assumes "\<And>a n. producers s i \<noteq> PSwapped a n"
    and "producers t = (producers s)(i := pc)" "consumer t = consumer s"
  shows "pend t a b \<longleftrightarrow> pend s a b \<or> (\<exists>n. pc = PSwapped a n \<and> b = SKB n)"
proof -
  have "(\<exists>j. producers t j = PSwapped a n) \<longleftrightarrow> (\<exists>j. producers s j = PSwapped a n) \<or> pc = PSwapped a n" for n
    using assms by (metis fun_upd_other fun_upd_same)
  then show ?thesis using assms(3) by (simp add: pend_def) blast
qed

lemma pend_producer_irrelevant:
  assumes "\<And>a n. producers s i \<noteq> PSwapped a n" "\<And>a n. pc \<noteq> PSwapped a n"
    and "producers t = (producers s)(i := pc)" "consumer t = consumer s"
  shows "pend t = pend s"
  using pend_upd [OF assms(1,3,4)] assms(2) by (intro ext) auto

lemma finite_producers_upd:
  "finite {j. producers s j \<noteq> PIdle} \<Longrightarrow> finite {j. ((producers s)(i := pc)) j \<noteq> PIdle}"
  by (rule finite_subset [of _ "insert i {j. producers s j \<noteq> PIdle}"]) auto

lemma owner_unique:
  assumes "mpsc_inv_at s ns" "owns (producers s i) = Some n" "owns (producers s j) = Some n"
  shows "i = j"
  using assms unfolding mpsc_inv_at_def producers_ok_def by blast

lemma reserve_inv:
  assumes inv: "mpsc_inv_at s ns" and pc: "producers s i = PIdle" and fresh: "fresh s skb"
    and add: "fst (atomic_add_unless_max (mq s))"
  shows "mpsc_inv_at (s\<lparr>mq := snd (atomic_add_unless_max (mq s)), producers := (producers s)(i := PAdded skb)\<rparr>) ns" (is "mpsc_inv_at ?t ns")
proof -
  have q: "snd (atomic_add_unless_max (mq s)) = (mq s)\<lparr>pq_count := pq_count (mq s) + 1\<rparr>" "pq_count (mq s) \<noteq> MAX_QUEUED_PACKETS"
    using add by (auto simp: atomic_add_unless_max_def split: if_splits)
  have "nodes_ok ?t ns"
    using inv q pc pend_producer_irrelevant [of s i "PAdded skb" ?t]
    by (intro nodes_frame [of s ns ?t]) (simp_all add: mpsc_inv_at_def)
  moreover have "SKB skb \<notin> set ns"
    using inv fresh by (auto simp: mpsc_inv_at_def log_ok_def fresh_def set_skbs [symmetric])
  then have "producers_ok ?t ns"
    using inv fresh finite_producers_upd [of s i]
    by (auto simp: mpsc_inv_at_def producers_ok_def q fresh_def)
  moreover have "i \<notin> reserved s" "reserved ?t = insert i (reserved s)"
    using pc by (auto simp: reserved_def)
  then have "count_ok ?t ns"
    using inv q reserved_finite [of s ns] by (auto simp: mpsc_inv_at_def count_ok_def)
  ultimately show ?thesis
    using inv by (auto simp: mpsc_inv_at_def consumer_ok_def log_ok_def q split: cons_pc.splits)
qed

lemma clear_inv:
  assumes inv: "mpsc_inv_at s ns" and pc: "producers s i = PAdded skb"
  shows "mpsc_inv_at (s\<lparr>mq := clear_next (SKB skb) (mq s), producers := (producers s)(i := PCleared skb)\<rparr>) ns"
    (is "mpsc_inv_at ?t ns")
proof -
  have notin: "SKB skb \<notin> set ns"
    using inv pc by (auto simp: mpsc_inv_at_def producers_ok_def)
  have "nodes_ok ?t ns"
    using inv pc notin pend_producer_irrelevant [of s i "PCleared skb" ?t]
    by (intro nodes_frame [of s ns ?t]) (auto simp: mpsc_inv_at_def clear_next_def)
  moreover have "producers_ok ?t ns"
    using inv pc notin finite_producers_upd [of s i]
    by (fastforce simp: mpsc_inv_at_def producers_ok_def clear_next_def)
  moreover have "reserved ?t = reserved s"
    using pc by (auto simp: reserved_def)
  ultimately show ?thesis
    using inv by (auto simp: mpsc_inv_at_def consumer_ok_def log_ok_def count_ok_def clear_next_def
        split: cons_pc.splits)
qed

lemma swap_inv:
  assumes inv: "mpsc_inv_at s ns" and pc: "producers s i = PCleared skb"
  shows "mpsc_inv_at (s\<lparr>mq := snd (xchg_head (SKB skb) (mq s)),
      producers := (producers s)(i := PSwapped (fst (xchg_head (SKB skb) (mq s))) skb),
      enq_log := enq_log s @ [skb]\<rparr>) (ns @ [SKB skb])" (is "mpsc_inv_at ?t _")
proof -
  have q: "xchg_head (SKB skb) (mq s) = (pq_head (mq s), (mq s)\<lparr>pq_head := SKB skb\<rparr>)"
    by (simp add: xchg_head_def)
  have notin: "SKB skb \<notin> set ns" and nx: "pq_next (mq s) (SKB skb) = None"
    using inv pc by (auto simp: mpsc_inv_at_def producers_ok_def)
  have ne: "ns \<noteq> []" using inv by (auto simp: mpsc_inv_at_def nodes_ok_def)
  have own: "j = i" if "producers s j = PAdded skb \<or> producers s j = PCleared skb" for j
    using owner_unique [OF inv, of j skb i] that pc by auto
  have "nodes_ok ?t (ns @ [SKB skb])"
    using inv notin nx pend_upd [of s i ?t "PSwapped (pq_head (mq s)) skb"] pc
    by (intro nodes_push [of s ns]) (auto simp: mpsc_inv_at_def q)
  moreover have "producers_ok ?t (ns @ [SKB skb])"
    using inv pc own finite_producers_upd [of s i]
    by (auto simp: mpsc_inv_at_def producers_ok_def q)
  moreover have "i \<in> reserved s" "reserved ?t = reserved s - {i}"
    using pc by (auto simp: reserved_def)
  then have "card (reserved s) = Suc (card (reserved ?t))"
    using inv reserved_finite [of s ns] by (simp only: mpsc_inv_at_def card_Suc_Diff1)
  then have "count_ok ?t (ns @ [SKB skb])"
    using inv q by (auto simp: mpsc_inv_at_def count_ok_def)
  ultimately show ?thesis
    using inv ne by (auto simp: mpsc_inv_at_def consumer_ok_def log_ok_def q split: cons_pc.splits)
qed

lemma link_inv:
  assumes inv: "mpsc_inv_at s ns" and pc: "producers s i = PSwapped old skb"
  shows "mpsc_inv_at (s\<lparr>mq := link_next old (SKB skb) (mq s), producers := (producers s)(i := PIdle)\<rparr>) ns"
    (is "mpsc_inv_at ?t ns")
proof -
  have pd: "pend s old (SKB skb)" using pc by (auto simp: pend_def)
  have adj: "pend s a b \<Longrightarrow> adjacent ns a b" for a b
    using inv by (auto simp: mpsc_inv_at_def nodes_ok_def)
  have uniq: "pend s old b \<Longrightarrow> b = SKB skb" for b
    using adjacent_unique [OF adj adj [OF pd]] inv by (simp add: mpsc_inv_at_def nodes_ok_def)
  have own: "j = i" if "producers s j = PSwapped a skb" for j a
    using owner_unique [OF inv, of j skb i] that pc by simp
  have "pend ?t x y \<longleftrightarrow> pend s x y \<and> x \<noteq> old" for x y
  proof (cases "x = old")
    case True
    have "\<not> pend ?t old y"
    proof
      assume t: "pend ?t old y"
      then have "pend s old y" by (auto simp: pend_def split: if_splits)
      then have "y = SKB skb" by (rule uniq)
      with t own show False by (auto simp: pend_def split: if_splits)
    qed
    with True show ?thesis by simp
  next
    case False
    then have "(\<exists>j. ((producers s)(i := PIdle)) j = PSwapped x n) \<longleftrightarrow> (\<exists>j. producers s j = PSwapped x n)" for n
      using pc by (metis fun_upd_apply prod_pc.distinct(5) prod_pc.inject(3))
    with False show ?thesis by (simp add: pend_def del: fun_upd_apply)
  qed
  then have "nodes_ok ?t ns"
    using inv pd by (intro nodes_link [of s ns old "SKB skb" ?t]) (simp_all add: mpsc_inv_at_def link_next_def)
  moreover have "old \<in> set ns" using adjacent_set [OF adj [OF pd]] by simp
  then have "producers_ok ?t ns"
    using inv finite_producers_upd [of s i]
    by (auto simp: mpsc_inv_at_def producers_ok_def link_next_def)
  moreover have "reserved ?t = reserved s"
    using pc by (auto simp: reserved_def)
  moreover have "STUB \<notin> set ns \<Longrightarrow> old \<noteq> STUB"
    using \<open>old \<in> set ns\<close> by auto
  ultimately show ?thesis
    using inv by (auto simp: mpsc_inv_at_def consumer_ok_def log_ok_def count_ok_def link_next_def
        split: cons_pc.splits)
qed

subsection \<open>The consumer\<close>

lemma pend_consumer_irrelevant:
  assumes "\<And>t a. consumer s \<noteq> CStubLink t a" "\<And>t a. consumer u \<noteq> CStubLink t a"
    and "producers u = producers s"
  shows "pend u = pend s"
  using assms by (intro ext) (simp add: pend_def)

lemma reserved_producers: "producers u = producers s \<Longrightarrow> reserved u = reserved s"
  by (simp add: reserved_def)

lemmas mpsc_parts = mpsc_inv_at_def producers_ok_def consumer_ok_def count_ok_def log_ok_def in_hand_def

text \<open>Steps that only move the program counter.\<close>

lemma consumer_pc_inv:
  assumes "mpsc_inv_at s ns" "\<And>t a. consumer s \<noteq> CStubLink t a" "\<And>t a. c \<noteq> CStubLink t a"
    and "in_hand c = in_hand (consumer s)" "consumer_ok (s\<lparr>consumer := c\<rparr>) ns"
  shows "mpsc_inv_at (s\<lparr>consumer := c\<rparr>) ns"
proof -
  let ?t = "s\<lparr>consumer := c\<rparr>"
  have "nodes_ok ?t ns"
    using assms pend_consumer_irrelevant [of s ?t] by (intro nodes_frame [of s ns ?t]) (simp_all add: mpsc_inv_at_def)
  then show ?thesis
    using assms reserved_producers [of ?t s]
    by (simp add: mpsc_inv_at_def producers_ok_def count_ok_def log_ok_def)
qed

lemma nodes_tail: "nodes_ok s ns \<Longrightarrow> ns = pq_tail (mq s) # tl ns"
  by (cases ns) (auto simp: nodes_ok_def)

text \<open>The tail moves past a buffer, which is now in the consumer's hand.\<close>

lemma take_inv:
  assumes inv: "mpsc_inv_at s ns" and pc: "consumer s = CLoad t \<or> consumer s = CReload t"
    and nx: "pq_next (mq s) t = Some n"
  shows "mpsc_inv (s\<lparr>mq := set_tail n (mq s), consumer := CDec t\<rparr>)" (is "mpsc_inv ?u")
proof -
  have t: "t = pq_tail (mq s)" "t \<noteq> STUB" using inv pc by (auto simp: mpsc_inv_at_def consumer_ok_def)
  obtain x where x: "t = SKB x" using t(2) by (metis node.exhaust)
  have "pend ?u = pend s" using pc by (intro pend_consumer_irrelevant) auto
  then obtain ms where ns: "ns = t # n # ms" "nodes_ok ?u (n # ms)"
    by (rule nodes_advance [of s ns n ?u, rotated 5]) (use inv nx t in \<open>auto simp: mpsc_inv_at_def set_tail_def\<close>)
  have "mpsc_inv_at ?u (n # ms)"
    using inv ns x pc reserved_producers [of ?u s] by (auto simp: mpsc_parts set_tail_def)
  then show ?thesis unfolding mpsc_inv_def by blast
qed

lemma skip_inv:
  assumes inv: "mpsc_inv_at s ns" and pc: "consumer s = CIdle" "pq_tail (mq s) = STUB"
    and nx: "pq_next (mq s) STUB = Some n"
  shows "mpsc_inv (s\<lparr>mq := set_tail n (mq s), consumer := CLoad n\<rparr>)" (is "mpsc_inv ?u")
proof -
  have "pend ?u = pend s" using pc by (intro pend_consumer_irrelevant) auto
  then obtain ms where ns: "ns = STUB # n # ms" "nodes_ok ?u (n # ms)"
    by (rule nodes_advance [of s ns n ?u, rotated 5]) (use inv nx pc in \<open>auto simp: mpsc_inv_at_def set_tail_def\<close>)
  moreover have "n \<noteq> STUB" using inv ns by (auto simp: mpsc_inv_at_def nodes_ok_def)
  ultimately have "mpsc_inv_at ?u (n # ms)"
    using inv pc reserved_producers [of ?u s] by (auto simp: mpsc_parts set_tail_def)
  then show ?thesis unfolding mpsc_inv_def by blast
qed

text \<open>The head equals the tail, so the chain is a single buffer and the stub is outside.\<close>

lemma stub_inv:
  assumes inv: "mpsc_inv_at s ns" and pc: "consumer s = CCheck t" "t = pq_head (mq s)"
  shows "mpsc_inv_at (s\<lparr>consumer := CStub t\<rparr>) ns"
proof -
  have t: "t = pq_tail (mq s)" "t \<noteq> STUB" using inv pc by (auto simp: mpsc_inv_at_def consumer_ok_def)
  have "nodes_ok s ns" using inv by (simp add: mpsc_inv_at_def)
  then have "ns = [t]"
    using nodes_tail [of s ns] t pc
    by (metis distinct.simps(2) last_ConsR last_in_set nodes_ok_def)
  then show ?thesis
    using inv pc t by (intro consumer_pc_inv) (auto simp: in_hand_def consumer_ok_def)
qed

lemma stub_clear_inv:
  assumes inv: "mpsc_inv_at s ns" and pc: "consumer s = CStub t"
  shows "mpsc_inv_at (s\<lparr>mq := clear_next STUB (mq s), consumer := CStubSwap t\<rparr>) ns" (is "mpsc_inv_at ?u ns")
proof -
  have "STUB \<notin> set ns" using inv pc by (simp add: mpsc_inv_at_def consumer_ok_def)
  then have "nodes_ok ?u ns"
    using inv pc pend_consumer_irrelevant [of s ?u]
    by (intro nodes_frame [of s ns ?u]) (auto simp: mpsc_inv_at_def clear_next_def)
  then show ?thesis
    using inv pc reserved_producers [of ?u s] by (auto simp: mpsc_parts clear_next_def)
qed

lemma stub_swap_inv:
  assumes inv: "mpsc_inv_at s ns" and pc: "consumer s = CStubSwap t"
  shows "mpsc_inv_at (s\<lparr>mq := snd (xchg_head STUB (mq s)),
      consumer := CStubLink t (fst (xchg_head STUB (mq s)))\<rparr>) (ns @ [STUB])" (is "mpsc_inv_at ?u _")
proof -
  have q: "xchg_head STUB (mq s) = (pq_head (mq s), (mq s)\<lparr>pq_head := STUB\<rparr>)"
    by (simp add: xchg_head_def)
  have stub: "STUB \<notin> set ns" "pq_next (mq s) STUB = None" and t: "t = pq_tail (mq s)" "t \<noteq> STUB"
    using inv pc by (auto simp: mpsc_inv_at_def consumer_ok_def)
  have "nodes_ok ?u (ns @ [STUB])"
    using inv pc stub by (intro nodes_push [of s ns STUB ?u]) (auto simp: mpsc_inv_at_def q pend_def)
  then show ?thesis
    using inv pc t reserved_producers [of ?u s] by (auto simp: mpsc_parts q)
qed

lemma stub_link_inv:
  assumes inv: "mpsc_inv_at s ns" and pc: "consumer s = CStubLink t old"
  shows "mpsc_inv_at (s\<lparr>mq := link_next old STUB (mq s), consumer := CReload t\<rparr>) ns" (is "mpsc_inv_at ?u ns")
proof -
  have pd: "pend s old STUB" using pc by (simp add: pend_def)
  have adj: "pend s a b \<Longrightarrow> adjacent ns a b" for a b
    using inv by (auto simp: mpsc_inv_at_def nodes_ok_def)
  have uniq: "pend s old b \<Longrightarrow> b = STUB" for b
    using adjacent_unique [OF adj adj [OF pd]] inv by (simp add: mpsc_inv_at_def nodes_ok_def)
  have "pend ?u x y \<longleftrightarrow> pend s x y \<and> x \<noteq> old" for x y
    using uniq [of y] pc by (cases "x = old") (auto simp: pend_def)
  then have "nodes_ok ?u ns"
    using inv pd by (intro nodes_link [of s ns old STUB ?u]) (simp_all add: mpsc_inv_at_def link_next_def)
  moreover have "old \<in> set ns" using adjacent_set [OF adj [OF pd]] by simp
  ultimately show ?thesis
    using inv pc reserved_producers [of ?u s] by (auto simp: mpsc_parts link_next_def)
qed

lemma dec_inv:
  assumes inv: "mpsc_inv_at s ns" and pc: "consumer s = CDec t" "skb_of t = Some x"
  shows "mpsc_inv_at (s\<lparr>mq := atomic_dec_count (mq s), consumer := CIdle, deq_log := deq_log s @ [x]\<rparr>) ns"
    (is "mpsc_inv_at ?u ns")
proof -
  have t: "t = SKB x" using pc by (cases t) auto
  have "nodes_ok ?u ns"
    using inv pc pend_consumer_irrelevant [of s ?u]
    by (intro nodes_frame [of s ns ?u]) (auto simp: mpsc_inv_at_def atomic_dec_count_def)
  then show ?thesis
    using inv pc t reserved_producers [of ?u s] by (auto simp: mpsc_parts atomic_dec_count_def)
qed

lemma enqueue_step_inv: "enqueue_step i s t \<Longrightarrow> mpsc_inv s \<Longrightarrow> mpsc_inv t"
proof (induction rule: enqueue_step.induct)
  case (p_full s)
  then have "snd (atomic_add_unless_max (mq s)) = mq s"
    by (simp add: atomic_add_unless_max_def split: if_splits)
  then show ?case using p_full by simp
qed (metis mpsc_inv_def reserve_inv clear_inv swap_inv link_inv)+

lemma dequeue_step_inv: "dequeue_step s t \<Longrightarrow> mpsc_inv s \<Longrightarrow> mpsc_inv t"
proof (induction rule: dequeue_step.induct)
  case (c_start s t)
  then show ?case unfolding mpsc_inv_def
    by (elim exE, intro exI consumer_pc_inv) (auto simp: in_hand_def consumer_ok_def)
next
  case (c_none s t)
  then show ?case unfolding mpsc_inv_def
    by (elim exE, intro exI consumer_pc_inv) (auto simp: in_hand_def mpsc_inv_at_def consumer_ok_def)
next
  case (c_busy s t)
  then show ?case unfolding mpsc_inv_def
    by (elim exE, intro exI consumer_pc_inv) (auto simp: in_hand_def consumer_ok_def)
next
  case (c_reload_none s t)
  then show ?case unfolding mpsc_inv_def
    by (elim exE, intro exI consumer_pc_inv) (auto simp: in_hand_def consumer_ok_def)
qed (metis mpsc_inv_def take_inv skip_inv stub_inv stub_clear_inv stub_swap_inv stub_link_inv dec_inv)+

interpretation mpsc: invariant_system mpsc_init mpsc_step mpsc_inv
  by unfold_locales (auto simp: mpsc_step_def mpsc_init_inv intro: enqueue_step_inv dequeue_step_inv)

section \<open>What the interleavings guarantee\<close>

lemma inv_quiescent:
  assumes inv: "mpsc_inv_at s ns" and idle: "\<And>i. producers s i = PIdle" "consumer s = CIdle"
  shows "queue_holds ((mq s)\<lparr>pq_peeked := None\<rparr>) (drop (length (deq_log s)) (enq_log s))"
proof -
  have pd: "pend s = (\<lambda>_ _. False)" using idle by (intro ext) (simp add: pend_def)
  have "queue_nodes (mq s) ns"
    using inv idle unfolding queue_nodes_def mpsc_inv_at_def nodes_ok_def count_ok_def pd
    by (simp add: reserved_def in_hand_def)
  moreover have "drop (length (deq_log s)) (enq_log s) = skbs ns"
    using inv idle by (simp add: mpsc_inv_at_def log_ok_def in_hand_def)
  ultimately show ?thesis by (auto simp: queue_holds_def)
qed

subsection \<open>Why a dequeue finds nothing\<close>

definition waiting :: "mpsc \<Rightarrow> nat list" where
  "waiting s = drop (length (deq_log s)) (enq_log s)"

lemma waiting_nodes: "mpsc_inv_at s ns \<Longrightarrow> waiting s = in_hand (consumer s) @ skbs ns"
  by (simp add: mpsc_inv_at_def log_ok_def waiting_def)

text \<open>The oldest node has no successor: it is the head, or a producer is about to link one.\<close>

lemma tail_without_successor:
  assumes inv: "mpsc_inv_at s ns" and nx: "pq_next (mq s) (pq_tail (mq s)) = None"
    and c: "\<And>t a. consumer s \<noteq> CStubLink t a"
  shows "ns = [pq_tail (mq s)] \<or> (\<exists>i a n. producers s i = PSwapped a n \<and> n \<in> set (waiting s))"
proof (cases "tl ns")
  case Nil
  then show ?thesis using nodes_tail [of s ns] inv by (metis mpsc_inv_at_def)
next
  case (Cons b ms)
  have ns: "ns = pq_tail (mq s) # b # ms"
    using nodes_tail [of s ns] inv Cons by (simp add: mpsc_inv_at_def)
  then have "pend s (pq_tail (mq s)) b"
    using inv nx by (simp add: mpsc_inv_at_def nodes_ok_def)
  then obtain i n where "b = SKB n" "producers s i = PSwapped (pq_tail (mq s)) n"
    using c by (auto simp: pend_def)
  moreover have "n \<in> set (waiting s)"
    using waiting_nodes [OF inv] ns \<open>b = SKB n\<close> by (simp add: set_skbs)
  ultimately show ?thesis by blast
qed

lemma load_none_reason:
  assumes "mpsc_inv s" "consumer s = CLoad t" "pq_next (mq s) t = None"
  shows "t = pq_head (mq s) \<or> (\<exists>i a n. producers s i = PSwapped a n \<and> n \<in> set (waiting s))"
proof -
  obtain ns where inv: "mpsc_inv_at s ns" using assms by (auto simp: mpsc_inv_def)
  then have "t = pq_tail (mq s)" "last ns = pq_head (mq s)"
    using assms by (auto simp: mpsc_inv_at_def consumer_ok_def nodes_ok_def)
  then show ?thesis using tail_without_successor [OF inv] assms by fastforce
qed

lemma empty_reason:
  assumes "mpsc_inv s" "consumer s = CIdle" "pq_tail (mq s) = STUB" "pq_next (mq s) STUB = None"
  shows "waiting s = [] \<or> (\<exists>i a n. producers s i = PSwapped a n \<and> n \<in> set (waiting s))"
proof -
  obtain ns where inv: "mpsc_inv_at s ns" using assms by (auto simp: mpsc_inv_def)
  then show ?thesis
    using tail_without_successor [OF inv] waiting_nodes [OF inv] assms by (auto simp: in_hand_def)
qed

lemma reload_none_reason:
  assumes "mpsc_inv s" "consumer s = CReload t" "pq_next (mq s) t = None"
  shows "\<exists>i a n. producers s i = PSwapped a n \<and> n \<in> set (waiting s)"
proof -
  obtain ns where inv: "mpsc_inv_at s ns" using assms by (auto simp: mpsc_inv_def)
  then have "t = pq_tail (mq s)" "t \<noteq> STUB" "STUB \<in> set ns"
    using assms by (auto simp: mpsc_inv_at_def consumer_ok_def)
  then show ?thesis using tail_without_successor [OF inv] assms by fastforce
qed

text \<open>Reachability along the steps of one schedule.\<close>

lemma reach_producer: "reach mpsc_init mpsc_step s \<Longrightarrow> enqueue_step i s t \<Longrightarrow> reach mpsc_init mpsc_step t"
  by (erule reach_step) (auto simp: mpsc_step_def)

lemma reach_consumer: "reach mpsc_init mpsc_step s \<Longrightarrow> dequeue_step s t \<Longrightarrow> reach mpsc_init mpsc_step t"
  by (erule reach_step) (auto simp: mpsc_step_def)

definition demo0 :: mpsc where
  "demo0 = \<lparr>mq = wg_prev_queue_init \<lparr>pq_next = (\<lambda>_. Some STUB), pq_head = STUB, pq_tail = STUB,
     pq_peeked = None, pq_count = 5\<rparr>, producers = (\<lambda>_. PIdle), consumer = CIdle, enq_log = [], deq_log = []\<rparr>"

lemmas demo_simps = fresh_def if_distrib [of owns] pq_access demo0_def wg_prev_queue_init_def MAX_QUEUED_PACKETS_def

text \<open>
  A schedule of two producers: the first enqueues buffer 9, the second swaps the head for buffer 7
  and is delayed before linking, so the consumer finds 9 with no successor although 9 is not the
  head.
\<close>

definition demo_gap :: mpsc where
  "demo_gap = demo0\<lparr>
     mq := \<lparr>pq_next = (\<lambda>_. Some STUB)(STUB := Some (SKB 9), SKB 9 := None, SKB 7 := None),
            pq_head = SKB 7, pq_tail = SKB 9, pq_peeked = None, pq_count = 2\<rparr>,
     producers := (\<lambda>_. PIdle)(0 := PSwapped (SKB 9) 7), consumer := CCheck (SKB 9), enq_log := [9, 7]\<rparr>"

lemma demo_gap_reach: "reach mpsc_init mpsc_step demo_gap"
proof -
  have r: "reach mpsc_init mpsc_step demo0"
    by (rule reach_init) (auto simp: mpsc_init_def demo0_def)
  note r = reach_producer [OF r p_reserve [of demo0 1 9], simplified demo_simps, simplified]
  note r = reach_producer [OF r p_reserve [of _ 0 7], simplified demo_simps, simplified]
  note r = reach_producer [OF r p_clear [of _ 1 9], simplified demo_simps, simplified]
  note r = reach_producer [OF r p_swap [of _ 1 9], simplified demo_simps, simplified]
  note r = reach_producer [OF r p_link [of _ 1 STUB 9], simplified demo_simps, simplified]
  note r = reach_producer [OF r p_clear [of _ 0 7], simplified demo_simps, simplified]
  note r = reach_producer [OF r p_swap [of _ 0 7], simplified demo_simps, simplified]
  note r = reach_consumer [OF r c_skip [of _ "SKB 9"], simplified demo_simps, simplified]
  note r = reach_consumer [OF r c_none [of _ "SKB 9"], simplified demo_simps, simplified]
  show ?thesis
    by (rule back_subst [of "reach mpsc_init mpsc_step", OF r])
      (auto simp: demo_gap_def demo_simps fun_eq_iff)
qed

text \<open>The schedule goes on: the link is written, and a second dequeue returns buffer 9.\<close>

definition demo_end :: mpsc where
  "demo_end = demo_gap\<lparr>
     mq := \<lparr>pq_next = (\<lambda>_. Some STUB)(STUB := Some (SKB 9), SKB 9 := Some (SKB 7), SKB 7 := None),
            pq_head = SKB 7, pq_tail = SKB 7, pq_peeked = None, pq_count = 1\<rparr>,
     producers := (\<lambda>_. PIdle), consumer := CIdle, deq_log := [9]\<rparr>"

lemma demo_end_reach: "reach mpsc_init mpsc_step demo_end"
proof -
  note r = demo_gap_reach [unfolded demo_gap_def demo_simps, simplified]
  note r = reach_producer [OF r p_link [of _ 0 "SKB 9" 7], simplified demo_simps, simplified]
  note r = reach_consumer [OF r c_busy [of _ "SKB 9"], simplified demo_simps, simplified]
  note r = reach_consumer [OF r c_start [of _ "SKB 9"], simplified demo_simps, simplified]
  note r = reach_consumer [OF r c_take [of _ "SKB 9" "SKB 7"], simplified demo_simps, simplified]
  note r = reach_consumer [OF r c_dec [of _ "SKB 9" 9], simplified demo_simps, simplified]
  show ?thesis
    by (rule back_subst [of "reach mpsc_init mpsc_step", OF r])
      (auto simp: demo_gap_def demo_end_def demo_simps fun_eq_iff)
qed

text \<open>
  C9. FIFO under concurrency: in every interleaving of any number of producers with the consumer,
  the packets returned so far are a prefix of the packets in the order of the head swaps. Nothing
  is lost, duplicated or reordered.
\<close>

theorem mpsc_fifo:
  assumes "reach mpsc_init mpsc_step s"
  shows "prefix (deq_log s) (enq_log s)"
  using mpsc.reach_inv [OF assms] by (auto simp: mpsc_inv_def mpsc_inv_at_def log_ok_def)

theorem mpsc_fifo_witness: "prefix (deq_log demo_end) (enq_log demo_end) \<and> deq_log demo_end \<noteq> []"
  using mpsc_fifo [OF demo_end_reach] by (simp add: demo_end_def)

text \<open>
  C24. Bounded occupancy: in every interleaving the count stays within \<open>MAX_QUEUED_PACKETS\<close>, and so
  does the number of packets that were enqueued and not yet returned.
\<close>

theorem mpsc_bounded:
  assumes "reach mpsc_init mpsc_step s"
  shows "pq_count (mq s) \<le> MAX_QUEUED_PACKETS \<and>
    length (enq_log s) \<le> length (deq_log s) + MAX_QUEUED_PACKETS"
  using mpsc.reach_inv [OF assms] by (auto simp: mpsc_inv_def mpsc_inv_at_def log_ok_def count_ok_def)

theorem mpsc_bounded_witness:
  "pq_count (mq demo_end) \<le> MAX_QUEUED_PACKETS \<and>
    length (enq_log demo_end) \<le> length (deq_log demo_end) + MAX_QUEUED_PACKETS"
  by (rule mpsc_bounded [OF demo_end_reach])

text \<open>
  An empty answer is honest: when the consumer is about to give up because the oldest packet has
  no successor and is not the head, some producer has swapped the head over that very packet and
  has yet to write the link. The consumer never gives up on a packet that nobody will complete.
\<close>

theorem mpsc_gap_has_producer:
  assumes "reach mpsc_init mpsc_step s" "consumer s = CCheck t" "pq_next (mq s) t = None"
    "t \<noteq> pq_head (mq s)"
  shows "\<exists>i n. producers s i = PSwapped t n"
proof -
  obtain ns where inv: "mpsc_inv_at s ns"
    using mpsc.reach_inv [OF assms(1)] by (auto simp: mpsc_inv_def)
  then have "ns = t # tl ns" "chain (pq_next (mq s)) (pend s) ns" "last ns = pq_head (mq s)"
    using assms nodes_tail [of s ns] by (auto simp: mpsc_inv_at_def consumer_ok_def nodes_ok_def)
  then have "pend s t (hd (tl ns))"
    using chain_None [of "pq_next (mq s)" "pend s" t "tl ns"] assms by (metis last_ConsL)
  then show ?thesis using assms(2) by (auto simp: pend_def)
qed

theorem mpsc_gap_has_producer_witness: "\<exists>i n. producers demo_gap i = PSwapped (SKB 9) n"
  by (rule mpsc_gap_has_producer [OF demo_gap_reach]) (simp_all add: demo_gap_def)

text \<open>
  C25. Nothing is stranded: in every reachable state in which no operation is in progress, draining
  the queue with the code's peek and drop returns exactly the packets that were enqueued and not
  yet returned, in order.
\<close>

theorem mpsc_quiescent_drain:
  assumes "reach mpsc_init mpsc_step s" "\<forall>i. producers s i = PIdle" "consumer s = CIdle"
    "MAX_QUEUED_PACKETS \<le> budget"
  shows "fst (drain wg_prev_queue_peek wg_prev_queue_drop_peeked (\<lambda>_. True) budget
      ((mq s)\<lparr>pq_peeked := None\<rparr>)) = drop (length (deq_log s)) (enq_log s)"
proof -
  obtain ns where inv: "mpsc_inv_at s ns"
    using mpsc.reach_inv [OF assms(1)] by (auto simp: mpsc_inv_def)
  then have "length (drop (length (deq_log s)) (enq_log s)) \<le> budget"
    using assms(4) by (auto simp: mpsc_inv_at_def log_ok_def count_ok_def)
  then show ?thesis
    using pq.drain_all [OF inv_quiescent [OF inv]] assms by simp
qed

theorem mpsc_quiescent_drain_witness:
  "fst (drain wg_prev_queue_peek wg_prev_queue_drop_peeked (\<lambda>_. True) 1024
      ((mq demo_end)\<lparr>pq_peeked := None\<rparr>)) = [7]"
proof -
  have "drop (length (deq_log demo_end)) (enq_log demo_end) = [7]"
    by (simp add: demo_end_def demo_gap_def)
  then show ?thesis
    using mpsc_quiescent_drain [OF demo_end_reach, of 1024] by (simp add: demo_end_def MAX_QUEUED_PACKETS_def)
qed

end
