(* ===== verification/Napi.thy ===== *)
theory Napi
  imports Prelude
begin

text \<open>
  The NAPI scheduling layer of \<^verbatim>\<open>net/core/dev.c\<close>: the state bits of a \<open>napi_struct\<close>, the per-CPU
  poll lists, and the functions that schedule, poll, complete, disable and enable an instance.
  A compare-and-exchange loop is one atomic update of the bits. The offload engine (theory
  \<^verbatim>\<open>Gro\<close>), tracing and the device lock have no effect on the state modelled here. The accessors of
  \<^verbatim>\<open>include/linux/netdevice.h\<close> (\<open>napi_schedule\<close>, \<open>napi_complete\<close>, \<open>napi_is_scheduled\<close>,
  \<open>napi_disable_pending\<close>, \<open>napi_prefer_busy_poll\<close>) are kernel primitives with their documented
  meaning.
\<close>

section \<open>State\<close>

record napi_bits =
  b_SCHED :: bool
  b_MISSED :: bool
  b_DISABLE :: bool
  b_NPSVC :: bool
  b_LISTED :: bool
  b_IN_BUSY_POLL :: bool
  b_THREADED :: bool
  b_SCHED_THREADED :: bool
  b_PREFER_BUSY_POLL :: bool
  b_THREADED_BUSY_POLL :: bool

record napi_struct =
  nstate :: napi_bits
  nweight :: nat
  nthread :: "nat option"
  list_owner :: "nat option"
  on_cpu_list :: "nat option"   \<comment> \<open>the CPU whose lists hold \<open>poll_list\<close>; \<open>None\<close> when it is empty\<close>
  defer_hard_irqs_count :: nat
  defer_hard_irqs :: nat
  gro_flush_timeout :: u64
  gro_bitmask :: bool           \<comment> \<open>packets are held in the GRO buckets\<close>
  ntimer :: "u64 option"        \<comment> \<open>the watchdog timer, armed with this timeout\<close>

record softnet_data =
  poll_list :: "nat list"
  repoll_list :: "nat list"     \<comment> \<open>the list \<open>repoll\<close> of the running \<open>net_rx_action\<close>\<close>
  in_net_rx_action :: bool
  net_rx_softirq :: bool
  backlog_thread :: "nat option"

record net_world =
  napis :: "nat \<Rightarrow> napi_struct"
  softnets :: "nat \<Rightarrow> softnet_data"
  use_backlog_threads :: bool
  woken :: "nat list"

definition upd_napi :: "nat \<Rightarrow> (napi_struct \<Rightarrow> napi_struct) \<Rightarrow> net_world \<Rightarrow> net_world" where
  "upd_napi n f w = w\<lparr>napis := (napis w)(n := f (napis w n))\<rparr>"

definition upd_bits :: "nat \<Rightarrow> (napi_bits \<Rightarrow> napi_bits) \<Rightarrow> net_world \<Rightarrow> net_world" where
  "upd_bits n f = upd_napi n (\<lambda>x. x\<lparr>nstate := f (nstate x)\<rparr>)"

definition upd_sd :: "nat \<Rightarrow> (softnet_data \<Rightarrow> softnet_data) \<Rightarrow> net_world \<Rightarrow> net_world" where
  "upd_sd cpu f w = w\<lparr>softnets := (softnets w)(cpu := f (softnets w cpu))\<rparr>"

section \<open>Atomic updates of the state bits\<close>

text \<open>\<open>napi_schedule_prep\<close>: its result and the new bits.\<close>

definition napi_schedule_prep :: "napi_bits \<Rightarrow> bool \<times> napi_bits" where
  "napi_schedule_prep b =
     (if b_DISABLE b then (False, b)
      else (\<not> b_SCHED b, b\<lparr>b_SCHED := True, b_MISSED := (b_MISSED b \<or> b_SCHED b)\<rparr>))"

text \<open>The update at the end of \<open>napi_complete_done\<close>: whether \<open>MISSED\<close> was set, and the new bits.\<close>

definition napi_complete_bits :: "napi_bits \<Rightarrow> bool \<times> napi_bits" where
  "napi_complete_bits b =
     (b_MISSED b, b\<lparr>b_MISSED := False, b_SCHED := b_MISSED b, b_SCHED_THREADED := False,
        b_PREFER_BUSY_POLL := False\<rparr>)"

section \<open>Scheduling\<close>

definition list_add_tail_poll :: "nat \<Rightarrow> nat \<Rightarrow> net_world \<Rightarrow> net_world" where
  "list_add_tail_poll n cpu w =
     upd_napi n (\<lambda>x. x\<lparr>on_cpu_list := Some cpu\<rparr>) (upd_sd cpu (\<lambda>sd. sd\<lparr>poll_list := poll_list sd @ [n]\<rparr>) w)"

definition list_del_init_poll :: "nat \<Rightarrow> net_world \<Rightarrow> net_world" where
  "list_del_init_poll n w =
     (case on_cpu_list (napis w n) of
        None \<Rightarrow> w
      | Some cpu \<Rightarrow>
          upd_napi n (\<lambda>x. x\<lparr>on_cpu_list := None\<rparr>)
            (upd_sd cpu (\<lambda>sd. sd\<lparr>poll_list := remove1 n (poll_list sd),
               repoll_list := remove1 n (repoll_list sd)\<rparr>) w))"

text \<open>\<open>____napi_schedule\<close> on the given CPU.\<close>

definition napi_schedule_on :: "nat \<Rightarrow> nat \<Rightarrow> net_world \<Rightarrow> net_world" where
  "napi_schedule_on cpu n w =
     (let local = (\<lambda>w.
            let w1 = upd_napi n (\<lambda>x. x\<lparr>list_owner := Some cpu\<rparr>) (list_add_tail_poll n cpu w)
            in if in_net_rx_action (softnets w1 cpu) then w1
               else upd_sd cpu (\<lambda>sd. sd\<lparr>net_rx_softirq := True\<rparr>) w1)
      in if b_THREADED (nstate (napis w n)) then
           case nthread (napis w n) of
             None \<Rightarrow> local w
           | Some th \<Rightarrow>
               if use_backlog_threads w \<and> backlog_thread (softnets w cpu) = Some th then local w
               else (upd_bits n (\<lambda>b. b\<lparr>b_SCHED_THREADED := True\<rparr>) w)\<lparr>woken := woken w @ [th]\<rparr>
         else local w)"

definition napi_schedule :: "nat \<Rightarrow> nat \<Rightarrow> net_world \<Rightarrow> bool \<times> net_world" where
  "napi_schedule cpu n w =
     (let (ok, b) = napi_schedule_prep (nstate (napis w n)); w1 = upd_bits n (\<lambda>_. b) w
      in if ok then (True, napi_schedule_on cpu n w1) else (False, w1))"

definition napi_watchdog :: "nat \<Rightarrow> nat \<Rightarrow> net_world \<Rightarrow> net_world" where
  "napi_watchdog cpu n w0 =
     (let w = upd_napi n (\<lambda>x. x\<lparr>ntimer := None\<rparr>) w0; b = nstate (napis w n) in
      if b_DISABLE b then w
      else if b_SCHED b then w
      else napi_schedule_on cpu n (upd_bits n (\<lambda>b. b\<lparr>b_SCHED := True, b_PREFER_BUSY_POLL := False\<rparr>) w))"

section \<open>Completion\<close>

text \<open>The deferral part of \<open>napi_complete_done\<close>: return value, timeout and the new counter.\<close>

definition napi_defer :: "napi_struct \<Rightarrow> nat \<Rightarrow> bool \<times> u64 \<times> nat" where
  "napi_defer x work_done =
     (let timeout0 = (if work_done > 0 \<and> gro_bitmask x then gro_flush_timeout x else 0);
          count = (if work_done > 0 then defer_hard_irqs x else defer_hard_irqs_count x)
      in if count > 0 then (gro_flush_timeout x = 0, gro_flush_timeout x, count - 1)
         else (True, timeout0, count))"

definition napi_complete_done :: "nat \<Rightarrow> nat \<Rightarrow> nat \<Rightarrow> net_world \<Rightarrow> bool \<times> net_world" where
  "napi_complete_done cpu n work_done w =
     (let x = napis w n in
      if b_NPSVC (nstate x) \<or> b_IN_BUSY_POLL (nstate x) then (False, w)
      else
        let (ret, timeout, count) = napi_defer x work_done;
            w1 = list_del_init_poll n (upd_napi n (\<lambda>x. x\<lparr>defer_hard_irqs_count := count\<rparr>) w);
            (missed, b) = napi_complete_bits (nstate (napis w1 n));
            w2 = upd_napi n (\<lambda>x. x\<lparr>list_owner := None, nstate := b\<rparr>) w1
        in if missed then (False, napi_schedule_on cpu n w2)
           else (ret, if timeout \<noteq> 0 then upd_napi n (\<lambda>x. x\<lparr>ntimer := Some timeout\<rparr>) w2 else w2))"

section \<open>Polling\<close>

text \<open>
  \<open>__napi_poll\<close> and \<open>napi_poll\<close>. The driver's poll function is an argument: it receives the
  instance, the weight and the world. The result is the work done and whether to poll again.
\<close>

definition napi_poll_once ::
  "nat \<Rightarrow> (nat \<Rightarrow> nat \<Rightarrow> net_world \<Rightarrow> nat \<times> net_world) \<Rightarrow> nat \<Rightarrow> net_world \<Rightarrow> nat \<times> bool \<times> net_world" where
  "napi_poll_once cpu poll n w =
     (let weight = nweight (napis w n);
          (work, w1) = (if b_SCHED (nstate (napis w n)) then poll n weight w else (0, w))
      in if work < weight then (work, False, w1)
         else if b_DISABLE (nstate (napis w1 n)) then (work, False, snd (napi_complete_done cpu n 0 w1))
         else if b_PREFER_BUSY_POLL (nstate (napis w1 n)) then
           (let (done, w2) = napi_complete_done cpu n work w1
            in (work, False, if done then snd (napi_schedule cpu n w2) else w2))
         else (work, on_cpu_list (napis w1 n) = None, w1))"

definition napi_poll ::
  "nat \<Rightarrow> (nat \<Rightarrow> nat \<Rightarrow> net_world \<Rightarrow> nat \<times> net_world) \<Rightarrow> nat \<Rightarrow> net_world \<Rightarrow> nat \<times> net_world" where
  "napi_poll cpu poll n w =
     (let (work, repoll, w1) = napi_poll_once cpu poll n (list_del_init_poll n w)
      in (work,
          if repoll then
            upd_napi n (\<lambda>x. x\<lparr>on_cpu_list := Some cpu\<rparr>)
              (upd_sd cpu (\<lambda>sd. sd\<lparr>repoll_list := repoll_list sd @ [n]\<rparr>) w1)
          else w1))"

section \<open>Adding, enabling and disabling an instance\<close>

definition netif_napi_add_weight_locked :: "nat \<Rightarrow> nat \<Rightarrow> nat \<Rightarrow> u64 \<Rightarrow> net_world \<Rightarrow> net_world" where
  "netif_napi_add_weight_locked n weight dev_defer dev_timeout w =
     (if b_LISTED (nstate (napis w n)) then w
      else upd_napi n (\<lambda>x. x\<lparr>nstate := (nstate x)\<lparr>b_LISTED := True, b_SCHED := True, b_NPSVC := True\<rparr>,
             nweight := weight, list_owner := None, on_cpu_list := None, ntimer := None,
             gro_bitmask := False, defer_hard_irqs := dev_defer, gro_flush_timeout := dev_timeout\<rparr>) w)"

text \<open>
  \<open>napi_disable_locked\<close> first sets \<open>DISABLE\<close>, then waits until neither \<open>SCHED\<close> nor \<open>NPSVC\<close> is set
  and takes both; \<open>napi_disable_finish\<close> is \<open>None\<close> while it would still sleep.
\<close>

definition napi_disable_request :: "nat \<Rightarrow> net_world \<Rightarrow> net_world" where
  "napi_disable_request n = upd_bits n (\<lambda>b. b\<lparr>b_DISABLE := True\<rparr>)"

definition napi_disable_finish :: "nat \<Rightarrow> net_world \<Rightarrow> net_world option" where
  "napi_disable_finish n w =
     (if b_SCHED (nstate (napis w n)) \<or> b_NPSVC (nstate (napis w n)) then None
      else Some (upd_napi n (\<lambda>x. x\<lparr>nstate := (nstate x)\<lparr>b_DISABLE := False, b_SCHED := True, b_NPSVC := True,
             b_THREADED := False, b_THREADED_BUSY_POLL := False, b_PREFER_BUSY_POLL := False\<rparr>,
             ntimer := None\<rparr>) w))"

definition napi_disable_locked :: "nat \<Rightarrow> net_world \<Rightarrow> net_world option" where
  "napi_disable_locked n w = napi_disable_finish n (napi_disable_request n w)"

definition napi_enable_locked :: "nat \<Rightarrow> bool \<Rightarrow> net_world \<Rightarrow> net_world option" where
  "napi_enable_locked n dev_threaded w =
     (if \<not> b_SCHED (nstate (napis w n)) then None
      else Some (upd_bits n (\<lambda>b. b\<lparr>b_SCHED := False, b_NPSVC := False,
             b_THREADED := (b_THREADED b \<or> dev_threaded \<and> nthread (napis w n) \<noteq> None)\<rparr>) w))"

section \<open>The poll lists\<close>

text \<open>
  An instance is on at most one list, once, where its own node says; and a listed instance has
  \<open>SCHED\<close> set, so nobody else can list it again.
\<close>

definition cpu_lists :: "net_world \<Rightarrow> nat \<Rightarrow> nat list" where
  "cpu_lists w cpu = poll_list (softnets w cpu) @ repoll_list (softnets w cpu)"

definition napi_wf :: "net_world \<Rightarrow> bool" where
  "napi_wf w \<longleftrightarrow> (\<forall>cpu. distinct (cpu_lists w cpu)) \<and>
     (\<forall>cpu n. n \<in> set (cpu_lists w cpu) \<longleftrightarrow> on_cpu_list (napis w n) = Some cpu) \<and>
     (\<forall>n. on_cpu_list (napis w n) \<noteq> None \<longrightarrow> b_SCHED (nstate (napis w n)))"

lemmas napi_upds = upd_napi_def upd_bits_def upd_sd_def list_add_tail_poll_def

lemma napi_wf_bits:
  assumes "napi_wf w" "b_SCHED (f (nstate (napis w n))) \<or> on_cpu_list (napis w n) = None"
  shows "napi_wf (upd_bits n f w)"
  using assms by (auto simp: napi_wf_def napi_upds cpu_lists_def)

lemma napi_wf_woken [simp]: "napi_wf (w\<lparr>woken := ws\<rparr>) = napi_wf w"
  by (simp add: napi_wf_def cpu_lists_def)

lemma napi_wf_softirq: "napi_wf w \<Longrightarrow> napi_wf (upd_sd cpu (\<lambda>sd. sd\<lparr>net_rx_softirq := x\<rparr>) w)"
  by (auto simp: napi_wf_def upd_sd_def cpu_lists_def)

lemma napi_wf_add:
  assumes "napi_wf w" "on_cpu_list (napis w n) = None" "b_SCHED (nstate (napis w n))"
  shows "napi_wf (upd_napi n (\<lambda>x. x\<lparr>list_owner := ow\<rparr>) (list_add_tail_poll n cpu w))"
proof -
  have "n \<notin> set (cpu_lists w cpu)"
    using assms by (simp add: napi_wf_def)
  then have "n \<notin> set (poll_list (softnets w cpu))" "n \<notin> set (repoll_list (softnets w cpu))"
    by (simp_all add: cpu_lists_def)
  with assms show ?thesis by (auto simp: napi_wf_def napi_upds cpu_lists_def)
qed

lemma napi_schedule_on_wf:
  assumes "napi_wf w" "on_cpu_list (napis w n) = None" "b_SCHED (nstate (napis w n))"
  shows "napi_wf (napi_schedule_on cpu n w)"
  using assms napi_wf_add [OF assms] napi_wf_softirq [OF napi_wf_add [OF assms]]
    napi_wf_bits [of w "\<lambda>b. b\<lparr>b_SCHED_THREADED := True\<rparr>" n]
  by (auto simp: napi_schedule_on_def Let_def split: option.splits)

lemma napi_wf_del:
  assumes "napi_wf w"
  shows "napi_wf (list_del_init_poll n w)" "on_cpu_list (napis (list_del_init_poll n w) n) = None"
    and "nstate (napis (list_del_init_poll n w) m) = nstate (napis w m)"
proof -
  have "distinct (poll_list (softnets w c)) \<and> distinct (repoll_list (softnets w c))" for c
    using assms by (auto simp: napi_wf_def cpu_lists_def)
  then show "napi_wf (list_del_init_poll n w)"
    using assms by (auto simp: napi_wf_def list_del_init_poll_def napi_upds cpu_lists_def
        set_remove1_eq split: option.splits)
qed (auto simp: list_del_init_poll_def napi_upds split: option.splits)

lemma napi_wf_irrelevant:
  assumes "napi_wf w" "\<And>x. nstate (f x) = nstate x" "\<And>x. on_cpu_list (f x) = on_cpu_list x"
  shows "napi_wf (upd_napi n f w)"
  using assms by (auto simp: napi_wf_def upd_napi_def cpu_lists_def)

lemma napi_schedule_wf: "napi_wf w \<Longrightarrow> napi_wf (snd (napi_schedule cpu n w))"
proof -
  assume wf: "napi_wf w"
  let ?b = "snd (napi_schedule_prep (nstate (napis w n)))"
  have "napi_wf (upd_bits n (\<lambda>_. ?b) w)"
    using wf by (intro napi_wf_bits) (auto simp: napi_schedule_prep_def napi_wf_def)
  moreover have "fst (napi_schedule_prep (nstate (napis w n))) \<Longrightarrow>
      on_cpu_list (napis w n) = None \<and> b_SCHED ?b"
    using wf by (auto simp: napi_schedule_prep_def napi_wf_def split: if_splits)
  ultimately show ?thesis
    by (auto simp: napi_schedule_def split_def Let_def napi_upds intro!: napi_schedule_on_wf)
qed

lemma napi_complete_done_wf:
  assumes "napi_wf w"
  shows "napi_wf (snd (napi_complete_done cpu n work w))"
proof -
  obtain ret timeout cnt where d: "napi_defer (napis w n) work = (ret, timeout, cnt)"
    by (cases "napi_defer (napis w n) work") auto
  let ?w1 = "list_del_init_poll n (upd_napi n (\<lambda>x. x\<lparr>defer_hard_irqs_count := cnt\<rparr>) w)"
  let ?b = "napi_complete_bits (nstate (napis ?w1 n))"
  let ?w2 = "upd_napi n (\<lambda>x. x\<lparr>list_owner := None, nstate := snd ?b\<rparr>) ?w1"
  have w1: "napi_wf ?w1" "on_cpu_list (napis ?w1 n) = None"
    using napi_wf_del [OF napi_wf_irrelevant [OF assms]] by auto
  then have w2: "napi_wf ?w2" "on_cpu_list (napis ?w2 n) = None"
    by (auto simp: napi_wf_def upd_napi_def cpu_lists_def)
  moreover have "fst ?b \<Longrightarrow> b_SCHED (nstate (napis ?w2 n))"
    by (auto simp: napi_complete_bits_def upd_napi_def)
  ultimately show ?thesis
    using assms napi_schedule_on_wf [of ?w2 n cpu] napi_wf_irrelevant [OF w2(1), of "\<lambda>x. x\<lparr>ntimer := Some timeout\<rparr>" n]
    unfolding napi_complete_done_def Let_def d by (simp add: split_def)
qed

lemma napi_watchdog_wf: "napi_wf w \<Longrightarrow> napi_wf (napi_watchdog cpu n w)"
proof -
  assume "napi_wf w"
  then have wf: "napi_wf (upd_napi n (\<lambda>x. x\<lparr>ntimer := None\<rparr>) w)"
    by (rule napi_wf_irrelevant) auto
  let ?w = "upd_bits n (\<lambda>b. b\<lparr>b_SCHED := True, b_PREFER_BUSY_POLL := False\<rparr>)
    (upd_napi n (\<lambda>x. x\<lparr>ntimer := None\<rparr>) w)"
  have "\<not> b_SCHED (nstate (napis w n)) \<Longrightarrow> on_cpu_list (napis w n) = None"
    using \<open>napi_wf w\<close> by (auto simp: napi_wf_def)
  moreover have "napi_wf ?w"
    by (rule napi_wf_bits [OF wf]) simp
  ultimately have "\<not> b_SCHED (nstate (napis w n)) \<Longrightarrow> napi_wf (napi_schedule_on cpu n ?w)"
    by (intro napi_schedule_on_wf) (auto simp: upd_napi_def upd_bits_def)
  then show ?thesis
    using wf unfolding napi_watchdog_def Let_def by (simp add: upd_napi_def)
qed

text \<open>
  C29. The poll lists stay consistent: scheduling an instance from any context, the watchdog timer and
  the completion of a poll keep every instance on at most one list, at most once, and keep \<open>SCHED\<close>
  set on every listed instance.
\<close>

theorem napi_lists_consistent:
  assumes "napi_wf w"
  shows "napi_wf (snd (napi_schedule cpu n w)) \<and> napi_wf (napi_watchdog cpu n w) \<and>
    napi_wf (snd (napi_complete_done cpu n work w))"
  using assms napi_schedule_wf napi_complete_done_wf napi_watchdog_wf by blast

definition idle_bits :: napi_bits where
  "idle_bits = \<lparr>b_SCHED = False, b_MISSED = False, b_DISABLE = False, b_NPSVC = False, b_LISTED = True,
     b_IN_BUSY_POLL = False, b_THREADED = False, b_SCHED_THREADED = False, b_PREFER_BUSY_POLL = False,
     b_THREADED_BUSY_POLL = False\<rparr>"

definition demo_world :: net_world where
  "demo_world = \<lparr>
     napis = (\<lambda>n. \<lparr>nstate = idle_bits\<lparr>b_SCHED := (n = 1)\<rparr>, nweight = 64, nthread = None, list_owner = None,
       on_cpu_list = (if n = 1 then Some 0 else None), defer_hard_irqs_count = 0, defer_hard_irqs = 0,
       gro_flush_timeout = 0, gro_bitmask = False, ntimer = None\<rparr>),
     softnets = (\<lambda>c. \<lparr>poll_list = (if c = 0 then [1] else []), repoll_list = [], in_net_rx_action = False,
       net_rx_softirq = False, backlog_thread = None\<rparr>),
     use_backlog_threads = False, woken = []\<rparr>"

lemma demo_world_wf: "napi_wf demo_world"
  by (auto simp: napi_wf_def demo_world_def cpu_lists_def idle_bits_def)

theorem napi_lists_consistent_witness:
  "napi_wf (snd (napi_schedule 0 1 demo_world)) \<and> napi_wf (napi_watchdog 0 1 demo_world) \<and>
    napi_wf (snd (napi_complete_done 0 1 3 demo_world))"
  by (rule napi_lists_consistent [OF demo_world_wf])

text \<open>
  No wake-up is lost during a poll: a \<open>napi_schedule\<close> that arrives while the instance is being
  polled makes the completion of that poll put it back, with \<open>SCHED\<close> still set and \<open>MISSED\<close> cleared,
  on the poll list of the completing CPU.
\<close>

theorem napi_missed_is_repolled:
  assumes "b_SCHED (nstate (napis w n))" "\<not> b_DISABLE (nstate (napis w n))"
    "\<not> b_NPSVC (nstate (napis w n))" "\<not> b_IN_BUSY_POLL (nstate (napis w n))"
    "\<not> b_THREADED (nstate (napis w n))"
  shows "let w1 = snd (napi_schedule c n w); w2 = snd (napi_complete_done cpu n work w1) in
    b_SCHED (nstate (napis w2 n)) \<and> \<not> b_MISSED (nstate (napis w2 n)) \<and>
    on_cpu_list (napis w2 n) = Some cpu \<and> n \<in> set (poll_list (softnets w2 cpu))"
proof -
  let ?w1 = "upd_bits n (\<lambda>_. (nstate (napis w n))\<lparr>b_SCHED := True, b_MISSED := True\<rparr>) w"
  have w1: "snd (napi_schedule c n w) = ?w1"
    using assms by (simp add: napi_schedule_def napi_schedule_prep_def Let_def)
  obtain ret timeout cnt where d: "napi_defer (napis ?w1 n) work = (ret, timeout, cnt)"
    by (cases "napi_defer (napis ?w1 n) work") auto
  show ?thesis
    using assms d unfolding w1 napi_complete_done_def Let_def
    by (auto simp: napi_upds napi_complete_bits_def napi_schedule_on_def Let_def
        list_del_init_poll_def split: option.splits)
qed

theorem napi_missed_is_repolled_witness:
  "on_cpu_list (napis (snd (napi_complete_done 3 1 5 (snd (napi_schedule 2 1 demo_world)))) 1) = Some 3"
proof -
  have "let w1 = snd (napi_schedule 2 1 demo_world); w2 = snd (napi_complete_done 3 1 5 w1) in
    b_SCHED (nstate (napis w2 1)) \<and> \<not> b_MISSED (nstate (napis w2 1)) \<and>
    on_cpu_list (napis w2 1) = Some 3 \<and> 1 \<in> set (poll_list (softnets w2 3))"
    by (rule napi_missed_is_repolled) (simp_all add: demo_world_def idle_bits_def)
  then show ?thesis unfolding Let_def by blast
qed

end
