(* ===== verification/Rx_Protocol.thy ===== *)
theory Rx_Protocol
  imports Queue_Concurrency Napi
begin

text \<open>
  The wake-up protocol of the receive path of one peer, as an interleaving of all its threads: the
  enqueuing softirqs (\<^verbatim>\<open>wg_queue_enqueue_per_device_and_peer\<close>), the decrypt workers
  (\<^verbatim>\<open>wg_packet_decrypt_worker\<close>, \<^verbatim>\<open>wg_queue_enqueue_per_peer_rx\<close>), the coalescing timer and the NAPI
  poll (\<^verbatim>\<open>wg_packet_rx_poll\<close>), in the repository's instrumented module
  (\<^verbatim>\<open>build/wg515-trigger\<close>) with its run-time knobs. With all knobs at 0 it is the protocol of the
  stock module. One step is one shared access. The queue is the concurrent machine of
  \<open>Queue_Concurrency\<close>, the state bits are those of \<open>Napi\<close>. Whether a packet decrypts, and when the
  timer fires, is arbitrary.
\<close>

section \<open>The machine\<close>

record knobs =
  wg_trig_k :: nat
  wg_supp :: bool
  wg_headwake :: bool
  wg_steal :: nat
  poll_weight :: nat

text \<open>
  The progress of one packet: through the enqueuing function, the decrypt ring, and the completion
  function.
\<close>

datatype pkt_stage =
    SFresh
  | SDropped    \<comment> \<open>the per-peer queue was full\<close>
  | SEnq        \<comment> \<open>inside \<open>wg_prev_queue_enqueue\<close>\<close>
  | SProduce    \<comment> \<open>about to enter the device ring\<close>
  | SInRing
  | SClaimed    \<comment> \<open>consumed from the ring, being decrypted\<close>
  | SFailed     \<comment> \<open>the ring was full (\<open>-EPIPE\<close>)\<close>
  | SStored     \<comment> \<open>the state has been published\<close>
  | SXchg       \<comment> \<open>threshold reached, about to take the timer flag\<close>
  | SCancel     \<comment> \<open>took the flag, about to cancel the timer\<close>
  | SArm        \<comment> \<open>below the threshold, about to set the flag\<close>
  | SStart      \<comment> \<open>set the flag, about to start the timer\<close>
  | SSched      \<comment> \<open>about to call \<open>napi_schedule\<close>\<close>
  | SDone

text \<open>The points at which the poll function peeks at the queue.\<close>

datatype peek_site =
    KLoop nat | KSteal nat nat | KStealEnd nat | KPublish | KRecheck | KSupp | KSuppAgain

datatype poll_pc =
    QIdle | QListed
  | QPeek peek_site
  | QState nat nat
  | QStealRead nat nat nat | QStealTake nat nat | QStealWait nat nat nat | QStealEndRead nat nat
  | QPublish "nat option" | QRecheck nat | QSetMissed
  | QSuppRead nat | QSuppClear | QSuppRecheck nat | QSuppSet
  | QComplete

datatype timer_pc = TIdle | TClear | TSched

record rxs =
  ms :: mpsc
  bits :: napi_bits
  pc :: poll_pc
  pstate :: "nat \<Rightarrow> packet_state"
  stg :: "nat \<Rightarrow> pkt_stage"
  rx_blocked_on :: "nat option"
  rx_ready :: nat
  rx_timer_armed :: bool
  timer_pending :: bool
  tpc :: timer_pc
  delivered :: "nat list"

definition rx_init :: "rxs \<Rightarrow> bool" where
  "rx_init s \<longleftrightarrow> mpsc_init (ms s) \<and> pq_peeked (mq (ms s)) = None \<and> bits s = idle_bits \<and> pc s = QIdle \<and>
     stg s = (\<lambda>_. SFresh) \<and> rx_blocked_on s = None \<and> rx_ready s = 0 \<and> \<not> rx_timer_armed s \<and>
     \<not> timer_pending s \<and> tpc s = TIdle \<and> delivered s = []"

definition sched_napi :: "rxs \<Rightarrow> rxs" where
  "sched_napi s =
     (let (ok, b) = napi_schedule_prep (bits s) in s\<lparr>bits := b, pc := (if ok then QListed else pc s)\<rparr>)"

definition to_stage :: "nat \<Rightarrow> pkt_stage \<Rightarrow> rxs \<Rightarrow> rxs" where
  "to_stage p x s = s\<lparr>stg := (stg s)(p := x)\<rparr>"

text \<open>The enqueuing side; packet \<open>p\<close> is enqueued by thread \<open>p\<close> of the queue machine.\<close>

inductive enq_side :: "rxs \<Rightarrow> rxs \<Rightarrow> bool" where
  e_start: "stg s p = SFresh \<Longrightarrow>
    enq_side s (to_stage p SEnq (s\<lparr>pstate := (pstate s)(p := PACKET_STATE_UNCRYPTED)\<rparr>))"
| e_full: "\<lbrakk>stg s p = SEnq; producers (ms s) p = PIdle; enqueue_step p (ms s) m; producers m p = PIdle\<rbrakk> \<Longrightarrow>
    enq_side s (to_stage p SDropped (s\<lparr>ms := m\<rparr>))"
| e_queue: "\<lbrakk>stg s p = SEnq; enqueue_step p (ms s) m; owns (producers m p) = Some p\<rbrakk> \<Longrightarrow>
    enq_side s (s\<lparr>ms := m\<rparr>)"
| e_link: "\<lbrakk>stg s p = SEnq; producers (ms s) p \<noteq> PIdle; enqueue_step p (ms s) m; producers m p = PIdle\<rbrakk> \<Longrightarrow>
    enq_side s (to_stage p SProduce (s\<lparr>ms := m\<rparr>))"
| e_ring: "stg s p = SProduce \<Longrightarrow> enq_side s (to_stage p SInRing s)"
| e_epipe: "stg s p = SProduce \<Longrightarrow> enq_side s (to_stage p SFailed s)"

text \<open>The completion side: a worker (or a stealing poll) and \<open>wg_queue_enqueue_per_peer_rx\<close>.\<close>

inductive work_side :: "knobs \<Rightarrow> rxs \<Rightarrow> rxs \<Rightarrow> bool" for kn where
  w_claim: "stg s p = SInRing \<Longrightarrow> work_side kn s (to_stage p SClaimed s)"
| w_store: "\<lbrakk>stg s p = SClaimed; x \<noteq> PACKET_STATE_UNCRYPTED\<rbrakk> \<Longrightarrow>
    work_side kn s (to_stage p SStored (s\<lparr>pstate := (pstate s)(p := x)\<rparr>))"
| w_dead: "stg s p = SFailed \<Longrightarrow>
    work_side kn s (to_stage p SStored (s\<lparr>pstate := (pstate s)(p := PACKET_STATE_DEAD)\<rparr>))"
| w_gate: "\<lbrakk>stg s p = SStored; wg_headwake kn; pstate s p = PACKET_STATE_CRYPTED\<rbrakk> \<Longrightarrow>
    work_side kn s (to_stage p (if rx_blocked_on s = None \<or> rx_blocked_on s = Some p then SSched else SDone) s)"
| w_direct: "\<lbrakk>stg s p = SStored; \<not> (wg_headwake kn \<and> pstate s p = PACKET_STATE_CRYPTED);
      wg_trig_k kn = 0 \<or> pstate s p \<noteq> PACKET_STATE_CRYPTED\<rbrakk> \<Longrightarrow>
    work_side kn s (to_stage p SSched s)"
| w_count: "\<lbrakk>stg s p = SStored; \<not> wg_headwake kn; pstate s p = PACKET_STATE_CRYPTED; wg_trig_k kn \<noteq> 0\<rbrakk> \<Longrightarrow>
    work_side kn s (to_stage p (if rx_ready s + 1 \<ge> wg_trig_k kn then SXchg else SArm)
      (s\<lparr>rx_ready := rx_ready s + 1\<rparr>))"
| w_xchg: "stg s p = SXchg \<Longrightarrow>
    work_side kn s (to_stage p (if rx_timer_armed s then SCancel else SSched) (s\<lparr>rx_timer_armed := False\<rparr>))"
| w_cancel: "stg s p = SCancel \<Longrightarrow> work_side kn s (to_stage p SSched (s\<lparr>timer_pending := False\<rparr>))"
| w_arm: "stg s p = SArm \<Longrightarrow>
    work_side kn s (to_stage p (if rx_timer_armed s then SDone else SStart) (s\<lparr>rx_timer_armed := True\<rparr>))"
| w_start: "stg s p = SStart \<Longrightarrow> work_side kn s (to_stage p SDone (s\<lparr>timer_pending := True\<rparr>))"
| w_sched: "stg s p = SSched \<Longrightarrow> work_side kn s (to_stage p SDone (sched_napi s))"
| t_fire: "\<lbrakk>timer_pending s; tpc s = TIdle\<rbrakk> \<Longrightarrow> work_side kn s (s\<lparr>timer_pending := False, tpc := TClear\<rparr>)"
| t_clear: "tpc s = TClear \<Longrightarrow> work_side kn s (s\<lparr>rx_timer_armed := False, tpc := TSched\<rparr>)"
| t_sched: "tpc s = TSched \<Longrightarrow> work_side kn s (sched_napi (s\<lparr>tpc := TIdle\<rparr>))"

text \<open>Where the poll function goes after each of its phases.\<close>

definition supp_pc :: "knobs \<Rightarrow> poll_pc" where
  "supp_pc kn = (if wg_supp kn then QPeek KSupp else QComplete)"

definition tail_pc :: "knobs \<Rightarrow> poll_pc" where
  "tail_pc kn = (if wg_headwake kn then QPeek KPublish else supp_pc kn)"

definition steal_done :: "knobs \<Rightarrow> nat \<Rightarrow> nat \<Rightarrow> poll_pc" where
  "steal_done kn w pulled = (if pulled > 0 then QPeek (KStealEnd w) else tail_pc kn)"

definition steal_next :: "knobs \<Rightarrow> nat \<Rightarrow> nat \<Rightarrow> poll_pc" where
  "steal_next kn w pulled =
     (if pulled < wg_steal kn then QPeek (KSteal w pulled) else steal_done kn w pulled)"

fun after_peek :: "knobs \<Rightarrow> peek_site \<Rightarrow> nat option \<Rightarrow> poll_pc" where
  "after_peek kn (KLoop w) None = steal_next kn w 0"
| "after_peek kn (KLoop w) (Some h) = QState w h"
| "after_peek kn (KSteal w n) None = steal_done kn w n"
| "after_peek kn (KSteal w n) (Some h) = QStealRead w n h"
| "after_peek kn (KStealEnd w) None = tail_pc kn"
| "after_peek kn (KStealEnd w) (Some h) = QStealEndRead w h"
| "after_peek kn KPublish r = QPublish r"
| "after_peek kn KRecheck None = supp_pc kn"
| "after_peek kn KRecheck (Some h) = QRecheck h"
| "after_peek kn KSupp None = QComplete"
| "after_peek kn KSupp (Some h) = QSuppRead h"
| "after_peek kn KSuppAgain None = QComplete"
| "after_peek kn KSuppAgain (Some h) = QSuppRecheck h"

definition set_peeked :: "nat option \<Rightarrow> mpsc \<Rightarrow> mpsc" where
  "set_peeked r m = m\<lparr>mq := (mq m)\<lparr>pq_peeked := r\<rparr>\<rparr>"

definition uncrypted :: "rxs \<Rightarrow> nat \<Rightarrow> bool" where
  "uncrypted s h \<longleftrightarrow> pstate s h = PACKET_STATE_UNCRYPTED"

text \<open>The poll: \<open>wg_prev_queue_peek\<close> at a site, then the phases of \<open>wg_packet_rx_poll\<close>.\<close>

inductive peek_side :: "knobs \<Rightarrow> rxs \<Rightarrow> rxs \<Rightarrow> bool" for kn where
  q_peeked: "\<lbrakk>pc s = QPeek k; pq_peeked (mq (ms s)) = Some h\<rbrakk> \<Longrightarrow>
    peek_side kn s (s\<lparr>pc := after_peek kn k (Some h)\<rparr>)"
| q_dequeue: "\<lbrakk>pc s = QPeek k; pq_peeked (mq (ms s)) = None; dequeue_step (ms s) m; consumer m \<noteq> CIdle\<rbrakk> \<Longrightarrow>
    peek_side kn s (s\<lparr>ms := m\<rparr>)"
| q_null: "\<lbrakk>pc s = QPeek k; pq_peeked (mq (ms s)) = None; dequeue_step (ms s) m; consumer m = CIdle;
      deq_log m = deq_log (ms s)\<rbrakk> \<Longrightarrow>
    peek_side kn s (s\<lparr>ms := m, pc := after_peek kn k None\<rparr>)"
| q_got: "\<lbrakk>pc s = QPeek k; pq_peeked (mq (ms s)) = None; dequeue_step (ms s) m; consumer m = CIdle;
      deq_log m = deq_log (ms s) @ [h]\<rbrakk> \<Longrightarrow>
    peek_side kn s (s\<lparr>ms := set_peeked (Some h) m, pc := after_peek kn k (Some h)\<rparr>)"

inductive poll_side :: "knobs \<Rightarrow> rxs \<Rightarrow> rxs \<Rightarrow> bool" for kn where
  q_start: "\<lbrakk>pc s = QListed; poll_weight kn > 0\<rbrakk> \<Longrightarrow>
    poll_side kn s (s\<lparr>pc := QPeek (KLoop 0), rx_ready := 0\<rparr>)"
| q_deliver: "\<lbrakk>pc s = QState w h; \<not> uncrypted s h\<rbrakk> \<Longrightarrow>
    poll_side kn s (s\<lparr>ms := set_peeked None (ms s), delivered := delivered s @ [h],
      pc := (if w + 1 \<ge> poll_weight kn then QListed else QPeek (KLoop (w + 1)))\<rparr>)"
| q_stop: "\<lbrakk>pc s = QState w h; uncrypted s h\<rbrakk> \<Longrightarrow> poll_side kn s (s\<lparr>pc := steal_next kn w 0\<rparr>)"
| q_steal_read: "pc s = QStealRead w n h \<Longrightarrow>
    poll_side kn s (s\<lparr>pc := (if uncrypted s h then QStealTake w n else steal_done kn w n)\<rparr>)"
| q_steal_take: "\<lbrakk>pc s = QStealTake w n; stg s q = SInRing\<rbrakk> \<Longrightarrow>
    poll_side kn s (to_stage q SClaimed (s\<lparr>pc := QStealWait w n q\<rparr>))"
| q_steal_other: "pc s = QStealTake w n \<Longrightarrow> poll_side kn s (s\<lparr>pc := steal_next kn w (n + 1)\<rparr>)"
| q_steal_dry: "\<lbrakk>pc s = QStealTake w n; \<forall>q. stg s q \<noteq> SInRing\<rbrakk> \<Longrightarrow>
    poll_side kn s (s\<lparr>pc := steal_done kn w n\<rparr>)"
| q_stolen: "\<lbrakk>pc s = QStealWait w n q; stg s q = SDone\<rbrakk> \<Longrightarrow>
    poll_side kn s (s\<lparr>pc := steal_next kn w (n + 1)\<rparr>)"
| q_steal_end: "pc s = QStealEndRead w h \<Longrightarrow>
    poll_side kn s (s\<lparr>pc := (if uncrypted s h then tail_pc kn else QPeek (KLoop w))\<rparr>)"
| q_publish: "pc s = QPublish r \<Longrightarrow> poll_side kn s (s\<lparr>rx_blocked_on := r, pc := QPeek KRecheck\<rparr>)"
| q_recheck: "pc s = QRecheck h \<Longrightarrow>
    poll_side kn s (s\<lparr>pc := (if uncrypted s h then supp_pc kn else QSetMissed)\<rparr>)"
| q_set_missed: "pc s = QSetMissed \<Longrightarrow>
    poll_side kn s (s\<lparr>bits := (bits s)\<lparr>b_MISSED := True\<rparr>, pc := supp_pc kn\<rparr>)"
| q_supp_read: "pc s = QSuppRead h \<Longrightarrow>
    poll_side kn s (s\<lparr>pc := (if uncrypted s h then QSuppClear else QComplete)\<rparr>)"
| q_supp_clear: "pc s = QSuppClear \<Longrightarrow>
    poll_side kn s (s\<lparr>bits := (bits s)\<lparr>b_MISSED := False\<rparr>, pc := QPeek KSuppAgain\<rparr>)"
| q_supp_recheck: "pc s = QSuppRecheck h \<Longrightarrow>
    poll_side kn s (s\<lparr>pc := (if uncrypted s h then QComplete else QSuppSet)\<rparr>)"
| q_supp_set: "pc s = QSuppSet \<Longrightarrow>
    poll_side kn s (s\<lparr>bits := (bits s)\<lparr>b_MISSED := True\<rparr>, pc := QComplete\<rparr>)"
| q_complete: "pc s = QComplete \<Longrightarrow>
    poll_side kn s (s\<lparr>bits := snd (napi_complete_bits (bits s)),
      pc := (if fst (napi_complete_bits (bits s)) then QListed else QIdle)\<rparr>)"

definition rx_step :: "knobs \<Rightarrow> rxs \<Rightarrow> rxs \<Rightarrow> bool" where
  "rx_step kn s t \<longleftrightarrow> enq_side s t \<or> work_side kn s t \<or> peek_side kn s t \<or> poll_side kn s t"

section \<open>The invariant\<close>

abbreviation peeked :: "rxs \<Rightarrow> nat option" where
  "peeked s \<equiv> pq_peeked (mq (ms s))"

definition outst :: "rxs \<Rightarrow> nat list" where
  "outst s = drop (length (delivered s)) (enq_log (ms s))"

text \<open>Stages before the packet's state is published.\<close>

definition unpublished :: "pkt_stage set" where
  "unpublished = {SEnq, SProduce, SInRing, SClaimed, SFailed}"

text \<open>A packet whose completion is bound to call \<open>napi_schedule\<close>.\<close>

definition wakes :: "knobs \<Rightarrow> rxs \<Rightarrow> nat \<Rightarrow> bool" where
  "wakes kn s p \<longleftrightarrow> stg s p = SSched \<or> stg s p \<in> insert SStored unpublished \<and>
     (\<not> wg_headwake kn \<or> rx_blocked_on s = None \<or> rx_blocked_on s = Some p)"

definition live_strong :: "knobs \<Rightarrow> rxs \<Rightarrow> bool" where
  "live_strong kn s \<longleftrightarrow> b_MISSED (bits s) \<or> (\<exists>p \<in> set (outst s). wakes kn s p)"

definition live :: "knobs \<Rightarrow> rxs \<Rightarrow> bool" where
  "live kn s \<longleftrightarrow> live_strong kn s \<or> outst s = [] \<and> (wg_headwake kn \<longrightarrow> rx_blocked_on s = None)"

fun need_live :: "knobs \<Rightarrow> poll_pc \<Rightarrow> bool" where
  "need_live kn QIdle = True"
| "need_live kn QListed = False"
| "need_live kn (QPeek k) = (case k of KLoop _ \<Rightarrow> False | KSteal _ _ \<Rightarrow> \<not> wg_headwake kn
     | KStealEnd _ \<Rightarrow> \<not> wg_headwake kn | KPublish \<Rightarrow> False | KRecheck \<Rightarrow> False | KSupp \<Rightarrow> True
     | KSuppAgain \<Rightarrow> False)"
| "need_live kn (QState _ _) = False"
| "need_live kn (QStealRead _ _ _) = (\<not> wg_headwake kn)"
| "need_live kn (QStealTake _ _) = (\<not> wg_headwake kn)"
| "need_live kn (QStealWait _ _ _) = (\<not> wg_headwake kn)"
| "need_live kn (QStealEndRead _ _) = (\<not> wg_headwake kn)"
| "need_live kn (QPublish _) = False"
| "need_live kn (QRecheck _) = False"
| "need_live kn QSetMissed = False"
| "need_live kn (QSuppRead _) = True"
| "need_live kn QSuppClear = True"
| "need_live kn (QSuppRecheck _) = False"
| "need_live kn QSuppSet = False"
| "need_live kn QComplete = True"

fun post_publish :: "poll_pc \<Rightarrow> bool" where
  "post_publish (QPeek k) = (k \<in> {KRecheck, KSupp, KSuppAgain})"
| "post_publish (QRecheck _) = True"
| "post_publish QSetMissed = True"
| "post_publish (QSuppRead _) = True"
| "post_publish QSuppClear = True"
| "post_publish (QSuppRecheck _) = True"
| "post_publish QSuppSet = True"
| "post_publish QComplete = True"
| "post_publish _ = False"

text \<open>Points that only the head-gated poll reaches.\<close>

fun gate_pc :: "poll_pc \<Rightarrow> bool" where
  "gate_pc (QPeek k) = (k \<in> {KPublish, KRecheck})"
| "gate_pc (QPublish _) = True"
| "gate_pc (QRecheck _) = True"
| "gate_pc QSetMissed = True"
| "gate_pc _ = False"

text \<open>Peek sites whose empty answer the poll relies on.\<close>

definition decisive :: "knobs \<Rightarrow> peek_site \<Rightarrow> bool" where
  "decisive kn k \<longleftrightarrow> (if wg_headwake kn then k = KRecheck else \<exists>w. k = KLoop w)"

definition base_inv :: "rxs \<Rightarrow> bool" where
  "base_inv s \<longleftrightarrow> mpsc_inv (ms s) \<and> deq_log (ms s) = delivered s @ (case peeked s of None \<Rightarrow> [] | Some h \<Rightarrow> [h]) \<and>
     (consumer (ms s) \<noteq> CIdle \<longrightarrow> (\<exists>k. pc s = QPeek k) \<and> peeked s = None)"

definition bits_inv :: "rxs \<Rightarrow> bool" where
  "bits_inv s \<longleftrightarrow> (b_SCHED (bits s) \<longleftrightarrow> pc s \<noteq> QIdle) \<and> (b_MISSED (bits s) \<longrightarrow> b_SCHED (bits s)) \<and>
     \<not> b_DISABLE (bits s)"

definition stage_inv :: "rxs \<Rightarrow> bool" where
  "stage_inv s \<longleftrightarrow>
     (\<forall>i. producers (ms s) i \<noteq> PIdle \<longrightarrow> stg s i = SEnq \<and> owns (producers (ms s) i) = Some i) \<and>
     (\<forall>p \<in> set (enq_log (ms s)). stg s p \<notin> {SFresh, SDropped} \<and> (uncrypted s p \<longrightarrow> stg s p \<in> unpublished)) \<and>
     (\<forall>p. stg s p = SEnq \<longrightarrow> producers (ms s) p = PIdle \<longrightarrow> p \<notin> set (enq_log (ms s)))"

text \<open>What the peeked packet is at each point of the poll.\<close>

definition head_ok :: "poll_pc \<Rightarrow> nat option \<Rightarrow> bool" where
  "head_ok q r \<longleftrightarrow> (case q of
       QState _ h \<Rightarrow> r = Some h
     | QStealRead _ _ h \<Rightarrow> r = Some h
     | QStealEndRead _ h \<Rightarrow> r = Some h
     | QRecheck h \<Rightarrow> r = Some h
     | QSuppRead h \<Rightarrow> r = Some h
     | QSuppRecheck h \<Rightarrow> r = Some h
     | QSuppClear \<Rightarrow> r \<noteq> None
     | QPublish x \<Rightarrow> x = None \<or> r = x
     | QPeek k \<Rightarrow> k = KSuppAgain \<longrightarrow> r \<noteq> None
     | _ \<Rightarrow> True)"

definition head_inv :: "knobs \<Rightarrow> rxs \<Rightarrow> bool" where
  "head_inv kn s \<longleftrightarrow> head_ok (pc s) (peeked s) \<and> (gate_pc (pc s) \<longrightarrow> wg_headwake kn) \<and>
     (wg_headwake kn \<longrightarrow> post_publish (pc s) \<longrightarrow> rx_blocked_on s = None \<or> peeked s = rx_blocked_on s)"

definition live_inv :: "knobs \<Rightarrow> rxs \<Rightarrow> bool" where
  "live_inv kn s \<longleftrightarrow> (need_live kn (pc s) \<longrightarrow> live kn s) \<and>
     (\<forall>k t. pc s = QPeek k \<longrightarrow> decisive kn k \<longrightarrow> consumer (ms s) = CCheck t \<longrightarrow>
        t = pq_head (mq (ms s)) \<or> live_strong kn s)"

definition rx_inv :: "knobs \<Rightarrow> rxs \<Rightarrow> bool" where
  "rx_inv kn s \<longleftrightarrow> base_inv s \<and> bits_inv s \<and> stage_inv s \<and> head_inv kn s \<and> live_inv kn s"

lemmas rx_inv_defs = rx_inv_def base_inv_def bits_inv_def stage_inv_def head_inv_def live_inv_def

lemma rx_init_inv: "rx_init s \<Longrightarrow> rx_inv kn s"
  using mpsc_init_inv [of "ms s"]
  by (auto simp: rx_init_def rx_inv_defs mpsc_init_def idle_bits_def live_def outst_def head_ok_def)

lemma live_strong_imp: "live_strong kn s \<Longrightarrow> live kn s"
  by (simp add: live_def)

lemma outst_waiting:
  assumes "base_inv s"
  shows "outst s = (case peeked s of None \<Rightarrow> [] | Some h \<Rightarrow> [h]) @ waiting (ms s)"
proof -
  obtain ns where "mpsc_inv_at (ms s) ns" using assms by (auto simp: base_inv_def mpsc_inv_def)
  then have "enq_log (ms s) = deq_log (ms s) @ waiting (ms s)"
    by (simp add: mpsc_inv_at_def log_ok_def waiting_def)
  then show ?thesis using assms by (simp add: outst_def base_inv_def)
qed

subsection \<open>Enqueuing\<close>

text \<open>What a producer's step leaves alone.\<close>

lemma enqueue_frame:
  assumes "enqueue_step i m m'"
  shows "consumer m' = consumer m" "deq_log m' = deq_log m" "pq_peeked (mq m') = pq_peeked (mq m)"
    "\<And>j. j \<noteq> i \<Longrightarrow> producers m' j = producers m j"
    "enq_log m' = enq_log m \<and> pq_head (mq m') = pq_head (mq m) \<or>
     (\<exists>n. owns (producers m i) = Some n \<and> enq_log m' = enq_log m @ [n])"
  using assms by (cases; auto simp: pq_access)+

lemma enqueue_swapped:
  "enqueue_step i m m' \<Longrightarrow> enq_log m' \<noteq> enq_log m \<Longrightarrow> producers m' i \<noteq> PIdle"
  by (cases rule: enqueue_step.cases) (auto simp: pq_access)

lemma decisive_gate:
  assumes "rx_inv kn s" "pc s = QPeek k" "decisive kn k" "peeked s = None" "wg_headwake kn"
  shows "rx_blocked_on s = None"
  using assms by (auto simp: rx_inv_def head_inv_def decisive_def)

lemma enq_live:
  assumes inv: "rx_inv kn s"
    and same: "bits t = bits s" "pc t = pc s" "rx_blocked_on t = rx_blocked_on s" "delivered t = delivered s"
      "consumer (ms t) = consumer (ms s)" "deq_log (ms t) = deq_log (ms s)"
    and log: "enq_log (ms t) = enq_log (ms s) \<and> pq_head (mq (ms t)) = pq_head (mq (ms s)) \<or>
      (\<exists>p. enq_log (ms t) = enq_log (ms s) @ [p] \<and> stg t p = SEnq)"
    and wk: "\<And>p. p \<in> set (outst s) \<Longrightarrow> wakes kn s p \<Longrightarrow> wakes kn t p"
  shows "live_inv kn t"
proof -
  have len: "length (delivered s) \<le> length (enq_log (ms s))"
  proof -
    obtain ns where "mpsc_inv_at (ms s) ns" using inv by (auto simp: rx_inv_def base_inv_def mpsc_inv_def)
    then show ?thesis using inv by (auto simp: rx_inv_def base_inv_def mpsc_inv_at_def log_ok_def)
  qed
  then have outst: "outst t = outst s \<and> pq_head (mq (ms t)) = pq_head (mq (ms s)) \<or>
      (\<exists>p. outst t = outst s @ [p] \<and> stg t p = SEnq)"
    using log same by (auto simp: outst_def)
  have strong: "live_strong kn t" if "live_strong kn s"
    using that outst wk same unfolding live_strong_def by (elim disjE conjE exE bexE) auto
  have new: "live_strong kn t" if "outst t \<noteq> outst s \<or> pq_head (mq (ms t)) \<noteq> pq_head (mq (ms s))"
    "\<not> wg_headwake kn \<or> rx_blocked_on s = None"
    using that outst same by (auto simp: live_strong_def wakes_def unpublished_def)
  have "live kn t" if "live kn s"
    using that strong new same(3) unfolding live_def by metis
  moreover have "v = pq_head (mq (ms t)) \<or> live_strong kn t"
    if "pc s = QPeek k" "decisive kn k" "consumer (ms s) = CCheck v" for k v
  proof -
    have "\<not> wg_headwake kn \<or> rx_blocked_on s = None"
      using inv that decisive_gate [OF inv that(1,2)] by (auto simp: rx_inv_def base_inv_def)
    then show ?thesis
      using inv that strong new unfolding rx_inv_def live_inv_def by metis
  qed
  ultimately show ?thesis
    using inv unfolding rx_inv_def live_inv_def same by blast
qed

text \<open>A producer's step under the protocol: the parts that only depend on the queue.\<close>

lemma enq_base:
  assumes inv: "rx_inv kn s" and step: "enqueue_step p (ms s) m"
    and t: "ms t = m" "pc t = pc s" "delivered t = delivered s" "bits t = bits s"
      "rx_blocked_on t = rx_blocked_on s"
  shows "base_inv t" "bits_inv t" "head_inv kn t"
  using inv enqueue_step_inv [OF step]
  unfolding rx_inv_def base_inv_def bits_inv_def head_inv_def t enqueue_frame [OF step] by blast+

lemma enq_side_inv:
  assumes "enq_side s t" "rx_inv kn s"
  shows "rx_inv kn t"
  using assms
proof (induction rule: enq_side.induct)
  case (e_start s p)
  then have notin: "p \<notin> set (enq_log (ms s))" "p \<notin> set (outst s)" "producers (ms s) p = PIdle"
    by (auto simp: rx_inv_def stage_inv_def outst_def dest!: in_set_dropD)
  let ?t = "to_stage p SEnq (s\<lparr>pstate := (pstate s)(p := PACKET_STATE_UNCRYPTED)\<rparr>)"
  have "live_inv kn ?t"
    using e_start notin by (intro enq_live [of kn s]) (auto simp: to_stage_def wakes_def)
  then show ?case
    using e_start notin by (auto simp: rx_inv_def base_inv_def bits_inv_def stage_inv_def head_inv_def
        to_stage_def uncrypted_def)
next
  case (e_full s p m)
  then have notin: "p \<notin> set (enq_log (ms s))" "p \<notin> set (outst s)"
    by (auto simp: rx_inv_def stage_inv_def outst_def dest!: in_set_dropD)
  have log: "enq_log m = enq_log (ms s) \<and> pq_head (mq m) = pq_head (mq (ms s))"
    using enqueue_frame(5) [OF e_full(3)] e_full by auto
  let ?t = "to_stage p SDropped (s\<lparr>ms := m\<rparr>)"
  have "live_inv kn ?t"
    using e_full(5) log notin enqueue_frame [OF e_full(3)]
    by (intro enq_live [of kn s]) (auto simp: to_stage_def wakes_def)
  moreover have "stage_inv ?t"
    using e_full enqueue_frame [OF e_full(3)] notin log
    by (auto simp: rx_inv_def stage_inv_def to_stage_def uncrypted_def)
  ultimately show ?case
    using enq_base [OF e_full(5,3), of ?t] by (simp add: rx_inv_def to_stage_def)
next
  case (e_queue s p m)
  note frame = enqueue_frame [OF e_queue(2)]
  have "producers (ms s) p = PIdle \<or> owns (producers (ms s) p) = Some p"
    using e_queue(4) unfolding rx_inv_def stage_inv_def by blast
  then have log: "enq_log m = enq_log (ms s) \<and> pq_head (mq m) = pq_head (mq (ms s)) \<or>
      enq_log m = enq_log (ms s) @ [p]"
    using frame(5) by auto
  let ?t = "s\<lparr>ms := m\<rparr>"
  have "live_inv kn ?t"
    using e_queue log frame by (intro enq_live [of kn s]) (auto simp: wakes_def)
  moreover obtain x where x: "owns x = Some p" "x \<noteq> PIdle" "producers m = (producers (ms s))(p := x)"
    using e_queue(3) frame(4) by (intro that [of "producers m p"]) (auto simp: fun_eq_iff)
  then have "stage_inv ?t"
    using e_queue(1,4) log
    by (auto simp: rx_inv_def stage_inv_def uncrypted_def unpublished_def)
  ultimately show ?case
    using enq_base [OF e_queue(4,2), of ?t] by (simp add: rx_inv_def)
next
  case (e_link s p m)
  note frame = enqueue_frame [OF e_link(3)]
  have log: "enq_log m = enq_log (ms s)" "pq_head (mq m) = pq_head (mq (ms s))"
    using frame(5) enqueue_swapped [OF e_link(3)] e_link(4) by auto
  let ?t = "to_stage p SProduce (s\<lparr>ms := m\<rparr>)"
  have "live_inv kn ?t"
    using e_link log frame by (intro enq_live [of kn s]) (auto simp: wakes_def to_stage_def unpublished_def)
  moreover have "stage_inv ?t"
    using e_link frame log
    by (auto simp: rx_inv_def stage_inv_def uncrypted_def unpublished_def to_stage_def)
  ultimately show ?case
    using enq_base [OF e_link(5,3), of ?t] by (simp add: rx_inv_def to_stage_def)
next
  case (e_ring s p)
  then have "live_inv kn (to_stage p SInRing s)"
    by (intro enq_live [of kn s]) (auto simp: wakes_def to_stage_def unpublished_def)
  then show ?case
    using e_ring by (auto simp: rx_inv_def base_inv_def bits_inv_def stage_inv_def head_inv_def
        to_stage_def uncrypted_def unpublished_def)
next
  case (e_epipe s p)
  then have "live_inv kn (to_stage p SFailed s)"
    by (intro enq_live [of kn s]) (auto simp: wakes_def to_stage_def unpublished_def)
  then show ?case
    using e_epipe by (auto simp: rx_inv_def base_inv_def bits_inv_def stage_inv_def head_inv_def
        to_stage_def uncrypted_def unpublished_def)
qed

subsection \<open>Completion\<close>

text \<open>
  The completion function reaches \<open>napi_schedule\<close> for every packet that must wake the poll when the
  coalescing trigger is not in use: its threshold is 0, or the head gate takes precedence.
\<close>

definition untriggered :: "knobs \<Rightarrow> bool" where
  "untriggered kn \<longleftrightarrow> wg_trig_k kn = 0 \<or> wg_headwake kn"

lemma live_inv_mono:
  assumes "live_inv kn s" "pc t = pc s" "ms t = ms s" "bits t = bits s" "rx_blocked_on t = rx_blocked_on s"
    "delivered t = delivered s" "\<And>p. wakes kn s p \<Longrightarrow> wakes kn t p"
  shows "live_inv kn t"
proof -
  have out: "outst t = outst s" using assms by (simp add: outst_def)
  then have "live_strong kn s \<Longrightarrow> live_strong kn t"
    using assms unfolding live_strong_def by metis
  then show ?thesis
    using assms(1) unfolding live_inv_def live_def assms(2-6) out by blast
qed

lemma work_quiet:
  assumes inv: "rx_inv kn s"
    and same: "pc t = pc s" "ms t = ms s" "bits t = bits s" "rx_blocked_on t = rx_blocked_on s"
      "delivered t = delivered s"
    and stg: "stg t = (stg s)(p := x)" "stg s p \<notin> {SFresh, SDropped, SEnq}" "x \<notin> {SFresh, SDropped, SEnq}"
    and ps: "\<And>q. q \<noteq> p \<Longrightarrow> pstate t q = pstate s q"
      "uncrypted t p \<Longrightarrow> uncrypted s p \<and> (stg s p \<in> unpublished \<longrightarrow> x \<in> unpublished)"
    and wk: "wakes kn s p \<Longrightarrow> wakes kn t p"
  shows "rx_inv kn t"
proof -
  have "wakes kn s q \<Longrightarrow> wakes kn t q" for q
    using wk stg same by (cases "q = p") (auto simp: wakes_def)
  then have "live_inv kn t"
    using inv by (intro live_inv_mono [OF _ same(1-5)]) (auto simp: rx_inv_def)
  moreover have "uncrypted t q = uncrypted s q" if "q \<noteq> p" for q
    using ps that by (simp add: uncrypted_def)
  then have "stage_inv t"
    using inv stg ps(2) unfolding rx_inv_def stage_inv_def same by auto
  moreover have "base_inv t" "bits_inv t" "head_inv kn t"
    using inv unfolding rx_inv_def base_inv_def bits_inv_def head_inv_def same by blast+
  ultimately show ?thesis by (simp add: rx_inv_def)
qed

lemma sched_inv:
  assumes inv: "rx_inv kn s" and fin: "stg s p = SSched \<or> stg s p = x" "x \<notin> {SFresh, SDropped, SEnq} \<or> stg s p = x"
  shows "rx_inv kn (to_stage p x (sched_napi s))" (is "rx_inv kn ?t")
proof -
  have b: "\<not> b_DISABLE (bits s)" "b_SCHED (bits s) \<longleftrightarrow> pc s \<noteq> QIdle"
    using inv by (auto simp: rx_inv_def bits_inv_def)
  have same: "ms ?t = ms s" "delivered ?t = delivered s" "rx_blocked_on ?t = rx_blocked_on s"
    "pstate ?t = pstate s" "stg ?t = (stg s)(p := x)"
    by (auto simp: to_stage_def sched_napi_def split_def Let_def)
  have "stage_inv ?t"
    using inv fin unfolding rx_inv_def stage_inv_def uncrypted_def same
    by (auto simp: unpublished_def fun_upd_idem)
  moreover have "bits_inv ?t \<and> base_inv ?t \<and> head_inv kn ?t \<and> live_inv kn ?t"
  proof (cases "pc s = QIdle")
    case True
    then have t: "pc ?t = QListed" "bits ?t = (bits s)\<lparr>b_SCHED := True, b_MISSED := b_MISSED (bits s)\<rparr>"
      using b by (auto simp: to_stage_def sched_napi_def napi_schedule_prep_def)
    show ?thesis
      using inv b True unfolding rx_inv_def bits_inv_def base_inv_def head_inv_def live_inv_def same t
      by (auto simp: head_ok_def)
  next
    case False
    then have t: "pc ?t = pc s" "bits ?t = (bits s)\<lparr>b_SCHED := True, b_MISSED := True\<rparr>"
      using b by (auto simp: to_stage_def sched_napi_def napi_schedule_prep_def)
    then have "live_strong kn ?t" by (simp add: live_strong_def)
    then have "live_inv kn ?t" by (simp add: live_inv_def live_def)
    then show ?thesis
      using inv b False unfolding rx_inv_def bits_inv_def base_inv_def head_inv_def same t
      by simp
  qed
  ultimately show ?thesis by (simp add: rx_inv_def)
qed

lemma rx_inv_timer [simp]:
  "rx_inv kn (s\<lparr>tpc := a\<rparr>) = rx_inv kn s" "rx_inv kn (s\<lparr>timer_pending := b\<rparr>) = rx_inv kn s"
  "rx_inv kn (s\<lparr>rx_timer_armed := b\<rparr>) = rx_inv kn s" "rx_inv kn (s\<lparr>rx_ready := n\<rparr>) = rx_inv kn s"
  by (simp_all add: rx_inv_defs live_def live_strong_def outst_def wakes_def uncrypted_def)

lemma work_to_stage:
  assumes "rx_inv kn s" "stg s p \<notin> {SFresh, SDropped, SEnq}" "x \<notin> {SFresh, SDropped, SEnq}"
    and "stg s p \<in> unpublished \<Longrightarrow> x \<in> unpublished"
    and "wakes kn s p \<Longrightarrow> x = SSched \<or> x \<in> unpublished \<and> stg s p \<noteq> SSched"
  shows "rx_inv kn (to_stage p x s)"
  by (rule work_quiet [OF assms(1), of _ p x])
    (use assms in \<open>auto simp: to_stage_def wakes_def uncrypted_def unpublished_def\<close>)

lemma work_publish:
  assumes "rx_inv kn s" "stg s p \<in> {SClaimed, SFailed}" "x \<noteq> PACKET_STATE_UNCRYPTED"
  shows "rx_inv kn (to_stage p SStored (s\<lparr>pstate := (pstate s)(p := x)\<rparr>))"
  by (rule work_quiet [OF assms(1), of _ p SStored])
    (use assms in \<open>auto simp: to_stage_def wakes_def uncrypted_def unpublished_def\<close>)

lemma work_side_inv:
  assumes "work_side kn s t" "rx_inv kn s" "untriggered kn"
  shows "rx_inv kn t"
  using assms
proof (induction rule: work_side.induct)
  case (w_sched s p)
  then show ?case by (intro sched_inv) auto
next
  case (t_sched s)
  have "rx_inv kn (to_stage 0 (stg s 0) (sched_napi (s\<lparr>tpc := TIdle\<rparr>)))"
    using t_sched by (intro sched_inv) auto
  moreover have "to_stage 0 (stg s 0) (sched_napi (s\<lparr>tpc := TIdle\<rparr>)) = sched_napi (s\<lparr>tpc := TIdle\<rparr>)"
    by (simp add: to_stage_def sched_napi_def split_def Let_def)
  ultimately show ?case by simp
next
  case (t_fire s)
  then show ?case by simp
next
  case (t_clear s)
  then show ?case by simp
next
  case (w_store s p x)
  then show ?case by (intro work_publish) auto
next
  case (w_dead s p)
  then show ?case by (intro work_publish) auto
next
  case (w_count s p)
  then show ?case by (simp add: untriggered_def)
qed (rule work_to_stage; simp add: wakes_def unpublished_def split: if_splits)+

subsection \<open>The poll\<close>

lemma dequeue_frame:
  assumes "dequeue_step m m'"
  shows "producers m' = producers m" "enq_log m' = enq_log m" "pq_peeked (mq m') = pq_peeked (mq m)"
    "consumer m' \<noteq> CIdle \<Longrightarrow> deq_log m' = deq_log m"
  using assms by (cases; auto simp: pq_access)+

lemma mpsc_inv_peeked: "mpsc_inv (set_peeked r m) = mpsc_inv m"
proof -
  let ?m = "set_peeked r m"
  have "pend ?m = pend m" "reserved ?m = reserved m" "consumer ?m = consumer m"
    by (auto simp: pend_def reserved_def set_peeked_def fun_eq_iff)
  moreover have "consumer_ok ?m ns = consumer_ok m ns" for ns
    unfolding consumer_ok_def set_peeked_def by (cases "consumer m") simp_all
  ultimately have "mpsc_inv_at ?m ns = mpsc_inv_at m ns" for ns
    unfolding mpsc_inv_at_def nodes_ok_def producers_ok_def count_ok_def log_ok_def
    by (simp add: set_peeked_def)
  then show ?thesis by (simp add: mpsc_inv_def)
qed

text \<open>An undelivered head that is still encrypted will wake the poll.\<close>

lemma head_wakes:
  assumes inv: "rx_inv kn s" and h: "peeked s = Some h" "uncrypted s h"
    and gate: "wg_headwake kn \<Longrightarrow> rx_blocked_on s = None \<or> rx_blocked_on s = Some h"
  shows "live_strong kn s"
proof -
  have out: "h \<in> set (outst s)"
    using outst_waiting [of s] inv h by (simp add: rx_inv_def)
  then have "h \<in> set (enq_log (ms s))" by (auto simp: outst_def dest: in_set_dropD)
  then have "stg s h \<in> unpublished"
    using inv h unfolding rx_inv_def stage_inv_def by blast
  with out gate show ?thesis by (auto simp: live_strong_def wakes_def)
qed

text \<open>So will a packet whose producer has yet to link it.\<close>

lemma swapped_wakes:
  assumes inv: "rx_inv kn s" and i: "producers (ms s) i = PSwapped a n" "n \<in> set (waiting (ms s))"
    and gate: "wg_headwake kn \<Longrightarrow> rx_blocked_on s = None"
  shows "live_strong kn s"
proof -
  have "stg s i = SEnq \<and> owns (producers (ms s) i) = Some i"
    using inv i(1) unfolding rx_inv_def stage_inv_def by (metis prod_pc.distinct(5))
  then have "stg s n = SEnq" using i by simp
  moreover have "n \<in> set (outst s)"
    using outst_waiting [of s] inv i by (simp add: rx_inv_def)
  ultimately show ?thesis using gate by (auto simp: live_strong_def wakes_def unpublished_def)
qed

lemma null_live:
  assumes inv: "rx_inv kn s" and pc: "pc s = QPeek k" "decisive kn k" "peeked s = None"
    and step: "dequeue_step (ms s) m" "consumer m = CIdle" "deq_log m = deq_log (ms s)"
  shows "live kn s"
proof -
  note gate = decisive_gate [OF inv pc]
  have mi: "mpsc_inv (ms s)" using inv by (simp add: rx_inv_def base_inv_def)
  have sw: "live kn s" if "\<exists>i a n. producers (ms s) i = PSwapped a n \<and> n \<in> set (waiting (ms s))"
    using that swapped_wakes [OF inv _ _ gate] live_strong_imp by blast
  from step(1) show ?thesis
  proof cases
    case c_empty
    then show ?thesis
      using empty_reason [OF mi] sw outst_waiting [of s] inv pc gate by (auto simp: live_def rx_inv_def)
  next
    case (c_busy t)
    then show ?thesis
      using inv pc live_strong_imp unfolding rx_inv_def live_inv_def by blast
  next
    case (c_reload_none t)
    then show ?thesis using reload_none_reason [OF mi] sw by blast
  qed (use step in auto)
qed

lemma same_outst:
  assumes "enq_log (ms t) = enq_log (ms s)" "delivered t = delivered s" "stg t = stg s"
    "rx_blocked_on t = rx_blocked_on s"
  shows "outst t = outst s" "wakes kn t = wakes kn s"
  using assms by (auto simp: outst_def wakes_def fun_eq_iff)

text \<open>Steps that leave the queue idle and change only the program point and the bits.\<close>

lemma poll_to:
  assumes inv: "rx_inv kn s" "consumer (ms s) = CIdle" "pc s \<noteq> QIdle" "q \<noteq> QIdle"
    and "head_ok q (peeked s)" "gate_pc q \<Longrightarrow> wg_headwake kn"
      "wg_headwake kn \<Longrightarrow> post_publish q \<Longrightarrow> rx_blocked_on s = None \<or> peeked s = rx_blocked_on s"
      "need_live kn q \<Longrightarrow> live kn s"
  shows "rx_inv kn (s\<lparr>pc := q\<rparr>)"
proof -
  have "live kn (s\<lparr>pc := q\<rparr>) = live kn s"
    by (simp add: live_def live_strong_def outst_def wakes_def)
  then show ?thesis
    using assms unfolding rx_inv_def base_inv_def bits_inv_def stage_inv_def head_inv_def live_inv_def
    by (simp add: uncrypted_def)
qed

lemmas pc_defs = supp_pc_def tail_pc_def steal_done_def steal_next_def

text \<open>The program points reached after a peek.\<close>

lemma after_peek_points:
  "after_peek kn k r \<noteq> QIdle"
  "head_ok (after_peek kn k (Some h)) (Some h)"
  "k \<noteq> KSuppAgain \<Longrightarrow> head_ok (after_peek kn k None) None"
  "gate_pc (after_peek kn k r) \<Longrightarrow> gate_pc (QPeek k) \<or> wg_headwake kn"
  "wg_headwake kn \<Longrightarrow> post_publish (after_peek kn k r) \<Longrightarrow> post_publish (QPeek k)"
  "need_live kn (after_peek kn k (Some h)) \<Longrightarrow> need_live kn (QPeek k)"
  "k \<noteq> KSuppAgain \<Longrightarrow> need_live kn (after_peek kn k None) \<Longrightarrow> (gate_pc (QPeek k) \<longrightarrow> wg_headwake kn) \<Longrightarrow>
     need_live kn (QPeek k) \<or> decisive kn k"
  by (cases k; cases r; simp add: pc_defs head_ok_def decisive_def split: if_splits)+

lemma peek_after_inv:
  assumes inv: "rx_inv kn s" and pc: "pc s = QPeek k" and q: "q = after_peek kn k r"
    and m: "mpsc_inv m" "consumer m = CIdle" "producers m = producers (ms s)" "enq_log m = enq_log (ms s)"
      "pq_peeked (mq m) = r" "deq_log m = delivered s @ (case r of None \<Rightarrow> [] | Some h \<Rightarrow> [h])"
    and r: "r = peeked s \<or> peeked s = None"
    and live: "r = None \<Longrightarrow> decisive kn k \<Longrightarrow> live kn s"
  shows "rx_inv kn (s\<lparr>ms := m, pc := q\<rparr>)" (is "rx_inv kn ?t")
proof -
  have k: "k = KSuppAgain \<Longrightarrow> r \<noteq> None" and gate: "gate_pc (QPeek k) \<longrightarrow> wg_headwake kn"
    and bl: "wg_headwake kn \<Longrightarrow> post_publish (QPeek k) \<Longrightarrow> rx_blocked_on s = None \<or> peeked s = rx_blocked_on s"
    and nl: "need_live kn (QPeek k) \<Longrightarrow> live kn s"
    using inv pc r by (auto simp: rx_inv_def head_inv_def head_ok_def live_inv_def)
  have "live kn ?t = live kn s"
    using m by (simp add: live_def live_strong_def outst_def wakes_def)
  moreover have "need_live kn q \<Longrightarrow> live kn s"
    using after_peek_points(6,7) [where kn = kn and k = k] nl live k gate q by (cases r) auto
  ultimately have "live_inv kn ?t"
    using m by (simp add: live_inv_def)
  moreover have "head_ok q r"
    using after_peek_points(2,3) [where kn = kn and k = k] k q by (cases r) auto
  then have "head_inv kn ?t"
    using after_peek_points(4,5) [where kn = kn and k = k and r = r] gate bl q r m(5) unfolding head_inv_def by auto
  moreover have "stage_inv ?t"
    using inv m unfolding rx_inv_def stage_inv_def by (simp add: uncrypted_def)
  moreover have "base_inv ?t" "bits_inv ?t"
    using inv m pc q after_peek_points(1) [where kn = kn and k = k and r = r] unfolding rx_inv_def base_inv_def bits_inv_def by auto
  ultimately show ?thesis by (simp add: rx_inv_def)
qed

lemma peek_side_inv:
  assumes "peek_side kn s t" "rx_inv kn s"
  shows "rx_inv kn t"
  using assms
proof (induction rule: peek_side.induct)
  case (q_peeked s k h)
  then have "rx_inv kn (s\<lparr>ms := ms s, pc := after_peek kn k (Some h)\<rparr>)"
    by (intro peek_after_inv [of kn s k]) (auto simp: rx_inv_def base_inv_def)
  then show ?case by simp
next
  case (q_dequeue s k m)
  note frame = dequeue_frame [OF q_dequeue(3)]
  let ?t = "s\<lparr>ms := m\<rparr>"
  have mi: "mpsc_inv (ms s)" "mpsc_inv m"
    using q_dequeue dequeue_step_inv by (auto simp: rx_inv_def base_inv_def)
  have out: "outst ?t = outst s" "wakes kn ?t = wakes kn s" by (rule same_outst; simp add: frame)+
  have ls: "live_strong kn ?t = live_strong kn s" unfolding live_strong_def out by simp
  have "v = pq_head (mq m) \<or> live_strong kn s" if "decisive kn k" "consumer m = CCheck v" for v
  proof -
    from q_dequeue(3) that(2) have "consumer (ms s) = CLoad v" "pq_next (mq (ms s)) v = None"
      "pq_head (mq m) = pq_head (mq (ms s))" by (cases; simp)+
    then show ?thesis
      using load_none_reason [OF mi(1)] swapped_wakes [OF q_dequeue(5)]
        decisive_gate [OF q_dequeue(5,1) that(1) q_dequeue(2)] by metis
  qed
  moreover have "need_live kn (pc s) \<Longrightarrow> live kn ?t"
    using q_dequeue(5) ls out by (auto simp: rx_inv_def live_inv_def live_def)
  ultimately have "live_inv kn ?t" using q_dequeue(1) ls by (auto simp: live_inv_def)
  moreover have "base_inv ?t" "bits_inv ?t" "stage_inv ?t" "head_inv kn ?t"
    using q_dequeue frame mi unfolding rx_inv_def base_inv_def bits_inv_def stage_inv_def head_inv_def
    by (simp_all add: uncrypted_def)
  ultimately show ?case by (simp add: rx_inv_def)
next
  case (q_null s k m)
  have "mpsc_inv m" using q_null dequeue_step_inv by (auto simp: rx_inv_def base_inv_def)
  then show ?case
    using q_null dequeue_frame [OF q_null(3)] null_live [OF q_null(6,1) _ q_null(2-5)]
    by (intro peek_after_inv [of kn s k _ None]) (auto simp: rx_inv_def base_inv_def)
next
  case (q_got s k m h)
  have "mpsc_inv (set_peeked (Some h) m)"
    using q_got dequeue_step_inv by (auto simp: mpsc_inv_peeked rx_inv_def base_inv_def)
  then show ?case
    using q_got dequeue_frame [OF q_got(3)]
    by (intro peek_after_inv [of kn s k _ "Some h"]) (auto simp: rx_inv_def base_inv_def set_peeked_def)
qed

lemma poll_idle_consumer: "rx_inv kn s \<Longrightarrow> (\<And>k. pc s \<noteq> QPeek k) \<Longrightarrow> consumer (ms s) = CIdle"
  by (auto simp: rx_inv_def base_inv_def)

lemma poll_live: "rx_inv kn s \<Longrightarrow> need_live kn (pc s) \<Longrightarrow> live kn s"
  by (simp add: rx_inv_def live_inv_def)

lemma poll_head: "rx_inv kn s \<Longrightarrow> head_ok (pc s) (peeked s)"
  by (simp add: rx_inv_def head_inv_def)

lemma poll_gate:
  "rx_inv kn s \<Longrightarrow> wg_headwake kn \<Longrightarrow> post_publish (pc s) \<Longrightarrow> rx_blocked_on s = None \<or> rx_blocked_on s = peeked s"
  by (auto simp: rx_inv_def head_inv_def)

lemma poll_gate_pc: "rx_inv kn s \<Longrightarrow> gate_pc (pc s) \<Longrightarrow> wg_headwake kn"
  by (simp add: rx_inv_def head_inv_def)

lemmas poll_facts = poll_live poll_head poll_gate poll_gate_pc

text \<open>Where the poll looks at an encrypted head, the head's own completion wakes it.\<close>

lemma blocked_live:
  assumes "rx_inv kn s" "peeked s = Some h" "uncrypted s h" "post_publish (pc s) \<or> \<not> wg_headwake kn"
  shows "live kn s"
  using live_strong_imp [OF head_wakes [OF assms(1-3)]] poll_gate [OF assms(1)] assms(2,4) by auto

lemma poll_bits:
  assumes "rx_inv kn s" "consumer (ms s) = CIdle" "pc s \<noteq> QIdle" "q \<noteq> QIdle"
    and "head_ok q (peeked s)" "gate_pc q \<Longrightarrow> wg_headwake kn"
      "wg_headwake kn \<Longrightarrow> post_publish q \<Longrightarrow> rx_blocked_on s = None \<or> peeked s = rx_blocked_on s"
      "need_live kn q \<Longrightarrow> x"
  shows "rx_inv kn (s\<lparr>bits := (bits s)\<lparr>b_MISSED := x\<rparr>, pc := q\<rparr>)" (is "rx_inv kn ?t")
proof -
  have "need_live kn q \<Longrightarrow> live kn ?t"
    using assms(8) by (simp add: live_def live_strong_def)
  then show ?thesis
    using assms(1-7) unfolding rx_inv_def base_inv_def bits_inv_def stage_inv_def head_inv_def live_inv_def
    by (simp add: uncrypted_def)
qed

lemma deliver_inv:
  assumes inv: "rx_inv kn s" and pc: "pc s = QState w h" and q: "q = QListed \<or> (\<exists>v. q = QPeek (KLoop v))"
  shows "rx_inv kn (s\<lparr>ms := set_peeked None (ms s), delivered := delivered s @ [h], pc := q\<rparr>)" (is "rx_inv kn ?t")
proof -
  have p: "peeked s = Some h" and c: "consumer (ms s) = CIdle"
    using poll_head [OF inv] pc poll_idle_consumer [OF inv] by (auto simp: head_ok_def)
  have m: "producers (set_peeked None (ms s)) = producers (ms s)" "enq_log (set_peeked None (ms s)) = enq_log (ms s)"
    "deq_log (set_peeked None (ms s)) = deq_log (ms s)" "consumer (set_peeked None (ms s)) = CIdle"
    using c by (auto simp: set_peeked_def)
  have "stage_inv ?t" using inv m unfolding rx_inv_def stage_inv_def by (simp add: uncrypted_def)
  moreover have "base_inv ?t" "bits_inv ?t"
    using inv p c pc q m mpsc_inv_peeked [of None "ms s"] unfolding rx_inv_def base_inv_def bits_inv_def
    by (auto simp: set_peeked_def)
  moreover have "head_inv kn ?t" "live_inv kn ?t"
    using q m by (auto simp: head_inv_def head_ok_def live_inv_def)
  ultimately show ?thesis by (simp add: rx_inv_def)
qed

lemma complete_inv:
  assumes inv: "rx_inv kn s" and pc: "pc s = QComplete"
  shows "rx_inv kn (s\<lparr>bits := snd (napi_complete_bits (bits s)),
      pc := (if fst (napi_complete_bits (bits s)) then QListed else QIdle)\<rparr>)" (is "rx_inv kn ?t")
proof -
  have c: "consumer (ms s) = CIdle" using poll_idle_consumer [OF inv] pc by simp
  have "live kn s" using poll_live [OF inv] pc by simp
  then have "live kn ?t" if "\<not> b_MISSED (bits s)"
    using that by (auto simp: live_def live_strong_def outst_def wakes_def napi_complete_bits_def)
  then have "live_inv kn ?t" by (auto simp: live_inv_def napi_complete_bits_def)
  then show ?thesis
    using inv pc c unfolding rx_inv_def base_inv_def bits_inv_def stage_inv_def head_inv_def
    by (auto simp: uncrypted_def napi_complete_bits_def head_ok_def)
qed

text \<open>Leaving the delivery loop or the stealing loop.\<close>

lemma leave_inv:
  assumes "rx_inv kn s" "\<And>k. pc s \<noteq> QPeek k" "pc s \<noteq> QIdle" "\<not> wg_headwake kn \<Longrightarrow> live kn s"
    and "q = steal_next kn w n \<or> q = steal_done kn w n \<or> q = tail_pc kn"
  shows "rx_inv kn (s\<lparr>pc := q\<rparr>)"
proof -
  have "q \<noteq> QIdle \<and> head_ok q (peeked s) \<and> (gate_pc q \<longrightarrow> wg_headwake kn) \<and>
      (wg_headwake kn \<longrightarrow> \<not> post_publish q) \<and> (need_live kn q \<longrightarrow> \<not> wg_headwake kn)"
    using assms(5) by (auto simp: pc_defs head_ok_def split: if_splits)
  then show ?thesis
    using assms(1-4) poll_idle_consumer [OF assms(1,2)] by (intro poll_to) auto
qed

lemma supp_inv:
  assumes "rx_inv kn s" "\<And>k. pc s \<noteq> QPeek k" "post_publish (pc s)" "live kn s" "q = supp_pc kn \<or> q = QComplete"
  shows "rx_inv kn (s\<lparr>pc := q\<rparr>)"
proof (rule poll_to [OF assms(1)])
  show "pc s \<noteq> QIdle" using assms(3) by auto
  show "consumer (ms s) = CIdle" using poll_idle_consumer assms by blast
  show "wg_headwake kn \<Longrightarrow> rx_blocked_on s = None \<or> peeked s = rx_blocked_on s"
    using poll_gate [OF assms(1) _ assms(3)] by auto
qed (use assms(4,5) in \<open>auto simp: pc_defs head_ok_def split: if_splits\<close>)

lemma poll_side_inv:
  assumes "poll_side kn s t" "rx_inv kn s"
  shows "rx_inv kn t"
  using assms
proof (induction rule: poll_side.induct)
  case (q_start s)
  have "rx_inv kn (s\<lparr>pc := QPeek (KLoop 0)\<rparr>)"
    using q_start poll_idle_consumer [OF q_start(3)] by (intro poll_to) (auto simp: head_ok_def)
  then show ?case by simp
next
  case (q_deliver s w h)
  then show ?case by (intro deliver_inv) auto
next
  case (q_stop s w h)
  then show ?case
    using poll_head [OF q_stop(3)] blocked_live [OF q_stop(3)]
    by (intro leave_inv) (auto simp: head_ok_def)
next
  case (q_steal_read s w n h)
  have "rx_inv kn (s\<lparr>pc := QStealTake w n\<rparr>)" "rx_inv kn (s\<lparr>pc := steal_done kn w n\<rparr>)"
    using q_steal_read poll_live [OF q_steal_read(2)] poll_idle_consumer [OF q_steal_read(2)]
    by (intro poll_to leave_inv; auto simp: head_ok_def)+
  then show ?case by simp
next
  case (q_steal_take s w n q)
  have "rx_inv kn (s\<lparr>pc := QStealWait w n q\<rparr>)"
    using poll_live [OF q_steal_take(3)] poll_idle_consumer [OF q_steal_take(3)] q_steal_take
    by (intro poll_to) (auto simp: head_ok_def)
  then show ?case
    using q_steal_take by (intro work_to_stage) (auto simp: unpublished_def)
next
  case (q_steal_end s w h)
  have "rx_inv kn (s\<lparr>pc := QPeek (KLoop w)\<rparr>)" "rx_inv kn (s\<lparr>pc := tail_pc kn\<rparr>)"
    using q_steal_end poll_live [OF q_steal_end(2)] poll_idle_consumer [OF q_steal_end(2)]
    by (intro poll_to leave_inv; auto simp: head_ok_def)+
  then show ?case by simp
next
  case (q_publish s r)
  have c: "consumer (ms s) = CIdle" and r: "r = None \<or> peeked s = r" "wg_headwake kn"
    using poll_idle_consumer [OF q_publish(2)] poll_head [OF q_publish(2)] poll_gate_pc [OF q_publish(2)] q_publish
    by (auto simp: head_ok_def)
  then show ?case
    using q_publish unfolding rx_inv_def base_inv_def bits_inv_def stage_inv_def head_inv_def live_inv_def
    by (auto simp: uncrypted_def head_ok_def)
next
  case (q_recheck s h)
  have p: "peeked s = Some h" "wg_headwake kn" "consumer (ms s) = CIdle"
    using poll_head [OF q_recheck(2)] poll_gate_pc [OF q_recheck(2)] poll_idle_consumer [OF q_recheck(2)] q_recheck(1)
    by (auto simp: head_ok_def)
  have "rx_inv kn (s\<lparr>pc := supp_pc kn\<rparr>)" if "uncrypted s h"
    using that q_recheck p blocked_live [OF q_recheck(2)] by (intro supp_inv) auto
  moreover have "rx_inv kn (s\<lparr>pc := QSetMissed\<rparr>)"
    using q_recheck p poll_gate [OF q_recheck(2)] by (intro poll_to) (auto simp: head_ok_def)
  ultimately show ?case by simp
next
  case (q_set_missed s)
  then show ?case
    using poll_gate [OF q_set_missed(2)] poll_idle_consumer [OF q_set_missed(2)]
    by (intro poll_bits) (auto simp: pc_defs head_ok_def split: if_splits)
next
  case (q_supp_read s h)
  have p: "peeked s = Some h" "consumer (ms s) = CIdle" "live kn s"
    using poll_head [OF q_supp_read(2)] poll_idle_consumer [OF q_supp_read(2)] poll_live [OF q_supp_read(2)] q_supp_read(1)
    by (auto simp: head_ok_def)
  have "rx_inv kn (s\<lparr>pc := QComplete\<rparr>)"
    using q_supp_read p by (intro supp_inv) auto
  moreover have "rx_inv kn (s\<lparr>pc := QSuppClear\<rparr>)"
    using q_supp_read p poll_gate [OF q_supp_read(2)] by (intro poll_to) (auto simp: head_ok_def)
  ultimately show ?case by simp
next
  case (q_supp_clear s)
  then show ?case
    using poll_gate [OF q_supp_clear(2)] poll_idle_consumer [OF q_supp_clear(2)] poll_head [OF q_supp_clear(2)]
    by (intro poll_bits) (auto simp: head_ok_def)
next
  case (q_supp_recheck s h)
  have p: "peeked s = Some h" "consumer (ms s) = CIdle"
    using poll_head [OF q_supp_recheck(2)] poll_idle_consumer [OF q_supp_recheck(2)] q_supp_recheck(1)
    by (auto simp: head_ok_def)
  have "rx_inv kn (s\<lparr>pc := QComplete\<rparr>)" if "uncrypted s h"
    using that q_supp_recheck p blocked_live [OF q_supp_recheck(2)] by (intro supp_inv) auto
  moreover have "rx_inv kn (s\<lparr>pc := QSuppSet\<rparr>)"
    using q_supp_recheck p poll_gate [OF q_supp_recheck(2)] by (intro poll_to) (auto simp: head_ok_def)
  ultimately show ?case by simp
next
  case (q_supp_set s)
  then show ?case
    using poll_gate [OF q_supp_set(2)] poll_idle_consumer [OF q_supp_set(2)]
    by (intro poll_bits) (auto simp: head_ok_def)
next
  case (q_complete s)
  then show ?case by (intro complete_inv)
next
  case (q_steal_other s w n)
  then show ?case using poll_live by (intro leave_inv) auto
next
  case (q_steal_dry s w n)
  then show ?case using poll_live by (intro leave_inv) auto
next
  case (q_stolen s w n q)
  then show ?case using poll_live by (intro leave_inv) auto
qed

interpretation rx: invariant_system rx_init "rx_step kn" "\<lambda>s. untriggered kn \<longrightarrow> rx_inv kn s" for kn
  by unfold_locales
    (auto simp: rx_step_def rx_init_inv intro: enq_side_inv work_side_inv peek_side_inv poll_side_inv)

end
