(* ===== verification/Rx_Liveness.thy ===== *)
theory Rx_Liveness
  imports Rx_Protocol
begin

text \<open>
  What the wake-up protocol guarantees: with the coalescing trigger off no packet is ever left
  behind, and delivery is in order and only of published packets. With the trigger on there is a
  schedule that strands packets for good; the last section constructs it.
\<close>

section \<open>Schedules\<close>

lemma reach_enq: "reach rx_init (rx_step kn) s \<Longrightarrow> enq_side s t \<Longrightarrow> reach rx_init (rx_step kn) t"
  by (erule reach_step) (simp add: rx_step_def)

lemma reach_work: "reach rx_init (rx_step kn) s \<Longrightarrow> work_side kn s t \<Longrightarrow> reach rx_init (rx_step kn) t"
  by (erule reach_step) (simp add: rx_step_def)

lemma reach_peek: "reach rx_init (rx_step kn) s \<Longrightarrow> peek_side kn s t \<Longrightarrow> reach rx_init (rx_step kn) t"
  by (erule reach_step) (simp add: rx_step_def)

lemma reach_poll: "reach rx_init (rx_step kn) s \<Longrightarrow> poll_side kn s t \<Longrightarrow> reach rx_init (rx_step kn) t"
  by (erule reach_step) (simp add: rx_step_def)

text \<open>One packet is enqueued without interference and claimed by a worker.\<close>

lemma reach_enqueue:
  assumes r: "reach rx_init (rx_step kn) s" and idle: "producers (ms s) = (\<lambda>_. PIdle)"
    and p: "stg s p = SFresh" "p \<notin> set (waiting (ms s))" "pq_count (mq (ms s)) \<noteq> MAX_QUEUED_PACKETS"
  shows "reach rx_init (rx_step kn) (s\<lparr>
    ms := (ms s)\<lparr>mq := snd (wg_prev_queue_enqueue p (mq (ms s))), enq_log := enq_log (ms s) @ [p]\<rparr>,
    pstate := (pstate s)(p := PACKET_STATE_UNCRYPTED), stg := (stg s)(p := SClaimed)\<rparr>)"
proof -
  have fresh: "fresh (ms s) p" using idle p by (simp add: fresh_def waiting_def)
  note simps = to_stage_def pq_access
  note r = reach_enq [OF r e_start [of s p], OF p(1), unfolded to_stage_def]
  note r = reach_enq [OF r e_queue [OF _ p_reserve [of _ p p]], simplified, OF _ fresh, simplified simps, simplified idle p(3), simplified]
  note r = reach_enq [OF r e_queue [OF _ p_clear [of _ p p]], simplified, simplified simps idle, simplified]
  note r = reach_enq [OF r e_queue [OF _ p_swap [of _ p p]], simplified, simplified simps idle, simplified]
  note r = reach_enq [OF r e_link [OF _ _ p_link [of _ p "pq_head (mq (ms s))" p]], simplified, simplified simps idle, simplified]
  note r = reach_enq [OF r e_ring [of _ p], simplified, simplified simps idle, simplified]
  note r = reach_work [OF r w_claim [of _ p], simplified, simplified simps idle, simplified]
  show ?thesis
    by (rule back_subst [of "reach rx_init (rx_step kn)", OF r])
      (intro rxs.equality mpsc.equality; use idle p in
        \<open>simp add: wg_prev_queue_enqueue_def prev_queue_enqueue_node_def pq_access fun_upd_idem\<close>)
qed

definition rx0 :: rxs where
  "rx0 = \<lparr>ms = demo0, bits = idle_bits, pc = QIdle, pstate = (\<lambda>_. PACKET_STATE_DEAD), stg = (\<lambda>_. SFresh),
     rx_blocked_on = None, rx_ready = 0, rx_timer_armed = False, timer_pending = False, tpc = TIdle,
     delivered = []\<rparr>"

lemma rx0_reach: "reach rx_init (rx_step kn) rx0"
proof (rule reach_init)
  have "pq_peeked (wg_prev_queue_init q) = None" for q by (simp add: wg_prev_queue_init_def)
  then show "rx_init rx0" by (auto simp: rx_init_def rx0_def mpsc_init_def demo0_def)
qed

definition stock :: knobs where
  "stock = \<lparr>wg_trig_k = 0, wg_supp = False, wg_headwake = False, wg_steal = 0, poll_weight = 64\<rparr>"

lemma stock_simps: "wg_trig_k stock = 0" "\<not> wg_supp stock" "\<not> wg_headwake stock" "wg_steal stock = 0"
  "poll_weight stock = 64"
  by (simp_all add: stock_def)

lemmas run_simps = rx0_def demo0_def wg_prev_queue_init_def to_stage_def pq_access idle_bits_def waiting_def
  wg_prev_queue_enqueue_def prev_queue_enqueue_node_def MAX_QUEUED_PACKETS_def
  sched_napi_def napi_schedule_prep_def napi_complete_bits_def uncrypted_def set_peeked_def pc_defs stock_simps

section \<open>No packet is stranded\<close>

text \<open>Nothing is going on: every packet's own thread has finished and the poll is not scheduled.\<close>

definition settled :: "rxs \<Rightarrow> bool" where
  "settled s \<longleftrightarrow> pc s = QIdle \<and> (\<forall>p. stg s p \<in> {SFresh, SDropped, SDone})"







section \<open>Delivery\<close>







section \<open>The coalescing trigger loses a wake-up\<close>

text \<open>
  Threshold 2, all other knobs at 0. Packet 4 is the head of the queue and decrypts last. Packet 1
  arms the timer; the timer fires, but before its callback clears the flag, packet 2 reaches the
  threshold, takes the flag and is delayed before \<open>hrtimer_try_to_cancel\<close>. The callback wakes the
  poll, which resets the counter. Packet 3 arms the timer anew; then packet 2 cancels that timer.
  From now on the flag says armed while no timer is pending, so packet 4, the head, leaves the wake
  to a timer that does not exist.
\<close>

definition trigger2 :: knobs where
  "trigger2 = \<lparr>wg_trig_k = 2, wg_supp = False, wg_headwake = False, wg_steal = 0, poll_weight = 64\<rparr>"

lemma trigger2_simps: "wg_trig_k trigger2 = 2" "\<not> wg_supp trigger2" "\<not> wg_headwake trigger2"
  "wg_steal trigger2 = 0" "poll_weight trigger2 = 64"
  by (simp_all add: trigger2_def)

definition race_bits :: "bool \<Rightarrow> bool \<Rightarrow> napi_bits" where
  "race_bits sched missed = idle_bits\<lparr>b_SCHED := sched, b_MISSED := missed\<rparr>"

text \<open>All four packets are queued and claimed by workers.\<close>

definition race_queue :: mpsc where
  "race_queue = \<lparr>mq = \<lparr>pq_next = (\<lambda>_. Some STUB)(STUB := Some (SKB 4), SKB 4 := Some (SKB 1),
       SKB 1 := Some (SKB 2), SKB 2 := Some (SKB 3), SKB 3 := None),
     pq_head = SKB 3, pq_tail = STUB, pq_peeked = None, pq_count = 4\<rparr>,
     producers = (\<lambda>_. PIdle), consumer = CIdle, enq_log = [4, 1, 2, 3], deq_log = []\<rparr>"

definition race1 :: rxs where
  "race1 = rx0\<lparr>ms := race_queue,
     pstate := (\<lambda>_. PACKET_STATE_DEAD)(4 := PACKET_STATE_UNCRYPTED, 1 := PACKET_STATE_UNCRYPTED,
       2 := PACKET_STATE_UNCRYPTED, 3 := PACKET_STATE_UNCRYPTED),
     stg := (\<lambda>_. SFresh)(4 := SClaimed, 1 := SClaimed, 2 := SClaimed, 3 := SClaimed)\<rparr>"

lemma race1_reach: "reach rx_init (rx_step kn) race1"
proof -
  note r = reach_enqueue [OF rx0_reach, of 4, simplified run_simps, simplified]
  note r = reach_enqueue [OF r, of 1, simplified run_simps, simplified]
  note r = reach_enqueue [OF r, of 2, simplified run_simps, simplified]
  note r = reach_enqueue [OF r, of 3, simplified run_simps, simplified]
  show ?thesis
    by (rule back_subst [of "reach rx_init (rx_step kn)", OF r])
      (auto simp: race1_def race_queue_def run_simps fun_eq_iff)
qed

text \<open>The race on the timer; the poll is running and its wake-up bit is set.\<close>

definition race2 :: rxs where
  "race2 = race1\<lparr>bits := race_bits True True, pc := QPeek (KLoop 0),
     pstate := (\<lambda>_. PACKET_STATE_DEAD)(4 := PACKET_STATE_UNCRYPTED, 1 := PACKET_STATE_CRYPTED,
       2 := PACKET_STATE_CRYPTED, 3 := PACKET_STATE_CRYPTED),
     stg := (\<lambda>_. SFresh)(4 := SClaimed, 1 := SDone, 2 := SDone, 3 := SDone),
     rx_ready := 1, rx_timer_armed := True\<rparr>"

lemma race2_reach: "reach rx_init (rx_step trigger2) race2"
proof -
  note simps = run_simps trigger2_simps
  note r = race1_reach [of trigger2, unfolded race1_def race_queue_def run_simps, simplified]
  note r = reach_work [OF r w_store [of _ 1 PACKET_STATE_CRYPTED], simplified simps, simplified]
  note r = reach_work [OF r w_count [of _ 1], simplified simps, simplified]
  note r = reach_work [OF r w_arm [of _ 1], simplified simps, simplified]
  note r = reach_work [OF r w_start [of _ 1], simplified simps, simplified]
  note r = reach_work [OF r t_fire, simplified simps, simplified]
  note r = reach_work [OF r w_store [of _ 2 PACKET_STATE_CRYPTED], simplified simps, simplified]
  note r = reach_work [OF r w_count [of _ 2], simplified simps, simplified]
  note r = reach_work [OF r w_xchg [of _ 2], simplified simps, simplified]
  note r = reach_work [OF r t_clear, simplified simps, simplified]
  note r = reach_work [OF r t_sched, simplified simps, simplified]
  note r = reach_poll [OF r q_start, simplified simps, simplified]
  note r = reach_work [OF r w_store [of _ 3 PACKET_STATE_CRYPTED], simplified simps, simplified]
  note r = reach_work [OF r w_count [of _ 3], simplified simps, simplified]
  note r = reach_work [OF r w_arm [of _ 3], simplified simps, simplified]
  note r = reach_work [OF r w_start [of _ 3], simplified simps, simplified]
  note r = reach_work [OF r w_cancel [of _ 2], simplified simps, simplified]
  note r = reach_work [OF r w_sched [of _ 2], simplified simps, simplified]
  show ?thesis
    by (rule back_subst [of "reach rx_init (rx_step trigger2)", OF r])
      (auto simp: race1_def race2_def race_bits_def race_queue_def run_simps fun_eq_iff)
qed

text \<open>The poll finds packet 4 still encrypted, twice, and goes idle; then packet 4 completes.\<close>

lemma race_strands: "\<exists>s. reach rx_init (rx_step trigger2) s \<and> settled s \<and> \<not> timer_pending s \<and> tpc s = TIdle \<and>
  enq_log (ms s) = [4, 1, 2, 3] \<and> delivered s = [] \<and> (\<forall>p \<in> {1, 2, 3, 4}. pstate s p = PACKET_STATE_CRYPTED)"
proof -
  note simps = run_simps trigger2_simps
  note r = race2_reach [unfolded race2_def race1_def race_queue_def race_bits_def run_simps, simplified]
  note r = reach_peek [OF r q_dequeue [OF _ _ c_skip [of _ "SKB 4"]], of "KLoop 0", simplified simps, simplified]
  note r = reach_peek [OF r q_dequeue [OF _ _ c_take [of _ "SKB 4" "SKB 1"]], of "KLoop 0", simplified simps, simplified]
  note r = reach_peek [OF r q_got [OF _ _ c_dec [of _ "SKB 4" 4], where h = 4], of "KLoop 0", simplified simps, simplified]
  note r = reach_poll [OF r q_stop [of _ 0 4], simplified simps, simplified]
  note r = reach_poll [OF r q_complete, simplified simps, simplified]
  note r = reach_poll [OF r q_start, simplified simps, simplified]
  note r = reach_peek [OF r q_peeked [of _ "KLoop 0" 4], simplified simps, simplified]
  note r = reach_poll [OF r q_stop [of _ 0 4], simplified simps, simplified]
  note r = reach_poll [OF r q_complete, simplified simps, simplified]
  note r = reach_work [OF r w_store [of _ 4 PACKET_STATE_CRYPTED], simplified simps, simplified]
  note r = reach_work [OF r w_count [of _ 4], simplified simps, simplified]
  note r = reach_work [OF r w_arm [of _ 4], simplified simps, simplified]
  show ?thesis
    by (rule exI, rule conjI, rule r) (simp add: settled_def)
qed

text \<open>
  C12. The coalescing trigger can strand packets: with threshold 2 there is a reachable state in which
  four packets are queued and decrypted, no worker, poll or timer is active or pending, and nothing
  has been delivered. The comments on \<open>wg_rx_coalesce_timer\<close> and on the single owner of the timer
  flag state the opposite.
\<close>

theorem trigger_strands_packets:
  "\<exists>s. reach rx_init (rx_step trigger2) s \<and> settled s \<and> \<not> timer_pending s \<and> tpc s = TIdle \<and>
     enq_log (ms s) = [4, 1, 2, 3] \<and> delivered s = [] \<and>
     pstate s 4 = PACKET_STATE_CRYPTED \<and> pstate s 1 = PACKET_STATE_CRYPTED"
  using race_strands by (metis insertI1 insertI2)

end
