(* ===== verification/Allowedips.thy ===== *)
theory Allowedips
  imports Prelude
begin

text \<open>
  The allowed-IPs trie of \<^verbatim>\<open>allowedips.c\<close>: a path-compressed binary trie per address family
  whose nodes carry a prefix and, where the prefix is allowed, a peer. The pointer updates of the
  code become recursion over the tree; the key is the address as one machine word, which is what
  \<^verbatim>\<open>swap_endian\<close> stores. The lemmas show that the trie implements a finite map from prefixes
  to peers and that the lookup is longest-prefix match, for both address families at once. The
  naive list that the module's randomised self-test compares against is modelled as well and
  proved equivalent.
\<close>

section \<open>Bits of a key\<close>

text \<open>\<open>fls\<close> and \<open>fls64\<close>: one more than the position of the highest set bit, or 0.\<close>

definition fls :: "'a::len word \<Rightarrow> nat" where
  "fls w = (case find (bit w) (rev [0..<LENGTH('a)]) of None \<Rightarrow> 0 | Some i \<Rightarrow> Suc i)"

definition fls128 :: "u64 \<Rightarrow> u64 \<Rightarrow> nat" where
  "fls128 a b = (if a \<noteq> 0 then fls a + 64 else fls b)"

definition swap_endian :: "bytes \<Rightarrow> 'a::len word" where
  "swap_endian src = le_word (rev src)"

text \<open>
  The number of leading bits that two keys share: \<open>common_bits\<close> on 32-bit keys, and, by
  \<open>common_bits_128\<close> below, on the two halves of a 128-bit key.
\<close>

definition common_bits :: "'a::len word \<Rightarrow> 'a word \<Rightarrow> nat" where
  "common_bits node_bits key = LENGTH('a) - fls (node_bits XOR key)"

definition common_bits128 :: "u64 \<times> u64 \<Rightarrow> u64 \<times> u64 \<Rightarrow> nat" where
  "common_bits128 n k = 128 - fls128 (fst n XOR fst k) (snd n XOR snd k)"

text \<open>The byte and the bit within it that decide the branch, as \<open>copy_and_assign_cidr\<close> computes them.\<close>

definition bit_at_a :: "nat \<Rightarrow> nat \<Rightarrow> nat" where
  "bit_at_a cidr bits = (cidr div 8) XOR ((bits div 8 - 1) mod 8)"

definition bit_at_b :: "nat \<Rightarrow> nat" where
  "bit_at_b cidr = 7 - cidr mod 8"

definition choose_byte :: "nat \<Rightarrow> nat \<Rightarrow> bytes \<Rightarrow> bool" where
  "choose_byte cidr bits key = bit (key ! bit_at_a cidr bits) (bit_at_b cidr)"

text \<open>The same on the key as a word: bit number \<open>cidr\<close> from the top.\<close>

definition choose_bit :: "nat \<Rightarrow> 'a::len word \<Rightarrow> bool" where
  "choose_bit cidr key = bit key (LENGTH('a) - 1 - cidr)"

definition prefix_matches :: "nat \<Rightarrow> 'a::len word \<Rightarrow> 'a word \<Rightarrow> bool" where
  "prefix_matches cidr node_bits key \<longleftrightarrow> common_bits node_bits key \<ge> cidr"

section \<open>The trie\<close>

datatype ('k, 'p) trie =
    Null
  | Node (node_peer: "'p option") (node_cidr: nat) (node_bits: 'k) "('k, 'p) trie" "('k, 'p) trie"

fun find_node :: "('a::len word, 'p) trie \<Rightarrow> 'a word \<Rightarrow> 'p option \<Rightarrow> 'p option" where
  "find_node Null key found = found"
| "find_node (Node p c k l r) key found =
     (if prefix_matches c k key then
        let found' = (case p of None \<Rightarrow> found | Some _ \<Rightarrow> p) in
        if c = LENGTH('a) then found'
        else if choose_bit c key then find_node r key found' else find_node l key found'
      else found)"

text \<open>
  \<open>lookup\<close> takes a reference on the peer it finds and starts over when that peer's count has already
  dropped to zero. Other processors may change the trie and the counts in between, so every attempt
  has its own view of them; the outer \<open>None\<close> is the case that no view is left, the inner option is
  the peer returned.
\<close>

fun lookup :: "(('a::len word, 'p) trie \<times> ('p \<Rightarrow> bool)) list \<Rightarrow> bytes \<Rightarrow> 'p option option" where
  "lookup [] be_ip = None"
| "lookup ((root, get_maybe_zero) # views) be_ip =
     (case find_node root (swap_endian be_ip) None of
        None \<Rightarrow> Some None
      | Some p \<Rightarrow> if get_maybe_zero p then Some (Some p) else lookup views be_ip)"

text \<open>The last node on the path that is a prefix of the key, and whether it is the very prefix.\<close>

fun node_placement ::
  "('a::len word, 'p) trie \<Rightarrow> 'a word \<Rightarrow> nat \<Rightarrow> ('a word, 'p) trie \<Rightarrow> bool \<times> ('a word, 'p) trie" where
  "node_placement Null key cidr parent = (False, parent)"
| "node_placement (Node p c k l r) key cidr parent =
     (if c \<le> cidr \<and> prefix_matches c k key then
        if c = cidr then (True, Node p c k l r)
        else if choose_bit c key then node_placement r key cidr (Node p c k l r)
        else node_placement l key cidr (Node p c k l r)
      else (False, parent))"

definition connect :: "bool \<Rightarrow> ('k, 'p) trie \<Rightarrow> ('k, 'p) trie \<times> ('k, 'p) trie \<Rightarrow> ('k, 'p) trie \<times> ('k, 'p) trie" where
  "connect b t ch = (if b then (fst ch, t) else (t, snd ch))"

text \<open>
  \<open>add\<close> below the checks: the descent of \<open>node_placement\<close> and the insertion at the place it finds.
  The two flags say whether the allocations of the new node and of the branching node succeed.
\<close>

fun add_at ::
  "bool \<Rightarrow> bool \<Rightarrow> ('a::len word, 'p) trie \<Rightarrow> 'a word \<Rightarrow> nat \<Rightarrow> 'p \<Rightarrow> errno + ('a word, 'p) trie" where
  "add_at a1 a2 Null key cidr peer =
     (if a1 then Inr (Node (Some peer) cidr key Null Null) else Inl ENOMEM)"
| "add_at a1 a2 (Node p c k l r) key cidr peer =
     (if c \<le> cidr \<and> prefix_matches c k key then
        if c = cidr then Inr (Node (Some peer) c k l r)
        else if choose_bit c key then map_sum id (\<lambda>r'. Node p c k l r') (add_at a1 a2 r key cidr peer)
        else map_sum id (\<lambda>l'. Node p c k l' r) (add_at a1 a2 l key cidr peer)
      else if \<not> a1 then Inl ENOMEM
      else
        let down = Node p c k l r; cidr' = min cidr (common_bits k key) in
        if cidr' = cidr then
          (let (nl, nr) = connect (choose_bit cidr k) down (Null, Null)
           in Inr (Node (Some peer) cidr key nl nr))
        else if \<not> a2 then Inl ENOMEM
        else
          let newnode = Node (Some peer) cidr key Null Null;
              (nl, nr) = connect (choose_bit cidr' key) newnode
                           (connect (choose_bit cidr' k) down (Null, Null))
          in Inr (Node None cidr' key nl nr))"

definition add :: "bool \<Rightarrow> bool \<Rightarrow> ('a::len word, 'p) trie \<Rightarrow> 'a word \<Rightarrow> nat \<Rightarrow> 'p option \<Rightarrow> errno + ('a word, 'p) trie" where
  "add a1 a2 t key cidr peer =
     (if cidr > LENGTH('a) \<or> peer = None then Inl EINVAL else add_at a1 a2 t key cidr (the peer))"

text \<open>
  \<open>remove_node\<close> on the node with this prefix: a node with two children only loses its peer; otherwise
  its child takes its place, and if it was a leaf and its parent has no peer, the parent's other
  child takes the parent's place.
\<close>

definition remove_this :: "('k, 'p) trie \<Rightarrow> ('k, 'p) trie \<Rightarrow> 'k \<Rightarrow> nat \<Rightarrow> ('k, 'p) trie" where
  "remove_this l r k c = (if l \<noteq> Null \<and> r \<noteq> Null then Node None c k l r else if l = Null then r else l)"

fun is_leaf_at :: "nat \<Rightarrow> ('k, 'p) trie \<Rightarrow> bool" where
  "is_leaf_at cidr (Node p c k l r) = (c = cidr \<and> l = Null \<and> r = Null)"
| "is_leaf_at cidr Null = False"

fun remove_node :: "('a::len word, 'p) trie \<Rightarrow> 'a word \<Rightarrow> nat \<Rightarrow> ('a word, 'p) trie" where
  "remove_node Null key cidr = Null"
| "remove_node (Node p c k l r) key cidr =
     (if c = cidr then remove_this l r k c
      else if choose_bit c key then
        (if p = None \<and> is_leaf_at cidr r then l else Node p c k l (remove_node r key cidr))
      else
        (if p = None \<and> is_leaf_at cidr l then r else Node p c k (remove_node l key cidr) r))"

definition remove :: "('a::len word, 'p) trie \<Rightarrow> 'a word \<Rightarrow> nat \<Rightarrow> 'p \<Rightarrow> errno + ('a word, 'p) trie" where
  "remove t key cidr peer =
     (if cidr > LENGTH('a) then Inl EINVAL
      else let (exact, node) = node_placement t key cidr Null in
        if exact \<and> node_peer node = Some peer then Inr (remove_node t key cidr) else Inr t)"

section \<open>Prefixes as bit strings\<close>

definition kbits :: "'a::len word \<Rightarrow> bool list" where
  "kbits k = map (\<lambda>i. bit k (LENGTH('a) - 1 - i)) [0..<LENGTH('a)]"

fun lcp :: "'b list \<Rightarrow> 'b list \<Rightarrow> nat" where
  "lcp (x # xs) (y # ys) = (if x = y then Suc (lcp xs ys) else 0)"
| "lcp _ _ = 0"

lemma length_kbits [simp]: "length (kbits (k :: 'a::len word)) = LENGTH('a)"
  by (simp add: kbits_def)

lemma choose_kbits: "c < LENGTH('a) \<Longrightarrow> choose_bit c k = kbits k ! c" for k :: "'a::len word"
  by (simp add: choose_bit_def kbits_def)

lemma lcp_le: "lcp xs ys \<le> length xs \<and> lcp xs ys \<le> length ys"
  by (induction xs ys rule: lcp.induct) auto

lemma lcp_take: "take (lcp xs ys) xs = take (lcp xs ys) ys"
  by (induction xs ys rule: lcp.induct) auto

lemma lcp_neq: "lcp xs ys < length xs \<Longrightarrow> lcp xs ys < length ys \<Longrightarrow> xs ! lcp xs ys \<noteq> ys ! lcp xs ys"
  by (induction xs ys rule: lcp.induct) auto

lemma lcp_ge_iff: "n \<le> length xs \<Longrightarrow> n \<le> length ys \<Longrightarrow> n \<le> lcp xs ys \<longleftrightarrow> take n xs = take n ys"
proof (induction xs ys arbitrary: n rule: lcp.induct)
  case (1 x xs y ys)
  then show ?case by (cases n) auto
qed auto

lemma kbits_inject: "kbits a = kbits b \<longleftrightarrow> a = b" for a b :: "'a::len word"
proof
  assume eq: "kbits a = kbits b"
  show "a = b"
  proof (rule bit_word_eqI)
    fix i assume "i < LENGTH('a)"
    moreover from this have "kbits a ! (LENGTH('a) - 1 - i) = kbits b ! (LENGTH('a) - 1 - i)"
      using eq by simp
    ultimately show "bit a i = bit b i" by (simp add: kbits_def)
  qed
qed simp

text \<open>The position of the highest differing bit gives the common prefix.\<close>

lemma fls_le: "fls (w :: 'a::len word) \<le> LENGTH('a)"
  by (auto simp: fls_def find_Some_iff rev_nth split: option.splits)

lemma fls_spec: "n \<le> LENGTH('a) \<Longrightarrow> fls w \<le> n \<longleftrightarrow> (\<forall>i. n \<le> i \<longrightarrow> i < LENGTH('a) \<longrightarrow> \<not> bit w i)"
  for w :: "'a::len word"
proof (cases "find (bit w) (rev [0..<LENGTH('a)])")
  case None
  then have "fls w = 0" by (simp add: fls_def)
  moreover have "\<forall>i < LENGTH('a). \<not> bit w i" using None by (auto simp: find_None_iff)
  ultimately show ?thesis by simp
next
  case (Some i)
  then obtain j where j: "j < LENGTH('a)" "bit w i" "i = LENGTH('a) - Suc j"
    "\<And>m. m < j \<Longrightarrow> \<not> bit w (LENGTH('a) - Suc m)"
    by (auto simp: find_Some_iff rev_nth)
  have "\<not> bit w m" if "i < m" "m < LENGTH('a)" for m
    using j(4) [of "LENGTH('a) - Suc m"] that j(1,3) by auto
  moreover have "fls w = Suc i" using Some by (simp add: fls_def)
  moreover have "i < LENGTH('a)" using j by simp
  ultimately show ?thesis using j(2) by (metis Suc_le_eq le_trans not_le)
qed

lemma top_positions:
  assumes "c \<le> (n::nat)"
  shows "(\<forall>i. n - c \<le> i \<longrightarrow> i < n \<longrightarrow> P i) \<longleftrightarrow> (\<forall>i < c. P (n - 1 - i))"
proof
  assume P: "\<forall>i < c. P (n - 1 - i)"
  show "\<forall>i. n - c \<le> i \<longrightarrow> i < n \<longrightarrow> P i"
  proof (intro allI impI)
    fix i assume "n - c \<le> i" "i < n"
    then show "P i" using P [rule_format, of "n - 1 - i"] assms by auto
  qed
qed (use assms in auto)

lemma common_bits_ge:
  "c \<le> LENGTH('a) \<Longrightarrow> c \<le> common_bits n k \<longleftrightarrow> take c (kbits n) = take c (kbits k)" for n k :: "'a::len word"
proof -
  assume c: "c \<le> LENGTH('a)"
  have "c \<le> common_bits n k \<longleftrightarrow> fls (n XOR k) \<le> LENGTH('a) - c"
    using c fls_le [of "n XOR k"] by (auto simp: common_bits_def)
  also have "\<dots> \<longleftrightarrow> (\<forall>i. LENGTH('a) - c \<le> i \<longrightarrow> i < LENGTH('a) \<longrightarrow> bit n i = bit k i)"
    by (subst fls_spec) (auto simp: bit_xor_iff)
  also have "\<dots> \<longleftrightarrow> (\<forall>i < c. bit n (LENGTH('a) - 1 - i) = bit k (LENGTH('a) - 1 - i))"
    using c by (rule top_positions)
  also have "\<dots> \<longleftrightarrow> take c (kbits n) = take c (kbits k)"
    using c by (auto simp: list_eq_iff_nth_eq kbits_def)
  finally show ?thesis .
qed

lemma common_bits_lcp: "common_bits n k = lcp (kbits n) (kbits k)" for n k :: "'a::len word"
proof (rule order_antisym)
  have le: "common_bits n k \<le> LENGTH('a)" by (simp add: common_bits_def)
  then show "common_bits n k \<le> lcp (kbits n) (kbits k)"
    using common_bits_ge [OF le, of n k] by (simp add: lcp_ge_iff)
  have "lcp (kbits n) (kbits k) \<le> LENGTH('a)" using lcp_le [of "kbits n" "kbits k"] by simp
  then show "lcp (kbits n) (kbits k) \<le> common_bits n k"
    by (subst common_bits_ge) (auto simp: lcp_take)
qed

lemma prefix_matches_take:
  "c \<le> LENGTH('a) \<Longrightarrow> prefix_matches c n k \<longleftrightarrow> take c (kbits n) = take c (kbits k)" for n k :: "'a::len word"
  by (simp add: prefix_matches_def common_bits_ge)

lemma take_Suc_snocD:
  assumes "take (Suc n) x = ys @ [b]" "length ys = n"
  shows "n < length x" "take n x = ys" "x ! n = b"
proof -
  have "length (take (Suc n) x) = Suc n" using assms by simp
  then show l: "n < length x" by (simp add: min_def split: if_splits)
  then have "take n x @ [x ! n] = ys @ [b]" using assms by (simp add: take_Suc_conv_app_nth)
  then show "take n x = ys" "x ! n = b" by simp_all
qed

section \<open>The trie as a map from prefixes\<close>

definition npfx :: "nat \<Rightarrow> 'a::len word \<Rightarrow> bool list" where
  "npfx c k = take c (kbits k)"

lemma length_npfx: "c \<le> LENGTH('a) \<Longrightarrow> length (npfx c (k :: 'a::len word)) = c"
  by (simp add: npfx_def)

text \<open>
  Every node of a subtrie extends the prefix \<open>q\<close>; a child extends its parent's prefix by the bit of
  its slot; a node without a peer has two children.
\<close>

fun trie_ok :: "bool list \<Rightarrow> ('a::len word, 'p) trie \<Rightarrow> bool" where
  "trie_ok q Null = True"
| "trie_ok q (Node p c k l r) \<longleftrightarrow> c \<le> LENGTH('a) \<and> length q \<le> c \<and> npfx (length q) k = q \<and>
     trie_ok (npfx c k @ [False]) l \<and> trie_ok (npfx c k @ [True]) r \<and> (p = None \<longrightarrow> l \<noteq> Null \<and> r \<noteq> Null)"

fun entries :: "('a::len word, 'p) trie \<Rightarrow> bool list \<Rightarrow> 'p option" where
  "entries Null q = None"
| "entries (Node p c k l r) q =
     (if q = npfx c k then p
      else if length q > c \<and> take c q = npfx c k then (if q ! c then entries r q else entries l q)
      else None)"

text \<open>Longest-prefix match in a map from prefixes.\<close>

fun lpm_upto :: "(bool list \<Rightarrow> 'p option) \<Rightarrow> bool list \<Rightarrow> nat \<Rightarrow> 'p option" where
  "lpm_upto m bs 0 = m []"
| "lpm_upto m bs (Suc n) = (case m (take (Suc n) bs) of Some p \<Rightarrow> Some p | None \<Rightarrow> lpm_upto m bs n)"

definition lpm :: "(bool list \<Rightarrow> 'p option) \<Rightarrow> bool list \<Rightarrow> 'p option" where
  "lpm m bs = lpm_upto m bs (length bs)"

definition last_match :: "(bool list \<Rightarrow> 'p option) \<Rightarrow> bool list \<Rightarrow> nat list \<Rightarrow> 'p option \<Rightarrow> 'p option" where
  "last_match m bs is found = fold (\<lambda>i f. case m (take i bs) of Some p \<Rightarrow> Some p | None \<Rightarrow> f) is found"

lemma lpm_last_match: "lpm_upto m bs n = last_match m bs [0..<Suc n] None"
  by (induction n) (auto simp: last_match_def split: option.splits)

lemma last_match_append: "last_match m bs (is @ js) f = last_match m bs js (last_match m bs is f)"
  by (simp add: last_match_def)

lemma last_match_None: "\<forall>i \<in> set is. m (take i bs) = None \<Longrightarrow> last_match m bs is f = f"
  by (induction "is" arbitrary: f) (auto simp: last_match_def)

lemma last_match_cong:
  "(\<And>i. i \<in> set is \<Longrightarrow> m (take i bs) = m' (take i bs)) \<Longrightarrow> last_match m bs is f = last_match m' bs is f"
  by (induction "is" arbitrary: f) (auto simp: last_match_def)

lemma entries_short: "trie_ok q t \<Longrightarrow> entries t x \<noteq> None \<Longrightarrow> length q \<le> length x"
proof (induction t x arbitrary: q rule: entries.induct)
  case (2 p c k l r x)
  then show ?case by (auto simp: length_npfx split: if_splits)
qed simp

lemma trie_ok_leaf_full: "trie_ok q t \<Longrightarrow> LENGTH('a) < length q \<Longrightarrow> t = Null"
  for t :: "('a::len word, 'p) trie"
  by (cases t) auto

text \<open>The walk of \<open>find_node\<close> visits exactly the entries that are prefixes of the key, shortest first.\<close>

lemma find_node_last_match:
  fixes t :: "('a::len word, 'p) trie"
  assumes "trie_ok q t" "npfx (length q) key = q"
  shows "find_node t key found = last_match (entries t) (kbits key) [length q..<Suc LENGTH('a)] found"
  using assms
proof (induction t key found arbitrary: q rule: find_node.induct)
  case (1 key found)
  then show ?case by (simp add: last_match_None)
next
  case (2 p c k l r key found)
  let ?t = "Node p c k l r" and ?b = "kbits key"
  have c: "c \<le> LENGTH('a)" "length q \<le> c" using 2(3) by auto
  have below: "last_match (entries ?t) ?b [length q..<c] f = f" for f
    using c by (intro last_match_None) (auto simp: length_npfx dest: arg_cong [where f = length])
  have range: "[length q..<Suc LENGTH('a)] = [length q..<c] @ [c] @ [Suc c..<Suc LENGTH('a)]"
    using c upt_add_eq_append [of "length q" c "Suc LENGTH('a) - c"] by (simp add: upt_conv_Cons del: upt_Suc)
  show ?case
  proof (cases "prefix_matches c k key")
    case False
    then have ne: "take c ?b \<noteq> npfx c k" using c by (auto simp: prefix_matches_take npfx_def)
    have none: "entries ?t (take i ?b) = None" if "c \<le> i" for i
    proof -
      have ne': "take c (take i ?b) \<noteq> npfx c k" using ne that by (simp add: min_def)
      moreover have "take c (npfx c k) = npfx c k" by (simp add: npfx_def)
      ultimately have "take i ?b \<noteq> npfx c k" by metis
      with ne' show ?thesis by (simp only: entries.simps if_False simp_thms)
    qed
    have "last_match (entries ?t) ?b [c] f = f" "last_match (entries ?t) ?b [Suc c..<Suc LENGTH('a)] f = f" for f
      using none by (auto intro!: last_match_None simp del: entries.simps upt_Suc)
    then show ?thesis
      using False below unfolding range by (simp only: last_match_append find_node.simps if_False)
  next
    case True
    then have eq: "take c ?b = npfx c k" using c by (simp add: prefix_matches_take npfx_def)
    let ?f = "case p of None \<Rightarrow> found | Some _ \<Rightarrow> p"
    have at_c: "last_match (entries ?t) ?b [c] found = ?f"
      using eq by (simp add: last_match_def split: option.splits)
    have above: "last_match (entries ?t) ?b [Suc c..<Suc LENGTH('a)] ?f =
        last_match (entries (if choose_bit c key then r else l)) ?b [Suc c..<Suc LENGTH('a)] ?f"
      if "c < LENGTH('a)"
    proof (rule last_match_cong)
      fix i assume "i \<in> set [Suc c..<Suc LENGTH('a)]"
      then have "length (take i ?b) = i" "take c (take i ?b) = npfx c k" "take i ?b ! c = choose_bit c key" "c < i"
        using eq that by (auto simp: choose_kbits min_def)
      then show "entries ?t (take i ?b) = entries (if choose_bit c key then r else l) (take i ?b)"
        using length_npfx [OF c(1), of k] by (auto dest: arg_cong [where f = length])
    qed
    have q': "npfx (Suc c) key = npfx c k @ [choose_bit c key]" if "c < LENGTH('a)"
      using that eq by (simp add: npfx_def take_Suc_conv_app_nth choose_kbits)
    show ?thesis
    proof (cases "c = LENGTH('a)")
      case True
      then show ?thesis
        using \<open>prefix_matches c k key\<close> below at_c unfolding range last_match_append
        by (simp add: last_match_None del: entries.simps)
    next
      case False
      then have lt: "c < LENGTH('a)" using c by simp
      have "find_node ?t key found = find_node (if choose_bit c key then r else l) key ?f"
        using \<open>prefix_matches c k key\<close> False by (simp add: Let_def)
      also have "\<dots> = last_match (entries (if choose_bit c key then r else l)) ?b [Suc c..<Suc LENGTH('a)] ?f"
        using 2(1) [OF True refl False, of "npfx (Suc c) key"] 2(2) [OF True refl False, of "npfx (Suc c) key"]
          2(3) q' [OF lt] lt by (auto simp: length_npfx simp del: upt_Suc)
      finally show ?thesis
        unfolding range last_match_append below at_c above [OF lt] .
    qed
  qed
qed

lemma find_node_lpm:
  assumes "trie_ok [] t"
  shows "find_node t key None = lpm (entries t) (kbits key)"
  using find_node_last_match [OF assms, of key None] by (simp add: npfx_def lpm_def lpm_last_match)

subsection \<open>Insertion\<close>

lemma npfx_take: "n \<le> m \<Longrightarrow> take n (npfx m k) = npfx n k"
  by (simp add: npfx_def min_def)

lemma npfx_nth: "i < c \<Longrightarrow> npfx c k ! i = kbits k ! i"
  by (simp add: npfx_def)

lemma npfx_Suc: "c < LENGTH('a) \<Longrightarrow> npfx (Suc c) k = npfx c k @ [choose_bit c k]" for k :: "'a::len word"
  by (simp add: npfx_def take_Suc_conv_app_nth choose_kbits)

lemma trie_ok_weaken:
  assumes "trie_ok q t" "t = Node p c k l r" "length x \<le> c" "npfx (length x) k = x"
  shows "trie_ok x t"
  using assms by simp

text \<open>A query that does not extend a node's prefix finds nothing below that node.\<close>

lemma entries_outside: "trie_ok q t \<Longrightarrow> entries t x \<noteq> None \<Longrightarrow> take (length q) x = q"
proof (induction t x arbitrary: q rule: entries.induct)
  case (2 p c k l r x)
  then have q: "length q \<le> c" "npfx (length q) k = q" by auto
  have "x = npfx c k \<or> take c x = npfx c k" using 2(4) by (auto split: if_splits)
  moreover have "take (length q) (take c x) = take (length q) x" using q(1) by (simp add: min_def)
  ultimately have "take (length q) x = take (length q) (npfx c k)" by metis
  then show ?case using q by (simp add: npfx_take)
qed simp

text \<open>
  The four places a new prefix can go: onto an existing node, below a node, between a node and its
  parent, or beside a node under a new branching node.
\<close>

lemma entries_leaf: "entries (Node p c k Null Null) x = (if x = npfx c k then p else None)"
  by simp

lemma between_entries:
  fixes k key :: "'a::len word"
  assumes ok: "trie_ok q (Node p c k l r)" and lt: "cidr < c" and same: "npfx cidr k = npfx cidr key"
  shows "entries (Node (Some v) cidr key (if choose_bit cidr k then Null else Node p c k l r)
      (if choose_bit cidr k then Node p c k l r else Null)) =
    (entries (Node p c k l r))(npfx cidr key \<mapsto> v)"
proof
  fix x
  let ?d = "Node p c k l r"
  have c: "c \<le> LENGTH('a)" using ok by simp
  have d: "trie_ok (npfx (Suc cidr) k) ?d"
    using ok lt c by (intro trie_ok_weaken [OF ok refl]) (auto simp: length_npfx)
  have len: "length (npfx cidr key) = cidr" using lt c by (simp add: length_npfx)
  show "entries (Node (Some v) cidr key (if choose_bit cidr k then Null else ?d)
      (if choose_bit cidr k then ?d else Null)) x = ((entries ?d)(npfx cidr key \<mapsto> v)) x"
  proof (cases "entries ?d x")
    case None
    then show ?thesis by simp
  next
    case (Some a)
    then have "take (Suc cidr) x = npfx cidr k @ [choose_bit cidr k]"
      using entries_outside [OF d, of x] lt c by (simp add: npfx_Suc length_npfx)
    then have "cidr < length x" "take cidr x = npfx cidr key" "x ! cidr = choose_bit cidr k"
      using take_Suc_snocD [of cidr x "npfx cidr k" "choose_bit cidr k"] same lt c
      by (simp_all add: length_npfx)
    then show ?thesis using Some len by auto
  qed
qed

lemma beside_entries:
  fixes k key :: "'a::len word" and v :: 'p
  assumes ok: "trie_ok q (Node p c k l r)" and lt: "m < c" "m < cidr" "cidr \<le> LENGTH('a)"
    and same: "npfx m k = npfx m key" and diff: "choose_bit m k \<noteq> choose_bit m key"
  defines "new \<equiv> Node (Some v) cidr key Null Null" and "d \<equiv> Node p c k l r"
  shows "entries (Node None m key (if choose_bit m key then d else new) (if choose_bit m key then new else d)) =
    (entries d)(npfx cidr key \<mapsto> v)"
proof
  fix x
  have c: "c \<le> LENGTH('a)" using ok by simp
  have d: "trie_ok (npfx (Suc m) k) d"
    unfolding d_def using ok lt c by (intro trie_ok_weaken [OF ok refl]) (auto simp: length_npfx)
  have len: "length (npfx m key) = m" "length (npfx m k) = m" using lt c by (simp_all add: length_npfx)
  have key: "take m (npfx cidr key) = npfx m key" "npfx cidr key ! m = choose_bit m key" "m < length (npfx cidr key)"
    using lt c by (simp_all add: npfx_take npfx_nth choose_kbits length_npfx)
  have inside: "m < length x \<and> take m x = npfx m key \<and> x ! m \<noteq> choose_bit m key" if "entries d x \<noteq> None"
  proof -
    have "take (Suc m) x = npfx m k @ [choose_bit m k]"
      using entries_outside [OF d that] lt c by (simp add: npfx_Suc length_npfx)
    then show ?thesis
      using take_Suc_snocD [of m x "npfx m k" "choose_bit m k"] same diff len by auto
  qed
  show "entries (Node None m key (if choose_bit m key then d else new) (if choose_bit m key then new else d)) x =
      ((entries d)(npfx cidr key \<mapsto> v)) x"
  proof (cases "entries d x")
    case None
    then show ?thesis using key len by (auto simp: new_def)
  next
    case (Some a)
    then show ?thesis using inside key len by (auto simp: new_def)
  qed
qed

text \<open>What a successful insertion yields: a well-formed trie with exactly one entry changed.\<close>

lemma add_at_result:
  fixes t :: "('a::len word, 'p) trie"
  assumes "trie_ok q t" "npfx (length q) key = q" "length q \<le> cidr" "cidr \<le> LENGTH('a)"
    and "add_at a1 a2 t key cidr peer = Inr t'"
  shows "trie_ok q t' \<and> entries t' = (entries t)(npfx cidr key \<mapsto> peer) \<and> t' \<noteq> Null"
  using assms
proof (induction a1 a2 t key cidr peer arbitrary: q t' rule: add_at.induct)
  case (1 a1 a2 key cidr peer)
  then show ?case by (auto split: if_splits)
next
  case (2 a1 a2 p c k l r key cidr peer)
  have ok: "trie_ok q (Node p c k l r)" by fact
  then have c: "c \<le> LENGTH('a)" "length q \<le> c" by auto
  show ?case
  proof (cases "c \<le> cidr \<and> prefix_matches c k key")
    case True
    then have eq: "npfx c k = npfx c key" using c by (simp add: prefix_matches_take npfx_def)
    show ?thesis
    proof (cases "c = cidr")
      case True
      then have "t' = Node (Some peer) c k l r" using 2(7) \<open>c \<le> cidr \<and> _\<close> by simp
      then show ?thesis using ok True eq by auto
    next
      case False
      then have lt: "c < cidr" "c < LENGTH('a)" using True 2(6) by auto
      let ?ch = "if choose_bit c key then r else l"
      have chok: "trie_ok (npfx (Suc c) key) ?ch" using ok eq lt by (simp add: npfx_Suc)
      obtain ch' where ch': "add_at a1 a2 ?ch key cidr peer = Inr ch'"
        and t': "t' = (if choose_bit c key then Node p c k l ch' else Node p c k ch' r)"
        using 2(7) True False by (auto split: if_splits sum.splits simp: map_sum_def)
      have IH: "trie_ok (npfx (Suc c) key) ch' \<and> entries ch' = (entries ?ch)(npfx cidr key \<mapsto> peer) \<and> ch' \<noteq> Null"
      proof (cases "choose_bit c key")
        case b: True
        have len: "npfx (length (npfx (Suc c) key)) key = npfx (Suc c) key" "length (npfx (Suc c) key) \<le> cidr"
          using lt by (simp_all add: length_npfx)
        show ?thesis
          using 2(1) [OF True False b _ len 2(6)] chok ch' unfolding if_P [OF b] by blast
      next
        case b: False
        have len: "npfx (length (npfx (Suc c) key)) key = npfx (Suc c) key" "length (npfx (Suc c) key) \<le> cidr"
          using lt by (simp_all add: length_npfx)
        show ?thesis
          using 2(2) [OF True False b _ len 2(6)] chok ch' unfolding if_not_P [OF b] by blast
      qed
      have key: "take c (npfx cidr key) = npfx c key" "npfx cidr key ! c = choose_bit c key" "c < length (npfx cidr key)"
        using lt 2(6) by (simp_all add: npfx_take npfx_nth choose_kbits length_npfx)
      have len: "length (npfx c key) = c" using c by (simp add: length_npfx)
      have "entries t' x = ((entries (Node p c k l r))(npfx cidr key \<mapsto> peer)) x" for x
        unfolding t' using conjunct1 [OF conjunct2 [OF IH]] key eq len by auto
      moreover have "trie_ok q t'"
        unfolding t' using ok IH eq lt by (auto simp: npfx_Suc)
      ultimately show ?thesis using t' by auto
    qed
  next
    case False
    let ?m = "min cidr (common_bits k key)" and ?d = "Node p c k l r"
    have m: "?m < c"
      using False c by (auto simp: prefix_matches_def min_def)
    have mkey: "npfx ?m k = npfx ?m key"
      using c m by (simp add: npfx_def flip: common_bits_ge)
    show ?thesis
    proof (cases "?m = cidr")
      case True
      then have t': "t' = Node (Some peer) cidr key (if choose_bit cidr k then Null else ?d)
          (if choose_bit cidr k then ?d else Null)"
        using 2(7) False by (auto simp: connect_def Let_def split: if_splits)
      have "trie_ok (npfx cidr k @ [choose_bit cidr k]) ?d"
        using ok m c True by (intro trie_ok_weaken [OF ok refl]) (auto simp: length_npfx npfx_Suc)
      then have "trie_ok q t'"
        using t' 2(4-6) mkey True by (auto simp: npfx_take)
      moreover have "entries t' = (entries ?d)(npfx cidr key \<mapsto> peer)"
        unfolding t' using m mkey True by (intro between_entries [OF ok]) auto
      ultimately show ?thesis using t' by (simp del: entries.simps)
    next
      case nt: False
      then have cb: "?m = common_bits k key" "common_bits k key < cidr" by auto
      then have diff: "choose_bit ?m k \<noteq> choose_bit ?m key"
        using m c lcp_neq [of "kbits k" "kbits key"] by (simp add: common_bits_lcp choose_kbits)
      let ?new = "Node (Some peer) cidr key Null Null"
      have t': "t' = Node None ?m key (if choose_bit ?m key then ?d else ?new) (if choose_bit ?m key then ?new else ?d)"
        using 2(7) False nt diff by (auto simp: connect_def Let_def split: if_splits)
      have qm: "length q \<le> ?m"
        using 2(4,5) ok c cb by (auto simp: common_bits_ge npfx_def)
      have "trie_ok (npfx ?m k @ [choose_bit ?m k]) ?d" "trie_ok (npfx ?m key @ [choose_bit ?m key]) ?new"
        using ok m c cb 2(6) by (auto simp: length_npfx simp flip: npfx_Suc)
      then have "trie_ok q t'"
        using t' 2(4,6) qm mkey diff by auto
      moreover have "entries t' = (entries ?d)(npfx cidr key \<mapsto> peer)"
        unfolding t' using m mkey cb diff 2(6) by (intro beside_entries [OF ok]) auto
      ultimately show ?thesis using t' by (simp del: entries.simps)
    qed
  qed
qed

subsection \<open>Removal\<close>

lemma trie_ok_prefix: "trie_ok (q @ x) t \<Longrightarrow> trie_ok q t"
  using npfx_take [of "length q" "length (q @ x)" "node_bits t"] by (cases t) auto

text \<open>A node without a peer and with one child holds what that child holds.\<close>

lemma entries_Null_left:
  fixes k :: "'a::len word"
  assumes "trie_ok (npfx c k @ [True]) r" "c \<le> LENGTH('a)"
  shows "entries (Node None c k Null r) = entries r"
proof
  fix x
  show "entries (Node None c k Null r) x = entries r x"
  proof (cases "entries r x")
    case (Some a)
    then have "take (Suc c) x = npfx c k @ [True]"
      using entries_outside [OF assms(1), of x] assms(2) by (simp add: length_npfx)
    then show ?thesis
      using take_Suc_snocD [of c x "npfx c k" True] assms(2) by (auto simp: length_npfx)
  qed simp
qed

lemma entries_Null_right:
  fixes k :: "'a::len word"
  assumes "trie_ok (npfx c k @ [False]) l" "c \<le> LENGTH('a)"
  shows "entries (Node None c k l Null) = entries l"
proof
  fix x
  show "entries (Node None c k l Null) x = entries l x"
  proof (cases "entries l x")
    case (Some a)
    then have "take (Suc c) x = npfx c k @ [False]"
      using entries_outside [OF assms(1), of x] assms(2) by (simp add: length_npfx)
    then show ?thesis
      using take_Suc_snocD [of c x "npfx c k" False] assms(2) by (auto simp: length_npfx)
  qed simp
qed

lemma entries_drop_peer: "entries (Node None c k l r) = (entries (Node p c k l r))(npfx c k := None)"
  by auto

lemma remove_this_result:
  fixes k :: "'a::len word"
  assumes ok: "trie_ok q (Node p c k l r)"
  shows "trie_ok q (remove_this l r k c) \<and>
    entries (remove_this l r k c) = (entries (Node p c k l r))(npfx c k := None)"
proof -
  have c: "c \<le> LENGTH('a)" and l: "trie_ok (npfx c k @ [False]) l" and r: "trie_ok (npfx c k @ [True]) r"
    and q: "length q \<le> c" "npfx (length q) k = q" using ok by auto
  have "trie_ok (q @ drop (length q) (npfx c k) @ [b]) t" if "trie_ok (npfx c k @ [b]) t" for b t
    using that q npfx_take [of "length q" c k] by (metis append.assoc append_take_drop_id)
  then have "trie_ok q l" "trie_ok q r" using l r by (auto dest: trie_ok_prefix)
  then have "trie_ok q (remove_this l r k c)" using ok by (auto simp: remove_this_def)
  moreover have "entries (remove_this l r k c) = entries (Node None c k l r)"
    using entries_Null_left [OF r c] entries_Null_right [OF l c] by (auto simp: remove_this_def)
  ultimately show ?thesis by (simp only: entries_drop_peer [of c k l r p] simp_thms)
qed


text \<open>Where an entry that is not the node's own lies.\<close>

lemma entries_below:
  fixes k key :: "'a::len word"
  assumes "entries (Node p c k l r) (npfx cidr key) \<noteq> None" "c \<noteq> cidr" "c \<le> LENGTH('a)" "cidr \<le> LENGTH('a)"
  shows "c < cidr" "npfx c key = npfx c k" "npfx cidr key ! c = choose_bit c key"
    "entries (if choose_bit c key then r else l) (npfx cidr key) \<noteq> None"
proof -
  have len: "length (npfx cidr key) = cidr" "length (npfx c k) = c" using assms(3,4) by (simp_all add: length_npfx)
  then have ne: "npfx cidr key \<noteq> npfx c k" using assms(2) by auto
  then show lt: "c < cidr" using assms(1) len by (simp split: if_splits)
  then show nth: "npfx cidr key ! c = choose_bit c key"
    using assms(4) by (simp add: npfx_nth choose_kbits)
  show "npfx c key = npfx c k" using assms(1) ne lt npfx_take [of c cidr key] by (simp split: if_splits)
  show "entries (if choose_bit c key then r else l) (npfx cidr key) \<noteq> None"
    using assms(1) ne nth by (simp split: if_splits)
qed

lemma entries_update_child:
  fixes k key :: "'a::len word"
  assumes "c < cidr" "cidr \<le> LENGTH('a)" "npfx c key = npfx c k"
  shows "choose_bit c key \<Longrightarrow> entries r' = (entries r)(npfx cidr key := v) \<Longrightarrow>
      entries (Node p c k l r') = (entries (Node p c k l r))(npfx cidr key := v)"
    and "\<not> choose_bit c key \<Longrightarrow> entries l' = (entries l)(npfx cidr key := v) \<Longrightarrow>
      entries (Node p c k l' r) = (entries (Node p c k l r))(npfx cidr key := v)"
proof -
  have key: "take c (npfx cidr key) = npfx c k" "npfx cidr key ! c = choose_bit c key" "c < length (npfx cidr key)"
    "length (npfx c k) = c"
    using assms npfx_take [of c cidr key] by (simp_all add: npfx_nth choose_kbits length_npfx)
  then show "choose_bit c key \<Longrightarrow> entries r' = (entries r)(npfx cidr key := v) \<Longrightarrow>
      entries (Node p c k l r') = (entries (Node p c k l r))(npfx cidr key := v)"
    and "\<not> choose_bit c key \<Longrightarrow> entries l' = (entries l)(npfx cidr key := v) \<Longrightarrow>
      entries (Node p c k l' r) = (entries (Node p c k l r))(npfx cidr key := v)"
    by (auto simp: fun_eq_iff)
qed

lemma leaf_removed:
  assumes "is_leaf_at cidr t" "entries t (npfx cidr key) \<noteq> None"
  shows "entries Null = (entries t)(npfx cidr key := None)"
  using assms by (cases t) (auto split: if_splits)

lemma remove_node_Null:
  assumes "remove_node t key cidr = Null" "entries t (npfx cidr key) \<noteq> None" "trie_ok q t"
  shows "is_leaf_at cidr t"
proof (cases t)
  case (Node p c k l r)
  then show ?thesis using assms by (auto simp: remove_this_def split: if_splits)
qed (use assms in auto)

lemma trie_ok_lift:
  assumes "trie_ok q (Node p c k l r)" shows "trie_ok q l" "trie_ok q r"
proof -
  have q: "length q \<le> c" "npfx (length q) k = q" using assms by auto
  have "trie_ok (q @ drop (length q) (npfx c k) @ [b]) t" if "trie_ok (npfx c k @ [b]) t" for b t
    using that q npfx_take [of "length q" c k] by (metis append.assoc append_take_drop_id)
  then show "trie_ok q l" "trie_ok q r" using assms by (auto dest: trie_ok_prefix)
qed

lemma remove_node_result:
  fixes t :: "('a::len word, 'p) trie"
  assumes "trie_ok q t" "cidr \<le> LENGTH('a)" "entries t (npfx cidr key) \<noteq> None"
  shows "trie_ok q (remove_node t key cidr) \<and> entries (remove_node t key cidr) = (entries t)(npfx cidr key := None)"
  using assms
proof (induction t key cidr arbitrary: q rule: remove_node.induct)
  case (1 key cidr)
  then show ?case by simp
next
  case (2 p c k l r key cidr)
  have ok: "trie_ok q (Node p c k l r)" by fact
  have c: "c \<le> LENGTH('a)" and l: "trie_ok (npfx c k @ [False]) l" and r: "trie_ok (npfx c k @ [True]) r"
    using ok by auto
  show ?case
  proof (cases "c = cidr")
    case True
    have "npfx cidr key = npfx c k" using 2(5) True c by (auto simp: length_npfx split: if_splits)
    then show ?thesis using remove_this_result [OF ok] True by (simp del: entries.simps trie_ok.simps)
  next
    case False
    note below = entries_below [OF 2(5) False c 2(4)]
    show ?thesis
    proof (cases "choose_bit c key")
      case b: True
      have mem: "entries r (npfx cidr key) \<noteq> None" using below(4) b by simp
      show ?thesis
      proof (cases "p = None \<and> is_leaf_at cidr r")
        case True
        then have "entries (Node p c k l Null) = (entries (Node p c k l r))(npfx cidr key := None)"
          using entries_update_child(1) [OF below(1) 2(4) below(2) b] leaf_removed [OF _ mem] by blast
        then show ?thesis
          using True False b trie_ok_lift [OF ok] entries_Null_right [OF l c] by (simp del: entries.simps)
      next
        case nl: False
        note IH = 2(1) [OF False b nl r 2(4) mem]
        have "trie_ok q (Node p c k l (remove_node r key cidr))"
          using ok IH nl remove_node_Null [OF _ mem r] by auto
        moreover have "entries (Node p c k l (remove_node r key cidr)) = (entries (Node p c k l r))(npfx cidr key := None)"
          using entries_update_child(1) [OF below(1) 2(4) below(2) b] IH by blast
        moreover have "remove_node (Node p c k l r) key cidr = Node p c k l (remove_node r key cidr)"
          unfolding remove_node.simps using False b nl by (simp only: if_False if_True)
        ultimately show ?thesis by metis
      qed
    next
      case b: False
      have mem: "entries l (npfx cidr key) \<noteq> None" using below(4) b by simp
      show ?thesis
      proof (cases "p = None \<and> is_leaf_at cidr l")
        case True
        then have "entries (Node p c k Null r) = (entries (Node p c k l r))(npfx cidr key := None)"
          using entries_update_child(2) [OF below(1) 2(4) below(2) b] leaf_removed [OF _ mem] by blast
        then show ?thesis
          using True False b trie_ok_lift [OF ok] entries_Null_left [OF r c] by (simp del: entries.simps)
      next
        case nl: False
        note IH = 2(2) [OF False b nl l 2(4) mem]
        have "trie_ok q (Node p c k (remove_node l key cidr) r)"
          using ok IH nl remove_node_Null [OF _ mem l] by auto
        moreover have "entries (Node p c k (remove_node l key cidr) r) = (entries (Node p c k l r))(npfx cidr key := None)"
          using entries_update_child(2) [OF below(1) 2(4) below(2) b] IH by blast
        moreover have "remove_node (Node p c k l r) key cidr = Node p c k (remove_node l key cidr) r"
          unfolding remove_node.simps using False b nl by (simp only: if_False if_True)
        ultimately show ?thesis by metis
      qed
    qed
  qed
qed

lemma node_placement_entries:
  fixes t :: "('a::len word, 'p) trie"
  assumes "trie_ok q t" "cidr \<le> LENGTH('a)" "node_placement t key cidr parent = (exact, node)" "length q \<le> cidr"
    "npfx (length q) key = q"
  shows "entries t (npfx cidr key) = (if exact then node_peer node else None) \<and>
    (exact \<longrightarrow> node_cidr node = cidr \<and> node \<noteq> Null \<and> npfx cidr (node_bits node) = npfx cidr key)"
  using assms
proof (induction t key cidr parent arbitrary: q rule: node_placement.induct)
  case (2 p c k l r key cidr parent)
  have c: "c \<le> LENGTH('a)" and l: "trie_ok (npfx c k @ [False]) l" and r: "trie_ok (npfx c k @ [True]) r"
    using 2(3) by auto
  show ?case
  proof (cases "c \<le> cidr \<and> prefix_matches c k key")
    case m: True
    then have eq: "npfx c k = npfx c key" using c by (simp add: prefix_matches_take npfx_def)
    show ?thesis
    proof (cases "c = cidr")
      case True
      then show ?thesis using m eq 2(5) by auto
    next
      case False
      then have lt: "c < cidr" "c < LENGTH('a)" using m 2(4) by auto
      have sub: "npfx (Suc c) key = npfx c k @ [choose_bit c key]" using eq lt by (simp add: npfx_Suc)
      have len: "length (npfx c k @ [b]) \<le> cidr" for b using lt by (simp add: length_npfx)
      have q: "npfx (length (npfx c k @ [choose_bit c key])) key = npfx c k @ [choose_bit c key]"
        using sub lt by (simp add: length_npfx)
      have np: "node_placement (if choose_bit c key then r else l) key cidr (Node p c k l r) = (exact, node)"
        using 2(5) m False by auto
      have "npfx cidr key \<noteq> npfx c k" using lt 2(4) c by (auto simp: length_npfx dest: arg_cong [where f = length])
      then have ent: "entries (Node p c k l r) (npfx cidr key) =
          entries (if choose_bit c key then r else l) (npfx cidr key)"
        using lt 2(4) eq npfx_take [of c cidr key] by (simp add: length_npfx npfx_nth choose_kbits)
      show ?thesis
      proof (cases "choose_bit c key")
        case b: True
        show ?thesis using 2(1) [OF m False b, of "npfx c k @ [True]"] r 2(4) np len q ent
          unfolding if_P [OF b] by (simp del: entries.simps add: b)
      next
        case b: False
        show ?thesis using 2(2) [OF m False b, of "npfx c k @ [False]"] l 2(4) np len q ent
          unfolding if_not_P [OF b] by (simp del: entries.simps add: b)
      qed
    qed
  next
    case nm: False
    then have "\<not> exact" using 2(5) by auto
    moreover have "entries (Node p c k l r) (npfx cidr key) = None"
    proof (rule ccontr)
      assume ne: "\<not> ?thesis"
      have len: "length (npfx cidr key) = cidr" "length (npfx c k) = c" using 2(4) c by (simp_all add: length_npfx)
      have "npfx cidr key = npfx c k \<Longrightarrow> cidr = c" using len by metis
      then have "c \<le> cidr" "npfx c key = npfx c k"
        using ne len npfx_take [of c cidr key] by (auto split: if_splits)
      then show False using nm c by (simp add: prefix_matches_take npfx_def)
    qed
    ultimately show ?thesis by (simp del: entries.simps)
  qed
qed auto

section \<open>The key in memory\<close>

text \<open>
  \<open>swap_endian\<close> stores a 32-bit key as one little-endian integer and a 128-bit key as two, the high
  half first. The byte and bit numbers that a node caches select, in that memory, exactly the bit of
  the address that follows the node's prefix.
\<close>

definition hi_half :: "128 word \<Rightarrow> u64" where "hi_half w = ucast (drop_bit 64 w)"
definition lo_half :: "128 word \<Rightarrow> u64" where "lo_half w = ucast w"

definition key_mem4 :: "u32 \<Rightarrow> bytes" where "key_mem4 w = le_bytes 4 w"
definition key_mem6 :: "128 word \<Rightarrow> bytes" where
  "key_mem6 w = le_bytes 8 (hi_half w) @ le_bytes 8 (lo_half w)"

lemma xor_3: "x < 4 \<Longrightarrow> x XOR 3 = 3 - x" for x :: nat
proof -
  have "\<forall>x \<in> set [0..<4]. x XOR 3 = 3 - (x::nat)" by code_simp
  then show "x < 4 \<Longrightarrow> ?thesis" by simp
qed

lemma xor_7: "x < 16 \<Longrightarrow> x XOR 7 = (if x < 8 then 7 else 23) - x" for x :: nat
proof -
  have "\<forall>x \<in> set [0..<16]. x XOR 7 = (if x < 8 then 7 else 23) - (x::nat)" by code_simp
  then show "x < 16 \<Longrightarrow> ?thesis" by simp
qed

lemma bit_at_a_32: "cidr < 32 \<Longrightarrow> bit_at_a cidr 32 = 3 - cidr div 8"
  by (simp add: bit_at_a_def xor_3)

lemma bit_at_a_128: "cidr < 128 \<Longrightarrow> bit_at_a cidr 128 = (if cidr < 64 then 7 else 23) - cidr div 8"
proof -
  assume "cidr < 128"
  then have "cidr div 8 < 16" by auto
  moreover have "cidr div 8 < 8 \<longleftrightarrow> cidr < 64" by auto
  ultimately show ?thesis by (simp add: bit_at_a_def xor_7)
qed

lemma bit_le_bytes: "a < n \<Longrightarrow> b < 8 \<Longrightarrow> 8 * a + b < LENGTH('a) \<Longrightarrow> bit (le_bytes n w ! a) b = bit w (8 * a + b)"
  for w :: "'a::len word"
  by (simp add: le_bytes_def bit_ucast_iff bit_drop_bit_eq)

lemma div_mod_8: obtains d m where "cidr div 8 = d" "cidr mod 8 = m" "cidr = 8 * d + m" "m < (8::nat)"
  using div_mult_mod_eq [of cidr 8] by (metis mod_less_divisor mult.commute zero_less_numeral)

lemma choose_byte_4: "cidr < 32 \<Longrightarrow> choose_byte cidr 32 (key_mem4 w) = choose_bit cidr w"
proof -
  assume c: "cidr < 32"
  obtain d m where dm: "cidr div 8 = d" "cidr mod 8 = m" "cidr = 8 * d + m" "m < 8" by (rule div_mod_8)
  have "8 * (3 - cidr div 8) + (7 - cidr mod 8) = 31 - cidr"
    unfolding dm(1,2) using c dm(3,4) by linarith
  then show ?thesis
    using c by (simp add: choose_byte_def choose_bit_def key_mem4_def bit_at_a_32 bit_at_b_def bit_le_bytes)
qed

lemma choose_byte_6: "cidr < 128 \<Longrightarrow> choose_byte cidr 128 (key_mem6 w) = choose_bit cidr w"
proof (cases "cidr < 64")
  case True
  obtain d m where dm: "cidr div 8 = d" "cidr mod 8 = m" "cidr = 8 * d + m" "m < 8" by (rule div_mod_8)
  have eq: "8 * (7 - cidr div 8) + (7 - cidr mod 8) = 63 - cidr" and lt: "7 - cidr div 8 < 8" "63 - cidr < 64"
    unfolding dm(1,2) using True dm(3,4) by linarith+
  have "bit (le_bytes 8 (hi_half w) ! (7 - cidr div 8)) (7 - cidr mod 8) = bit (hi_half w) (63 - cidr)"
    using bit_le_bytes [of "7 - cidr div 8" 8 "7 - cidr mod 8" "hi_half w"] unfolding eq using lt by simp
  also have "\<dots> = bit w (127 - cidr)"
    using True lt by (auto simp: hi_half_def bit_ucast_iff bit_drop_bit_eq)
  finally show ?thesis
    using True lt by (simp add: choose_byte_def choose_bit_def key_mem6_def bit_at_a_128 bit_at_b_def nth_append)
next
  case False
  assume c: "cidr < 128"
  obtain d m where dm: "cidr div 8 = d" "cidr mod 8 = m" "cidr = 8 * d + m" "m < 8" by (rule div_mod_8)
  have eq: "8 * (15 - cidr div 8) + (7 - cidr mod 8) = 127 - cidr"
    and lt: "23 - cidr div 8 - 8 = 15 - cidr div 8" "\<not> 23 - cidr div 8 < 8" "15 - cidr div 8 < 8" "127 - cidr < 64"
    unfolding dm(1,2) using c False dm(3,4) by linarith+
  have "bit (le_bytes 8 (lo_half w) ! (15 - cidr div 8)) (7 - cidr mod 8) = bit (lo_half w) (127 - cidr)"
    using bit_le_bytes [of "15 - cidr div 8" 8 "7 - cidr mod 8" "lo_half w"] unfolding eq using lt by simp
  also have "\<dots> = bit w (127 - cidr)" using lt by (auto simp: lo_half_def bit_ucast_iff)
  finally show ?thesis
    using False c lt by (simp add: choose_byte_def choose_bit_def key_mem6_def bit_at_a_128 bit_at_b_def nth_append)
qed

text \<open>The two halves compared by \<open>fls128\<close> give the common prefix of the whole key.\<close>

lemma fls_halves: "fls128 (hi_half w) (lo_half w) = fls w"
proof -
  have hi: "bit (hi_half w) i \<longleftrightarrow> i < 64 \<and> bit w (64 + i)" and lo: "bit (lo_half w) i \<longleftrightarrow> i < 64 \<and> bit w i" for i
    by (auto simp: hi_half_def lo_half_def bit_ucast_iff bit_drop_bit_eq ac_simps)
  have iff: "fls128 (hi_half w) (lo_half w) \<le> n \<longleftrightarrow> fls w \<le> n" if n: "n \<le> 128" for n
  proof (cases "hi_half w = 0")
    case True
    then have no: "\<not> bit w i" if "64 \<le> i" "i < 128" for i
      using hi [of "i - 64"] that by simp
    have "fls (lo_half w) \<le> n \<longleftrightarrow> fls w \<le> n"
    proof (cases "n \<le> 64")
      case True
      then show ?thesis using no by (auto simp: fls_spec lo not_less)
    next
      case False
      then have "fls (lo_half w) \<le> n" using fls_le [of "lo_half w"] by simp
      moreover have "fls w \<le> n" using no n False by (auto simp: fls_spec)
      ultimately show ?thesis by simp
    qed
    then show ?thesis using True by (simp add: fls128_def)
  next
    case False
    then obtain j where j: "j < 64" "bit (hi_half w) j" by (metis bit_eqI bit_0_eq bot_apply bot_bool_def hi)
    have "64 < fls w" using fls_spec [of 64 w] j hi by (auto simp: not_le [symmetric])
    moreover have "fls (hi_half w) + 64 \<le> n \<longleftrightarrow> fls w \<le> n" if "64 \<le> n"
    proof -
      have "fls (hi_half w) + 64 \<le> n \<longleftrightarrow> fls (hi_half w) \<le> n - 64" using that by auto
      also have "\<dots> \<longleftrightarrow> (\<forall>i. n - 64 \<le> i \<longrightarrow> i < 64 \<longrightarrow> \<not> bit w (64 + i))"
        using n by (subst fls_spec) (auto simp: hi)
      also have "\<dots> \<longleftrightarrow> (\<forall>i. n \<le> i \<longrightarrow> i < 128 \<longrightarrow> \<not> bit w i)"
      proof safe
        fix i assume "\<forall>i. n - 64 \<le> i \<longrightarrow> i < 64 \<longrightarrow> \<not> bit w (64 + i)" "n \<le> i" "i < 128" "bit w i"
        then show False using that by (auto dest!: spec [of _ "i - 64"])
      qed auto
      also have "\<dots> \<longleftrightarrow> fls w \<le> n" using n by (simp add: fls_spec)
      finally show ?thesis .
    qed
    ultimately show ?thesis using False by (cases "64 \<le> n") (auto simp: fls128_def)
  qed
  have "fls128 (hi_half w) (lo_half w) \<le> 128"
    using fls_le [of "hi_half w"] fls_le [of "lo_half w"] by (simp add: fls128_def)
  then show ?thesis using iff fls_le [of w] by (intro order_antisym) auto
qed

lemma half_xor: "hi_half (a XOR b) = hi_half a XOR hi_half b" "lo_half (a XOR b) = lo_half a XOR lo_half b"
  by (auto intro!: bit_word_eqI simp: hi_half_def lo_half_def bit_ucast_iff bit_drop_bit_eq bit_xor_iff)

lemma common_bits_128: "common_bits128 (hi_half n, lo_half n) (hi_half k, lo_half k) = common_bits n k"
  by (simp add: common_bits128_def common_bits_def fls_halves flip: half_xor)

end
