(* ===== verification/Allowedips_Table.thy ===== *)
theory Allowedips_Table
  imports Allowedips
begin

text \<open>
  The allowed-IPs table of a device: the two tries, the sequence number that netlink dumps compare,
  and the list of its nodes that every peer holds. The operations are the \<open>wg_allowedips_*\<close>
  functions. The invariant ties the lists to the tries, which is what makes removing a peer by
  walking its list correct; the tables of both families refine maps from prefixes to peers.
\<close>

section \<open>The table\<close>

datatype node_id = N4 nat u32 | N6 nat "128 word"

record 'p allowedips =
  root4 :: "(u32, 'p) trie"
  root6 :: "(128 word, 'p) trie"
  tbl_seq :: u64
  allowedips_list :: "'p \<Rightarrow> node_id list"

definition list_add_tail_id :: "node_id \<Rightarrow> 'p \<Rightarrow> ('p \<Rightarrow> node_id list) \<Rightarrow> 'p \<Rightarrow> node_id list" where
  "list_add_tail_id n p ls = ls(p := ls p @ [n])"

definition list_del_id :: "node_id \<Rightarrow> ('p \<Rightarrow> node_id list) \<Rightarrow> 'p \<Rightarrow> node_id list" where
  "list_del_id n ls = (\<lambda>p. remove1 n (ls p))"

definition list_move_tail_id :: "node_id \<Rightarrow> 'p \<Rightarrow> ('p \<Rightarrow> node_id list) \<Rightarrow> 'p \<Rightarrow> node_id list" where
  "list_move_tail_id n p ls = list_add_tail_id n p (list_del_id n ls)"

text \<open>The list side of a successful \<open>add\<close>: an exact match moves its node, anything else adds one.\<close>

definition add_lists ::
  "(nat \<Rightarrow> 'a::len word \<Rightarrow> node_id) \<Rightarrow> ('a word, 'p) trie \<Rightarrow> 'a word \<Rightarrow> nat \<Rightarrow> 'p \<Rightarrow>
     ('p \<Rightarrow> node_id list) \<Rightarrow> 'p \<Rightarrow> node_id list" where
  "add_lists mk t key cidr p ls =
     (let (exact, node) = node_placement t key cidr Null in
      if exact then list_move_tail_id (mk (node_cidr node) (node_bits node)) p ls
      else list_add_tail_id (mk cidr key) p ls)"

text \<open>The list side of \<open>remove\<close>: the node goes off the list when it is removed.\<close>

definition remove_lists ::
  "(nat \<Rightarrow> 'a::len word \<Rightarrow> node_id) \<Rightarrow> ('a word, 'p) trie \<Rightarrow> 'a word \<Rightarrow> nat \<Rightarrow> 'p \<Rightarrow>
     ('p \<Rightarrow> node_id list) \<Rightarrow> 'p \<Rightarrow> node_id list" where
  "remove_lists mk t key cidr p ls =
     (let (exact, node) = node_placement t key cidr Null in
      if exact \<and> node_peer node = Some p then list_del_id (mk (node_cidr node) (node_bits node)) ls else ls)"

definition wg_allowedips_init :: "'p allowedips \<Rightarrow> 'p allowedips" where
  "wg_allowedips_init table = table\<lparr>root4 := Null, root6 := Null, tbl_seq := 1\<rparr>"

definition wg_allowedips_insert_v4 ::
  "bool \<Rightarrow> bool \<Rightarrow> 'p allowedips \<Rightarrow> bytes \<Rightarrow> nat \<Rightarrow> 'p option \<Rightarrow> errno option \<times> 'p allowedips" where
  "wg_allowedips_insert_v4 a1 a2 table ip cidr peer =
     (let table1 = table\<lparr>tbl_seq := tbl_seq table + 1\<rparr>; key = swap_endian ip in
      case add a1 a2 (root4 table1) key cidr peer of
        Inl e \<Rightarrow> (Some e, table1)
      | Inr t \<Rightarrow> (None, table1\<lparr>root4 := t,
          allowedips_list := add_lists N4 (root4 table1) key cidr (the peer) (allowedips_list table1)\<rparr>))"

definition wg_allowedips_insert_v6 ::
  "bool \<Rightarrow> bool \<Rightarrow> 'p allowedips \<Rightarrow> bytes \<Rightarrow> nat \<Rightarrow> 'p option \<Rightarrow> errno option \<times> 'p allowedips" where
  "wg_allowedips_insert_v6 a1 a2 table ip cidr peer =
     (let table1 = table\<lparr>tbl_seq := tbl_seq table + 1\<rparr>; key = swap_endian ip in
      case add a1 a2 (root6 table1) key cidr peer of
        Inl e \<Rightarrow> (Some e, table1)
      | Inr t \<Rightarrow> (None, table1\<lparr>root6 := t,
          allowedips_list := add_lists N6 (root6 table1) key cidr (the peer) (allowedips_list table1)\<rparr>))"

definition wg_allowedips_remove_v4 ::
  "'p allowedips \<Rightarrow> bytes \<Rightarrow> nat \<Rightarrow> 'p \<Rightarrow> errno option \<times> 'p allowedips" where
  "wg_allowedips_remove_v4 table ip cidr peer =
     (let table1 = table\<lparr>tbl_seq := tbl_seq table + 1\<rparr>; key = swap_endian ip in
      case remove (root4 table1) key cidr peer of
        Inl e \<Rightarrow> (Some e, table1)
      | Inr t \<Rightarrow> (None, table1\<lparr>root4 := t,
          allowedips_list := remove_lists N4 (root4 table1) key cidr peer (allowedips_list table1)\<rparr>))"

definition wg_allowedips_remove_v6 ::
  "'p allowedips \<Rightarrow> bytes \<Rightarrow> nat \<Rightarrow> 'p \<Rightarrow> errno option \<times> 'p allowedips" where
  "wg_allowedips_remove_v6 table ip cidr peer =
     (let table1 = table\<lparr>tbl_seq := tbl_seq table + 1\<rparr>; key = swap_endian ip in
      case remove (root6 table1) key cidr peer of
        Inl e \<Rightarrow> (Some e, table1)
      | Inr t \<Rightarrow> (None, table1\<lparr>root6 := t,
          allowedips_list := remove_lists N6 (root6 table1) key cidr peer (allowedips_list table1)\<rparr>))"

text \<open>\<open>remove_node\<close> on a node found through a peer's list.\<close>

fun remove_id :: "node_id \<Rightarrow> 'p allowedips \<Rightarrow> 'p allowedips" where
  "remove_id (N4 c k) table = table\<lparr>root4 := remove_node (root4 table) k c,
     allowedips_list := list_del_id (N4 c k) (allowedips_list table)\<rparr>"
| "remove_id (N6 c k) table = table\<lparr>root6 := remove_node (root6 table) k c,
     allowedips_list := list_del_id (N6 c k) (allowedips_list table)\<rparr>"

definition wg_allowedips_remove_by_peer :: "'p allowedips \<Rightarrow> 'p \<Rightarrow> 'p allowedips" where
  "wg_allowedips_remove_by_peer table peer =
     (if allowedips_list table peer = [] then table
      else fold remove_id (allowedips_list table peer) (table\<lparr>tbl_seq := tbl_seq table + 1\<rparr>))"

text \<open>
  The walk over all nodes with an explicit stack (\<open>root_free_rcu\<close>, \<open>root_remove_peer_lists\<close>): the
  nodes in the order in which they are popped, and the greatest height that the stack reaches.
\<close>

definition MAX_ALLOWEDIPS_DEPTH :: nat where [wg_defs]: "MAX_ALLOWEDIPS_DEPTH = 129"

definition push_rcu :: "('k, 'p) trie \<Rightarrow> ('k, 'p) trie list \<Rightarrow> ('k, 'p) trie list" where
  "push_rcu p stack = (if p = Null then stack else p # stack)"

fun trie_left :: "('k, 'p) trie \<Rightarrow> ('k, 'p) trie" where
  "trie_left (Node p c k l r) = l"
| "trie_left Null = Null"

fun trie_right :: "('k, 'p) trie \<Rightarrow> ('k, 'p) trie" where
  "trie_right (Node p c k l r) = r"
| "trie_right Null = Null"

function walk :: "('k, 'p) trie list \<Rightarrow> ('k, 'p) trie list \<times> nat" where
  "walk [] = ([], 0)"
| "walk (Null # stack) = ([], length (Null # stack))"
| "walk (Node p c k l r # stack) =
     (let (ns, h) = walk (push_rcu r (push_rcu l stack))
      in (Node p c k l r # ns, max (length (Node p c k l r # stack)) h))"
  by pat_completeness auto

termination
  by (relation "measure (\<lambda>s. sum_list (map (\<lambda>t. Suc (2 * size t)) s))") (auto simp: push_rcu_def)

definition root_remove_peer_lists ::
  "(nat \<Rightarrow> 'k \<Rightarrow> node_id) \<Rightarrow> ('k, 'p) trie \<Rightarrow> ('p \<Rightarrow> node_id list) \<Rightarrow> 'p \<Rightarrow> node_id list" where
  "root_remove_peer_lists mk root ls =
     fold (\<lambda>n ls. if node_peer n \<noteq> None then list_del_id (mk (node_cidr n) (node_bits n)) ls else ls)
       (fst (walk [root])) ls"

definition wg_allowedips_free :: "'p allowedips \<Rightarrow> 'p allowedips" where
  "wg_allowedips_free table =
     (let ls = allowedips_list table;
          ls4 = (if root4 table = Null then ls else root_remove_peer_lists N4 (root4 table) ls);
          ls6 = (if root6 table = Null then ls4 else root_remove_peer_lists N6 (root6 table) ls4)
      in table\<lparr>tbl_seq := tbl_seq table + 1, root4 := Null, root6 := Null, allowedips_list := ls6\<rparr>)"

text \<open>
  \<open>wg_allowedips_read_node\<close>: the address of a node in network order with the host bits cleared, its
  prefix length and its address family. The length of the address is the number of bytes of the key.
\<close>

datatype family = AF_INET | AF_INET6

definition read_ip :: "nat \<Rightarrow> 'a::len word \<Rightarrow> nat \<Rightarrow> bytes" where
  "read_ip n key cidr =
     (let cidr_bytes = (cidr + 7) div 8;
          ip = rev (le_bytes n key);
          ip1 = take cidr_bytes ip @ replicate (n - cidr_bytes) 0
      in if cidr \<noteq> 0
         then ip1[cidr_bytes - 1 := (ip1 ! (cidr_bytes - 1)) AND push_bit ((8 - cidr mod 8) mod 8) (- 1)]
         else ip1)"

fun wg_allowedips_read_node :: "node_id \<Rightarrow> bytes \<times> nat \<times> family" where
  "wg_allowedips_read_node (N4 c k) = (read_ip 4 k c, c, AF_INET)"
| "wg_allowedips_read_node (N6 c k) = (read_ip 16 k c, c, AF_INET6)"

text \<open>The lookups by destination and by source address, given the network header of the packet.\<close>

definition ETH_P_IP :: u16 where [wg_defs]: "ETH_P_IP = 0x0800"
definition ETH_P_IPV6 :: u16 where [wg_defs]: "ETH_P_IPV6 = 0x86DD"

definition ip_saddr :: "bytes \<Rightarrow> bytes" where "ip_saddr h = take 4 (drop 12 h)"
definition ip_daddr :: "bytes \<Rightarrow> bytes" where "ip_daddr h = take 4 (drop 16 h)"
definition ipv6_saddr :: "bytes \<Rightarrow> bytes" where "ipv6_saddr h = take 16 (drop 8 h)"
definition ipv6_daddr :: "bytes \<Rightarrow> bytes" where "ipv6_daddr h = take 16 (drop 24 h)"

definition wg_allowedips_lookup_dst ::
  "('p allowedips \<times> ('p \<Rightarrow> bool)) list \<Rightarrow> u16 \<Rightarrow> bytes \<Rightarrow> 'p option option" where
  "wg_allowedips_lookup_dst views protocol hdr =
     (if protocol = ETH_P_IP then lookup (map (map_prod root4 id) views) (ip_daddr hdr)
      else if protocol = ETH_P_IPV6 then lookup (map (map_prod root6 id) views) (ipv6_daddr hdr)
      else Some None)"

definition wg_allowedips_lookup_src ::
  "('p allowedips \<times> ('p \<Rightarrow> bool)) list \<Rightarrow> u16 \<Rightarrow> bytes \<Rightarrow> 'p option option" where
  "wg_allowedips_lookup_src views protocol hdr =
     (if protocol = ETH_P_IP then lookup (map (map_prod root4 id) views) (ip_saddr hdr)
      else if protocol = ETH_P_IPV6 then lookup (map (map_prod root6 id) views) (ipv6_saddr hdr)
      else Some None)"

section \<open>Nodes and their entries\<close>

text \<open>
  To follow nodes through updates, every peer is tagged with the prefix length and the key bits of
  its node. The operations do not look at peers, so they commute with tagging.
\<close>

fun tag :: "('k, 'p) trie \<Rightarrow> ('k, nat \<times> 'k \<times> 'p) trie" where
  "tag Null = Null"
| "tag (Node p c k l r) = Node (map_option (\<lambda>q. (c, k, q)) p) c k (tag l) (tag r)"

definition node_at :: "('a::len word, 'p) trie \<Rightarrow> bool list \<Rightarrow> (nat \<times> 'a word \<times> 'p) option" where
  "node_at t = entries (tag t)"

definition placed_bits :: "('a::len word, 'p) trie \<Rightarrow> 'a word \<Rightarrow> nat \<Rightarrow> 'a word" where
  "placed_bits t key cidr = (case node_placement t key cidr Null of (exact, n) \<Rightarrow> if exact then node_bits n else key)"

lemma tag_eq_Null [simp]: "tag t = Null \<longleftrightarrow> t = Null"
  by (cases t) auto

lemma trie_ok_tag [simp]: "trie_ok q (tag t) = trie_ok q t"
  by (induction t arbitrary: q) auto

lemma entries_node_at: "entries t q = map_option (snd \<circ> snd) (node_at t q)"
  by (induction t q rule: entries.induct) (auto simp: node_at_def option.map_comp comp_def option.map_ident)

lemma node_at_npfx: "node_at t q = Some (c, k, p) \<Longrightarrow> q = npfx c k"
  by (induction t q rule: entries.induct) (auto simp: node_at_def split: if_splits)

lemma node_placement_parent:
  "node_placement t key cidr a = (e, n) \<Longrightarrow> \<exists>n'. node_placement t key cidr b = (e, n') \<and> (e \<longrightarrow> n' = n)"
proof (induction t key cidr a arbitrary: b rule: node_placement.induct)
  case (2 p c k l r key cidr parent)
  then show ?case by (cases "c \<le> cidr \<and> prefix_matches c k key") (auto split: if_splits)
qed simp

lemma placed_bits_below:
  assumes "c \<le> cidr" "prefix_matches c k key" "c \<noteq> cidr"
  shows "placed_bits (Node p c k l r) key cidr = placed_bits (if choose_bit c key then r else l) key cidr"
proof -
  let ?ch = "if choose_bit c key then r else l"
  have "node_placement (Node p c k l r) key cidr Null = node_placement ?ch key cidr (Node p c k l r)"
    using assms by simp
  moreover obtain e n where en: "node_placement ?ch key cidr (Node p c k l r) = (e, n)" by fastforce
  moreover obtain n' where "node_placement ?ch key cidr Null = (e, n')" "e \<longrightarrow> n' = n"
    using node_placement_parent [OF en] by blast
  ultimately show ?thesis unfolding placed_bits_def by simp
qed

lemma tag_add_at:
  "map_sum id tag (add_at a1 a2 t key cidr peer) =
     add_at a1 a2 (tag t) key cidr (cidr, placed_bits t key cidr, peer)"
proof (induction a1 a2 t key cidr peer rule: add_at.induct)
  case (1 a1 a2 key cidr peer)
  then show ?case by (simp add: placed_bits_def)
next
  case (2 a1 a2 p c k l r key cidr peer)
  consider "c \<le> cidr \<and> prefix_matches c k key" "c = cidr"
    | "c \<le> cidr \<and> prefix_matches c k key" "c \<noteq> cidr" "choose_bit c key"
    | "c \<le> cidr \<and> prefix_matches c k key" "c \<noteq> cidr" "\<not> choose_bit c key"
    | "\<not> (c \<le> cidr \<and> prefix_matches c k key)" by blast
  then show ?case
  proof cases
    case 1
    then show ?thesis by (auto simp: placed_bits_def)
  next
    case 2
    then have "placed_bits (Node p c k l r) key cidr = placed_bits r key cidr" by (simp add: placed_bits_below)
    then show ?thesis using 2 by (simp add: "2.IH"(1) [OF 2, symmetric] sum.map_comp comp_def)
  next
    case 3
    then have "placed_bits (Node p c k l r) key cidr = placed_bits l key cidr" by (simp add: placed_bits_below)
    then show ?thesis using 3 by (simp add: "2.IH"(2) [OF 3, symmetric] sum.map_comp comp_def)
  next
    case 4
    then have "placed_bits (Node p c k l r) key cidr = key" by (auto simp: placed_bits_def)
    then show ?thesis using 4 by (auto simp: connect_def Let_def)
  qed
qed

lemma tag_remove_node: "tag (remove_node t key cidr) = remove_node (tag t) key cidr"
proof (induction t key cidr rule: remove_node.induct)
  case (2 p c k l r key cidr)
  have leaf: "is_leaf_at cidr (tag t) = is_leaf_at cidr t" for cidr and t :: "('a word, 'b) trie"
    by (cases t) auto
  show ?case using 2 by (auto simp: remove_this_def leaf)
qed simp

lemma node_placement_tag: "node_placement (tag t) key cidr (tag a) = map_prod id tag (node_placement t key cidr a)"
proof (induction t key cidr a rule: node_placement.induct)
  case (2 p c k l r key cidr parent)
  then show ?case by (cases "c \<le> cidr \<and> prefix_matches c k key") auto
qed simp

lemma node_at_key:
  fixes t :: "('a::len word, 'p) trie"
  assumes "trie_ok [] t" "cidr \<le> LENGTH('a)"
  shows "npfx cidr (placed_bits t key cidr) = npfx cidr key"
    and "node_at t (npfx cidr key) = map_option (\<lambda>q. (cidr, placed_bits t key cidr, q)) (entries t (npfx cidr key))"
proof -
  obtain e n where en: "node_placement t key cidr Null = (e, n)" by fastforce
  then have "node_placement (tag t) key cidr Null = (e, tag n)"
    using node_placement_tag [of t key cidr Null] by simp
  note 1 = node_placement_entries [OF _ assms(2) this, of "[]"]
  note 2 = node_placement_entries [OF assms(1,2) en]
  show "npfx cidr (placed_bits t key cidr) = npfx cidr key"
    using 2 en by (auto simp: placed_bits_def npfx_def)
  have "node_peer (tag n) = map_option (\<lambda>q. (node_cidr n, node_bits n, q)) (node_peer n)" if "n \<noteq> Null"
    using that by (cases n) auto
  then show "node_at t (npfx cidr key) = map_option (\<lambda>q. (cidr, placed_bits t key cidr, q)) (entries t (npfx cidr key))"
    using 1 2 assms(1) en by (auto simp: placed_bits_def npfx_def node_at_def)
qed

section \<open>The invariant\<close>

definition lists_ok ::
  "(nat \<Rightarrow> 'a::len word \<Rightarrow> node_id) \<Rightarrow> ('a word, 'p) trie \<Rightarrow> ('p \<Rightarrow> node_id list) \<Rightarrow> bool" where
  "lists_ok mk t ls \<longleftrightarrow> (\<forall>p c k. mk c k \<in> set (ls p) \<longleftrightarrow> node_at t (npfx c k) = Some (c, k, p))"

definition table_ok :: "'p allowedips \<Rightarrow> bool" where
  "table_ok table \<longleftrightarrow> trie_ok [] (root4 table) \<and> trie_ok [] (root6 table) \<and>
     (\<forall>p. distinct (allowedips_list table p)) \<and>
     lists_ok N4 (root4 table) (allowedips_list table) \<and> lists_ok N6 (root6 table) (allowedips_list table)"

lemma list_move_member:
  assumes "\<forall>p. distinct (ls p)"
  shows "n \<in> set (list_move_tail_id i p ls q) \<longleftrightarrow> (if n = i then q = p else n \<in> set (ls q))"
    and "distinct (list_move_tail_id i p ls q)"
  using assms by (auto simp: list_move_tail_id_def list_add_tail_id_def list_del_id_def)

lemma list_del_member:
  assumes "\<forall>p. distinct (ls p)"
  shows "n \<in> set (list_del_id i ls q) \<longleftrightarrow> n \<noteq> i \<and> n \<in> set (ls q)" and "distinct (list_del_id i ls q)"
  using assms by (auto simp: list_del_id_def)

definition mk_inj :: "(nat \<Rightarrow> 'k \<Rightarrow> node_id) \<Rightarrow> bool" where
  "mk_inj mk \<longleftrightarrow> (\<forall>c k c' k'. mk c k = mk c' k' \<longleftrightarrow> c = c' \<and> k = k')"

lemma mk_inj_N [simp]: "mk_inj N4" "mk_inj N6"
  by (auto simp: mk_inj_def)

lemma add_lists_move:
  fixes t :: "('a::len word, 'p) trie"
  assumes "mk_inj mk" "lists_ok mk t ls" "trie_ok [] t" "cidr \<le> LENGTH('a)"
  shows "add_lists mk t key cidr p ls = list_move_tail_id (mk cidr (placed_bits t key cidr)) p ls"
proof -
  obtain e n where en: "node_placement t key cidr Null = (e, n)" by fastforce
  note place = node_placement_entries [OF assms(3,4) en]
  show ?thesis
  proof (cases e)
    case True
    then show ?thesis using en place by (simp add: add_lists_def placed_bits_def npfx_def)
  next
    case False
    then have "entries t (npfx cidr key) = None" "placed_bits t key cidr = key"
      using place en by (auto simp: npfx_def placed_bits_def)
    then have "node_at t (npfx cidr key) = None" by (simp add: entries_node_at)
    then have "mk cidr key \<notin> set (ls q)" for q using assms(1,2) by (auto simp: lists_ok_def)
    then have "list_del_id (mk cidr key) ls = ls" by (simp add: list_del_id_def remove1_idem)
    then show ?thesis
      using False en \<open>placed_bits t key cidr = key\<close> by (simp add: add_lists_def list_move_tail_id_def)
  qed
qed

lemma add_at_node_at:
  fixes t :: "('a::len word, 'p) trie"
  assumes "trie_ok [] t" "cidr \<le> LENGTH('a)" "add_at a1 a2 t key cidr p = Inr t'"
  shows "node_at t' = (node_at t)(npfx cidr key \<mapsto> (cidr, placed_bits t key cidr, p))"
proof -
  have "add_at a1 a2 (tag t) key cidr (cidr, placed_bits t key cidr, p) = Inr (tag t')"
    using tag_add_at [of a1 a2 t key cidr p] assms(3) by simp
  then show ?thesis
    using add_at_result [of "[]" "tag t" key cidr a1 a2 _ "tag t'"] assms by (auto simp: node_at_def npfx_def)
qed

lemma add_lists_ok:
  fixes t :: "('a::len word, 'p) trie"
  assumes inj: "mk_inj mk" and ls: "lists_ok mk t ls" "\<forall>p. distinct (ls p)"
    and ok: "trie_ok [] t" "cidr \<le> LENGTH('a)" and add: "add_at a1 a2 t key cidr p = Inr t'"
  shows "lists_ok mk t' (add_lists mk t key cidr p ls)"
  unfolding lists_ok_def
proof (intro allI)
  fix q c k
  let ?b = "placed_bits t key cidr"
  note key = node_at_key [OF ok, of key]
  have mem: "mk c k \<in> set (add_lists mk t key cidr p ls q) \<longleftrightarrow>
      (if c = cidr \<and> k = ?b then q = p else node_at t (npfx c k) = Some (c, k, q))"
    using inj ls by (simp add: add_lists_move [OF inj ls(1) ok] list_move_member mk_inj_def lists_ok_def)
  show "mk c k \<in> set (add_lists mk t key cidr p ls q) \<longleftrightarrow> node_at t' (npfx c k) = Some (c, k, q)"
  proof (cases "npfx c k = npfx cidr key")
    case True
    then show ?thesis using mem key by (auto simp: add_at_node_at [OF ok add])
  next
    case False
    then show ?thesis using mem key by (auto simp: add_at_node_at [OF ok add])
  qed
qed

lemma remove_node_at:
  fixes t :: "('a::len word, 'p) trie"
  assumes "trie_ok [] t" "cidr \<le> LENGTH('a)" "node_at t (npfx cidr key) \<noteq> None"
  shows "node_at (remove_node t key cidr) = (node_at t)(npfx cidr key := None)"
    and "trie_ok [] (remove_node t key cidr)"
    and "entries (remove_node t key cidr) = (entries t)(npfx cidr key := None)"
proof -
  show "node_at (remove_node t key cidr) = (node_at t)(npfx cidr key := None)"
    using remove_node_result [of "[]" "tag t" cidr key] assms by (simp add: node_at_def tag_remove_node)
  have "entries t (npfx cidr key) \<noteq> None" using assms(3) by (simp add: entries_node_at)
  then show "trie_ok [] (remove_node t key cidr)" "entries (remove_node t key cidr) = (entries t)(npfx cidr key := None)"
    using remove_node_result [OF assms(1,2)] by auto
qed

lemma del_lists_ok:
  assumes inj: "mk_inj mk" and ls: "lists_ok mk t ls" "\<forall>p. distinct (ls p)"
    and at: "node_at t (npfx c k) = Some (c, k, p)" and t': "node_at t' = (node_at t)(npfx c k := None)"
  shows "lists_ok mk t' (list_del_id (mk c k) ls)"
  unfolding lists_ok_def
proof (intro allI)
  fix q c' k'
  show "mk c' k' \<in> set (list_del_id (mk c k) ls q) \<longleftrightarrow> node_at t' (npfx c' k') = Some (c', k', q)"
    using inj ls at by (auto simp: list_del_member t' mk_inj_def lists_ok_def)
qed

text \<open>A list update that touches only nodes of one family leaves the other family's lists in order.\<close>

lemma lists_ok_frame:
  assumes "lists_ok mk t ls" "\<forall>p c k. mk c k \<in> set (ls' p) \<longleftrightarrow> mk c k \<in> set (ls p)"
  shows "lists_ok mk t ls'"
  using assms by (simp add: lists_ok_def)

lemma list_move_frame:
  assumes "\<forall>p. distinct (ls p)" "\<forall>c k. mk c k \<noteq> i"
  shows "\<forall>q c k. mk c k \<in> set (list_move_tail_id i p ls q) \<longleftrightarrow> mk c k \<in> set (ls q)"
  using assms by (simp add: list_move_member)

lemma list_del_frame:
  assumes "\<forall>p. distinct (ls p)" "\<forall>c k. mk c k \<noteq> i"
  shows "\<forall>q c k. mk c k \<in> set (list_del_id i ls q) \<longleftrightarrow> mk c k \<in> set (ls q)"
  using assms by (simp add: list_del_member)

lemma table_okD:
  assumes "table_ok table"
  shows "trie_ok [] (root4 table)" "trie_ok [] (root6 table)" "\<forall>p. distinct (allowedips_list table p)"
    "lists_ok N4 (root4 table) (allowedips_list table)" "lists_ok N6 (root6 table) (allowedips_list table)"
  using assms by (simp_all add: table_ok_def)

lemma add_InrD:
  fixes t :: "('a::len word, 'p) trie"
  assumes "add a1 a2 t key cidr peer = Inr t'"
  shows "cidr \<le> LENGTH('a)" "peer \<noteq> None" "add_at a1 a2 t key cidr (the peer) = Inr t'"
  using assms by (auto simp: add_def split: if_splits)

lemma insert_v4_Inr:
  assumes tb: "table_ok table" and ins: "wg_allowedips_insert_v4 a1 a2 table ip cidr peer = (None, table')"
  shows "table_ok table' \<and> entries (root4 table') = (entries (root4 table))(npfx cidr (swap_endian ip :: u32) := peer) \<and>
    root6 table' = root6 table"
proof -
  note ok = table_okD [OF tb]
  let ?key = "swap_endian ip :: u32"
  obtain t' where add: "add a1 a2 (root4 table) ?key cidr peer = Inr t'"
    and table': "table' = table\<lparr>tbl_seq := tbl_seq table + 1, root4 := t',
      allowedips_list := add_lists N4 (root4 table) ?key cidr (the peer) (allowedips_list table)\<rparr>"
    using ins by (auto simp: wg_allowedips_insert_v4_def Let_def split: sum.splits)
  note addD = add_InrD [OF add]
  have move: "add_lists N4 (root4 table) ?key cidr (the peer) (allowedips_list table) =
      list_move_tail_id (N4 cidr (placed_bits (root4 table) ?key cidr)) (the peer) (allowedips_list table)"
    using add_lists_move [OF mk_inj_N(1) ok(4,1) addD(1)] .
  have "lists_ok N4 t' (allowedips_list table')"
    unfolding table' using add_lists_ok [OF mk_inj_N(1) ok(4,3,1) addD(1,3)] by simp
  moreover have "lists_ok N6 (root6 table) (allowedips_list table')"
    unfolding table' using move by (simp add: lists_ok_frame [OF ok(5) list_move_frame [OF ok(3)]])
  moreover have "\<forall>p. distinct (allowedips_list table' p)"
    unfolding table' using move list_move_member(2) [OF ok(3)] by simp
  moreover have "trie_ok [] t' \<and> entries t' = (entries (root4 table))(npfx cidr ?key \<mapsto> the peer)"
    using add_at_result [OF ok(1) _ _ addD(1,3)] by (simp add: npfx_def)
  ultimately show ?thesis using ok addD(2) by (simp add: table' table_ok_def)
qed

lemma insert_v6_Inr:
  assumes tb: "table_ok table" and ins: "wg_allowedips_insert_v6 a1 a2 table ip cidr peer = (None, table')"
  shows "table_ok table' \<and> entries (root6 table') = (entries (root6 table))(npfx cidr (swap_endian ip :: 128 word) := peer) \<and>
    root4 table' = root4 table"
proof -
  note ok = table_okD [OF tb]
  let ?key = "swap_endian ip :: 128 word"
  obtain t' where add: "add a1 a2 (root6 table) ?key cidr peer = Inr t'"
    and table': "table' = table\<lparr>tbl_seq := tbl_seq table + 1, root6 := t',
      allowedips_list := add_lists N6 (root6 table) ?key cidr (the peer) (allowedips_list table)\<rparr>"
    using ins by (auto simp: wg_allowedips_insert_v6_def Let_def split: sum.splits)
  note addD = add_InrD [OF add]
  have move: "add_lists N6 (root6 table) ?key cidr (the peer) (allowedips_list table) =
      list_move_tail_id (N6 cidr (placed_bits (root6 table) ?key cidr)) (the peer) (allowedips_list table)"
    using add_lists_move [OF mk_inj_N(2) ok(5,2) addD(1)] .
  have "lists_ok N6 t' (allowedips_list table')"
    unfolding table' using add_lists_ok [OF mk_inj_N(2) ok(5,3,2) addD(1,3)] by simp
  moreover have "lists_ok N4 (root4 table) (allowedips_list table')"
    unfolding table' using move by (simp add: lists_ok_frame [OF ok(4) list_move_frame [OF ok(3)]])
  moreover have "\<forall>p. distinct (allowedips_list table' p)"
    unfolding table' using move list_move_member(2) [OF ok(3)] by simp
  moreover have "trie_ok [] t' \<and> entries t' = (entries (root6 table))(npfx cidr ?key \<mapsto> the peer)"
    using add_at_result [OF ok(2) _ _ addD(1,3)] by (simp add: npfx_def)
  ultimately show ?thesis using ok addD(2) by (simp add: table' table_ok_def)
qed

text \<open>Removing a prefix: nothing happens unless the entry exists and belongs to the given peer.\<close>

definition del_entry :: "(bool list \<Rightarrow> 'p option) \<Rightarrow> bool list \<Rightarrow> 'p \<Rightarrow> bool list \<Rightarrow> 'p option" where
  "del_entry m q p = (if m q = Some p then m(q := None) else m)"

lemma remove_Inr:
  fixes t :: "('a::len word, 'p) trie"
  assumes inj: "mk_inj mk" and ls: "lists_ok mk t ls" "\<forall>p. distinct (ls p)"
    and ok: "trie_ok [] t" "cidr \<le> LENGTH('a)" and rm: "remove t key cidr peer = Inr t'"
  shows "trie_ok [] t' \<and> entries t' = del_entry (entries t) (npfx cidr key) peer \<and>
    lists_ok mk t' (remove_lists mk t key cidr peer ls) \<and>
    remove_lists mk t key cidr peer ls \<in> insert ls {list_del_id (mk c k) ls | c k. True}"
proof -
  obtain e n where en: "node_placement t key cidr Null = (e, n)" by fastforce
  note place = node_placement_entries [OF ok en]
  show ?thesis
  proof (cases "e \<and> node_peer n = Some peer")
    case True
    then have ent: "entries t (npfx cidr key) = Some peer" and n: "node_cidr n = cidr" "node_bits n = placed_bits t key cidr"
      using place en by (auto simp: npfx_def placed_bits_def)
    let ?k = "placed_bits t key cidr"
    have at: "node_at t (npfx cidr key) = Some (cidr, ?k, peer)" using node_at_key(2) [OF ok, of key] ent by simp
    have eq: "npfx cidr ?k = npfx cidr key" by (rule node_at_key(1) [OF ok])
    have t': "t' = remove_node t key cidr" using rm ok(2) en True by (simp add: remove_def)
    have lists: "remove_lists mk t key cidr peer ls = list_del_id (mk cidr ?k) ls"
      using True en n by (simp add: remove_lists_def)
    note rem = remove_node_at [OF ok, of key]
    have "lists_ok mk t' (list_del_id (mk cidr ?k) ls)"
      using at eq rem(1) t' by (intro del_lists_ok [OF inj ls, of cidr ?k peer]) auto
    then show ?thesis
      using rem at ent lists t' by (auto simp: del_entry_def)
  next
    case False
    then have "entries t (npfx cidr key) \<noteq> Some peer" using place by (auto simp: npfx_def)
    moreover have "t' = t" "remove_lists mk t key cidr peer ls = ls"
      using False rm ok(2) en by (auto simp: remove_def remove_lists_def)
    ultimately show ?thesis using ok ls by (simp add: del_entry_def)
  qed
qed

lemma remove_InrD: "remove (t :: ('a::len word, 'p) trie) key cidr peer = Inr t' \<Longrightarrow> cidr \<le> LENGTH('a)"
  by (auto simp: remove_def split: if_splits)

lemma remove_v4_Inr:
  assumes tb: "table_ok table" and rm: "wg_allowedips_remove_v4 table ip cidr peer = (None, table')"
  shows "table_ok table' \<and> entries (root4 table') = del_entry (entries (root4 table)) (npfx cidr (swap_endian ip :: u32)) peer \<and>
    root6 table' = root6 table"
proof -
  note ok = table_okD [OF tb]
  let ?key = "swap_endian ip :: u32"
  let ?ls = "remove_lists N4 (root4 table) ?key cidr peer (allowedips_list table)"
  obtain t' where t': "remove (root4 table) ?key cidr peer = Inr t'"
    and table': "table' = table\<lparr>tbl_seq := tbl_seq table + 1, root4 := t', allowedips_list := ?ls\<rparr>"
    using rm by (auto simp: wg_allowedips_remove_v4_def Let_def split: sum.splits)
  note res = remove_Inr [OF mk_inj_N(1) ok(4,3,1) remove_InrD [OF t'] t']
  have "?ls = allowedips_list table \<or> (\<exists>c k. ?ls = list_del_id (N4 c k) (allowedips_list table))" using res by auto
  then have "lists_ok N6 (root6 table) ?ls \<and> (\<forall>p. distinct (?ls p))"
    using ok(3,5) list_del_member(2) [OF ok(3)] lists_ok_frame [OF ok(5) list_del_frame [OF ok(3)]] by auto
  then show ?thesis using res ok by (simp add: table' table_ok_def)
qed

lemma remove_v6_Inr:
  assumes tb: "table_ok table" and rm: "wg_allowedips_remove_v6 table ip cidr peer = (None, table')"
  shows "table_ok table' \<and> entries (root6 table') = del_entry (entries (root6 table)) (npfx cidr (swap_endian ip :: 128 word)) peer \<and>
    root4 table' = root4 table"
proof -
  note ok = table_okD [OF tb]
  let ?key = "swap_endian ip :: 128 word"
  let ?ls = "remove_lists N6 (root6 table) ?key cidr peer (allowedips_list table)"
  obtain t' where t': "remove (root6 table) ?key cidr peer = Inr t'"
    and table': "table' = table\<lparr>tbl_seq := tbl_seq table + 1, root6 := t', allowedips_list := ?ls\<rparr>"
    using rm by (auto simp: wg_allowedips_remove_v6_def Let_def split: sum.splits)
  note res = remove_Inr [OF mk_inj_N(2) ok(5,3,2) remove_InrD [OF t'] t']
  have "?ls = allowedips_list table \<or> (\<exists>c k. ?ls = list_del_id (N6 c k) (allowedips_list table))" using res by auto
  then have "lists_ok N4 (root4 table) ?ls \<and> (\<forall>p. distinct (?ls p))"
    using ok(3,4) list_del_member(2) [OF ok(3)] lists_ok_frame [OF ok(4) list_del_frame [OF ok(3)]] by auto
  then show ?thesis using res ok by (simp add: table' table_ok_def)
qed

section \<open>Removing a peer\<close>

definition without_peer :: "(bool list \<Rightarrow> 'p option) \<Rightarrow> 'p \<Rightarrow> bool list \<Rightarrow> 'p option" where
  "without_peer m p = (\<lambda>q. if m q = Some p then None else m q)"

text \<open>The second map has lost nothing but entries of the peer.\<close>

definition dropped :: "'p \<Rightarrow> (bool list \<Rightarrow> 'p option) \<Rightarrow> (bool list \<Rightarrow> 'p option) \<Rightarrow> bool" where
  "dropped p m m' \<longleftrightarrow> (\<forall>q. m' q = m q \<or> m q = Some p \<and> m' q = None)"

lemma dropped_trans: "dropped p a b \<Longrightarrow> dropped p b c \<Longrightarrow> dropped p a c"
  unfolding dropped_def by (intro allI, metis)

lemma dropped_refl [simp]: "dropped p m m"
  by (simp add: dropped_def)

lemma dropped_all: "dropped p m m' \<Longrightarrow> \<forall>q. m' q \<noteq> Some p \<Longrightarrow> m' = without_peer m p"
  unfolding dropped_def without_peer_def fun_eq_iff by (simp, metis)

lemma node_at_cidr: "trie_ok q t \<Longrightarrow> node_at t x = Some (c, k, p) \<Longrightarrow> c \<le> LENGTH('a)"
  for t :: "('a::len word, 'p) trie"
proof (induction t x arbitrary: q rule: entries.induct)
  case (2 p' c' k' l r x)
  then show ?case
    unfolding node_at_def by (auto split: if_splits)
qed (simp add: node_at_def)

lemma remove_id_step:
  assumes tb: "table_ok table" and i: "i \<in> set (allowedips_list table p)"
  shows "table_ok (remove_id i table) \<and> allowedips_list (remove_id i table) p = remove1 i (allowedips_list table p) \<and>
    dropped p (entries (root4 table)) (entries (root4 (remove_id i table))) \<and>
    dropped p (entries (root6 table)) (entries (root6 (remove_id i table)))"
proof -
  note ok = table_okD [OF tb]
  show ?thesis
  proof (cases i)
    case (N4 c k)
    then have at: "node_at (root4 table) (npfx c k) = Some (c, k, p)" using ok(4) i by (auto simp: lists_ok_def)
    note rem = remove_node_at [OF ok(1) node_at_cidr [OF ok(1) at], of k, unfolded at, simplified]
    have "lists_ok N4 (root4 (remove_id i table)) (allowedips_list (remove_id i table))"
      using del_lists_ok [OF mk_inj_N(1) ok(4,3) at] rem(1) N4 by simp
    moreover have "lists_ok N6 (root6 table) (allowedips_list (remove_id i table))"
      using N4 by (simp add: lists_ok_frame [OF ok(5) list_del_frame [OF ok(3)]])
    moreover have "entries (root4 table) (npfx c k) = Some p" using at by (simp add: entries_node_at)
    ultimately show ?thesis
      using N4 ok rem list_del_member(2) [OF ok(3)] by (auto simp: table_ok_def dropped_def list_del_id_def)
  next
    case (N6 c k)
    then have at: "node_at (root6 table) (npfx c k) = Some (c, k, p)" using ok(5) i by (auto simp: lists_ok_def)
    note rem = remove_node_at [OF ok(2) node_at_cidr [OF ok(2) at], of k, unfolded at, simplified]
    have "lists_ok N6 (root6 (remove_id i table)) (allowedips_list (remove_id i table))"
      using del_lists_ok [OF mk_inj_N(2) ok(5,3) at] rem(1) N6 by simp
    moreover have "lists_ok N4 (root4 table) (allowedips_list (remove_id i table))"
      using N6 by (simp add: lists_ok_frame [OF ok(4) list_del_frame [OF ok(3)]])
    moreover have "entries (root6 table) (npfx c k) = Some p" using at by (simp add: entries_node_at)
    ultimately show ?thesis
      using N6 ok rem list_del_member(2) [OF ok(3)] by (auto simp: table_ok_def dropped_def list_del_id_def)
  qed
qed

lemma remove_ids:
  assumes "table_ok table" "allowedips_list table p = ids"
  shows "table_ok (fold remove_id ids table) \<and> allowedips_list (fold remove_id ids table) p = [] \<and>
    dropped p (entries (root4 table)) (entries (root4 (fold remove_id ids table))) \<and>
    dropped p (entries (root6 table)) (entries (root6 (fold remove_id ids table)))"
  using assms
proof (induction ids arbitrary: table)
  case (Cons i ids)
  have "i \<in> set (allowedips_list table p)" using Cons.prems by simp
  note step = remove_id_step [OF Cons.prems(1) this]
  then have "allowedips_list (remove_id i table) p = ids" using Cons.prems by simp
  with step show ?case using Cons.IH [of "remove_id i table"] by (auto intro: dropped_trans)
qed simp

lemma no_list_no_entry:
  assumes "table_ok table" "allowedips_list table p = []"
  shows "entries (root4 table) q \<noteq> Some p" "entries (root6 table) q \<noteq> Some p"
proof -
  note ok = table_okD [OF assms(1)]
  show "entries (root4 table) q \<noteq> Some p"
  proof
    assume "entries (root4 table) q = Some p"
    then obtain c k where at: "node_at (root4 table) q = Some (c, k, p)" by (auto simp: entries_node_at)
    then have "q = npfx c k" by (rule node_at_npfx)
    then have "N4 c k \<in> set (allowedips_list table p)" using ok(4) at by (simp add: lists_ok_def)
    then show False using assms(2) by simp
  qed
  show "entries (root6 table) q \<noteq> Some p"
  proof
    assume "entries (root6 table) q = Some p"
    then obtain c k where at: "node_at (root6 table) q = Some (c, k, p)" by (auto simp: entries_node_at)
    then have "q = npfx c k" by (rule node_at_npfx)
    then have "N6 c k \<in> set (allowedips_list table p)" using ok(5) at by (simp add: lists_ok_def)
    then show False using assms(2) by simp
  qed
qed

lemma remove_by_peer_result:
  assumes "table_ok table"
  shows "table_ok (wg_allowedips_remove_by_peer table p) \<and>
    allowedips_list (wg_allowedips_remove_by_peer table p) p = [] \<and>
    entries (root4 (wg_allowedips_remove_by_peer table p)) = without_peer (entries (root4 table)) p \<and>
    entries (root6 (wg_allowedips_remove_by_peer table p)) = without_peer (entries (root6 table)) p"
proof -
  let ?t = "table\<lparr>tbl_seq := tbl_seq table + 1\<rparr>" and ?r = "wg_allowedips_remove_by_peer table p"
  have "table_ok ?t" using assms by (simp add: table_ok_def)
  then have r: "table_ok ?r \<and> allowedips_list ?r p = [] \<and> dropped p (entries (root4 table)) (entries (root4 ?r)) \<and>
      dropped p (entries (root6 table)) (entries (root6 ?r))"
    using remove_ids [of ?t p "allowedips_list table p"] assms by (simp add: wg_allowedips_remove_by_peer_def)
  have "entries (root4 ?r) = without_peer (entries (root4 table)) p"
    using r no_list_no_entry(1) [of ?r p] by (intro dropped_all) auto
  moreover have "entries (root6 ?r) = without_peer (entries (root6 table)) p"
    using r no_list_no_entry(2) [of ?r p] by (intro dropped_all) auto
  ultimately show ?thesis using r by simp
qed

end
