(* ===== verification/Allowedips_Spec.thy ===== *)
theory Allowedips_Spec
  imports Allowedips_Table
begin

text \<open>
  What the allowed-IPs table promises: the walk over the nodes visits all of them and fits its
  fixed-size stack, an address that is read back denotes the prefix that was inserted, lookups are
  longest-prefix match, and the updates are updates of a map from prefixes to peers.
\<close>

section \<open>The walk over the nodes\<close>

fun stack_ok :: "('a::len word, 'p) trie list \<Rightarrow> bool" where
  "stack_ok [] = True"
| "stack_ok (t # s) \<longleftrightarrow> t \<noteq> Null \<and> (\<exists>q. trie_ok q t \<and> length s \<le> length q) \<and> stack_ok s"

lemma stack_ok_push:
  "stack_ok s \<Longrightarrow> trie_ok q t \<Longrightarrow> length s \<le> length q \<Longrightarrow> stack_ok (push_rcu t s)"
  by (auto simp: push_rcu_def)

lemma stack_ok_next:
  fixes k :: "'a::len word"
  assumes "stack_ok (Node p c k l r # s)"
  shows "length s \<le> LENGTH('a)" "stack_ok (push_rcu r (push_rcu l s))"
proof -
  obtain q where q: "trie_ok q (Node p c k l r)" "length s \<le> length q" and s: "stack_ok s" using assms by auto
  then have c: "length s \<le> c" "c \<le> LENGTH('a)" and l: "trie_ok (npfx c k @ [False]) l"
    and r: "trie_ok (npfx c k @ [True]) r" by auto
  then show "length s \<le> LENGTH('a)" by simp
  have "stack_ok (push_rcu l s)" using c by (intro stack_ok_push [OF s l]) (simp add: length_npfx)
  moreover have "length (push_rcu l s) \<le> length (npfx c k @ [True])"
    using c by (simp add: push_rcu_def length_npfx)
  ultimately show "stack_ok (push_rcu r (push_rcu l s))" by (rule stack_ok_push [OF _ r])
qed

lemma walk_height: "stack_ok s \<Longrightarrow> snd (walk s) \<le> Suc LENGTH('a)" for s :: "('a::len word, 'p) trie list"
proof (induction s rule: walk.induct)
  case (3 p c k l r stack)
  then show ?case
    using stack_ok_next [OF 3(2)] by (auto simp: split_def Let_def)
qed auto

fun subtries :: "('k, 'p) trie \<Rightarrow> ('k, 'p) trie set" where
  "subtries Null = {}"
| "subtries (Node p c k l r) = insert (Node p c k l r) (subtries l \<union> subtries r)"

lemma subtries_push: "\<Union> (subtries ` set (push_rcu t s)) = subtries t \<union> \<Union> (subtries ` set s)"
  by (cases t) (auto simp: push_rcu_def)

lemma walk_visits: "Null \<notin> set s \<Longrightarrow> set (fst (walk s)) = \<Union> (subtries ` set s)"
proof (induction s rule: walk.induct)
  case (3 p c k l r stack)
  have "Null \<notin> set (push_rcu r (push_rcu l stack))" using 3(2) by (auto simp: push_rcu_def)
  then have "set (fst (walk (push_rcu r (push_rcu l stack)))) = subtries r \<union> subtries l \<union> \<Union> (subtries ` set stack)"
    using 3(1) by (simp add: subtries_push Un_assoc)
  then show ?case by (auto simp: split_def Let_def)
qed auto

lemma node_at_subtrie:
  "node_at t q = Some (c, k, p) \<Longrightarrow> \<exists>n \<in> subtries t. node_cidr n = c \<and> node_bits n = k \<and> node_peer n = Some p"
proof (induction t q rule: entries.induct)
  case (2 p' c' k' l r q)
  show ?case
  proof (cases "q = npfx c' k'")
    case True
    then show ?thesis using 2(3) by (auto simp: node_at_def)
  next
    case False
    then have "node_at r q = Some (c, k, p) \<or> node_at l q = Some (c, k, p)"
      using 2(3) by (auto simp: node_at_def split: if_splits)
    then show ?thesis using 2 False by (auto simp: node_at_def split: if_splits)
  qed
qed (simp add: node_at_def)

lemma fold_list_del:
  assumes "\<forall>p. distinct (ls p)"
  shows "\<forall>p. distinct (fold (\<lambda>n ls. if P n then list_del_id (f n) ls else ls) ns ls p) \<and>
    set (fold (\<lambda>n ls. if P n then list_del_id (f n) ls else ls) ns ls p) = set (ls p) - f ` {n \<in> set ns. P n}"
  using assms
proof (induction ns arbitrary: ls)
  case (Cons n ns)
  then show ?case
    using Cons.IH [of "list_del_id (f n) ls"] by (auto simp: list_del_member)
qed simp

lemma root_remove_lists:
  assumes "\<forall>p. distinct (ls p)" "t \<noteq> Null"
  shows "\<forall>p. distinct (root_remove_peer_lists mk t ls p) \<and>
    set (root_remove_peer_lists mk t ls p) =
      set (ls p) - (\<lambda>n. mk (node_cidr n) (node_bits n)) ` {n \<in> subtries t. node_peer n \<noteq> None}"
  using fold_list_del [OF assms(1), of "\<lambda>n. node_peer n \<noteq> None" _ "fst (walk [t])"] walk_visits [of "[t]"] assms(2)
  by (simp add: root_remove_peer_lists_def)

lemma free_lists_empty:
  assumes tb: "table_ok table"
  shows "allowedips_list (wg_allowedips_free table) p = []"
proof -
  note ok = table_okD [OF tb]
  define ls4 where "ls4 = (if root4 table = Null then allowedips_list table
    else root_remove_peer_lists N4 (root4 table) (allowedips_list table))"
  define ls6 where "ls6 = (if root6 table = Null then ls4 else root_remove_peer_lists N6 (root6 table) ls4)"
  have d4: "\<forall>p. distinct (ls4 p)" and sub4: "set (ls4 p) \<subseteq> set (allowedips_list table p)"
    and no4: "N4 c k \<notin> set (ls4 p)" for c k
  proof -
    show "\<forall>p. distinct (ls4 p)" "set (ls4 p) \<subseteq> set (allowedips_list table p)"
      using ok(3) root_remove_lists [OF ok(3), of "root4 table" N4] by (auto simp: ls4_def)
    show "N4 c k \<notin> set (ls4 p)"
    proof
      assume mem: "N4 c k \<in> set (ls4 p)"
      then have at: "node_at (root4 table) (npfx c k) = Some (c, k, p)"
        using ok(4) \<open>set (ls4 p) \<subseteq> _\<close> by (auto simp: lists_ok_def)
      then obtain n where "n \<in> subtries (root4 table)" "node_cidr n = c" "node_bits n = k" "node_peer n = Some p"
        using node_at_subtrie [OF at] by blast
      moreover from this have "root4 table \<noteq> Null" by auto
      ultimately show False
        using mem root_remove_lists [OF ok(3), of "root4 table" N4] by (force simp: ls4_def)
    qed
  qed
  have sub6: "set (ls6 p) \<subseteq> set (ls4 p)" using root_remove_lists [OF d4, of "root6 table" N6] by (auto simp: ls6_def)
  have "N6 c k \<notin> set (ls6 p)" for c k
  proof
    assume mem: "N6 c k \<in> set (ls6 p)"
    then have at: "node_at (root6 table) (npfx c k) = Some (c, k, p)"
      using ok(5) sub4 sub6 by (auto simp: lists_ok_def)
    then obtain n where "n \<in> subtries (root6 table)" "node_cidr n = c" "node_bits n = k" "node_peer n = Some p"
      using node_at_subtrie [OF at] by blast
    moreover from this have "root6 table \<noteq> Null" by auto
    ultimately show False
      using mem root_remove_lists [OF d4, of "root6 table" N6] by (force simp: ls6_def)
  qed
  moreover have "N4 c k \<notin> set (ls6 p)" for c k using no4 sub6 by auto
  ultimately have no: "x \<notin> set (ls6 p)" for x by (cases x) auto
  have "set (ls6 p) = {}" using no by (simp add: subset_empty [symmetric] subset_iff del: subset_empty)
  moreover have "allowedips_list (wg_allowedips_free table) = ls6"
    unfolding ls6_def ls4_def wg_allowedips_free_def Let_def by simp
  ultimately show ?thesis by simp
qed

section \<open>Reading a node back\<close>

text \<open>Bit \<open>i\<close> of an address in network order, counted from its first bit.\<close>

definition addr_bit :: "bytes \<Rightarrow> nat \<Rightarrow> bool" where
  "addr_bit bs i = bit (bs ! (i div 8)) (7 - i mod 8)"

lemma kbits_swap_endian:
  assumes "LENGTH('a) = 8 * length bs" "i < LENGTH('a::len)"
  shows "kbits (swap_endian bs :: 'a word) ! i = addr_bit bs i"
proof -
  obtain d m where dm: "i div 8 = d" "i mod 8 = m" "i = 8 * d + m" "m < 8" by (rule div_mod_8)
  let ?n = "length bs" and ?j = "LENGTH('a) - 1 - i"
  have j: "?j = 8 * (?n - 1 - d) + (7 - m)" and d: "d < ?n" using assms dm(3,4) by linarith+
  have jd: "?j div 8 = ?n - 1 - d" and jm: "?j mod 8 = 7 - m" unfolding j by simp_all
  have "kbits (swap_endian bs :: 'a word) ! i = bit (le_word (rev bs) :: 'a word) ?j"
    using assms by (simp add: kbits_def swap_endian_def)
  also have "\<dots> = bit (rev bs ! (?n - 1 - d)) (7 - m)"
    using assms d unfolding bit_le_word jd jm by (simp, linarith)
  also have "rev bs ! (?n - 1 - d) = bs ! d" using d by (simp add: rev_nth)
  finally show ?thesis by (simp add: addr_bit_def dm)
qed

lemma length_read_ip:
  assumes "cidr \<le> 8 * n" shows "length (read_ip n w cidr) = n"
proof -
  have "(cidr + 7) div 8 \<le> n" using assms by auto
  then show ?thesis by (simp add: read_ip_def Let_def)
qed

lemma addr_bit_be:
  assumes "LENGTH('a) = 8 * n" "i < 8 * n"
  shows "addr_bit (rev (le_bytes n (w :: 'a::len word))) i = kbits w ! i"
proof -
  have "swap_endian (rev (le_bytes n w)) = w" using le_word_bytes [OF assms(1), of w] by (simp add: swap_endian_def)
  then show ?thesis using kbits_swap_endian [of "rev (le_bytes n w)" i, where 'a = 'a] assms by simp
qed

text \<open>The bytes kept, the byte masked and the bytes cleared leave exactly the bits of the prefix.\<close>

lemma addr_bit_read_ip:
  assumes len: "LENGTH('a) = 8 * n" and c: "cidr \<le> 8 * n" and i: "i < 8 * n"
  shows "addr_bit (read_ip n (w :: 'a::len word) cidr) i \<longleftrightarrow> i < cidr \<and> kbits w ! i"
proof -
  let ?cb = "(cidr + 7) div 8" and ?ip = "rev (le_bytes n w)"
  let ?ip1 = "take ?cb ?ip @ replicate (n - ?cb) 0"
  obtain d m where dm: "i div 8 = d" "i mod 8 = m" "i = 8 * d + m" "m < 8" by (rule div_mod_8)
  obtain e k where ek: "(cidr + 7) div 8 = e" "(cidr + 7) mod 8 = k" "cidr + 7 = 8 * e + k" "k < 8" by (rule div_mod_8)
  have d: "d < n" and e: "e \<le> n" using i c dm ek by linarith+
  have ip1: "?ip1 ! d = (if d < e then ?ip ! d else 0)" using d e ek by (simp add: nth_append)
  have be: "bit (?ip ! d) (7 - m) = kbits w ! i" using addr_bit_be [OF len i, of w] by (simp add: addr_bit_def dm)
  show ?thesis
  proof (cases "d = e - 1 \<and> cidr \<noteq> 0")
    case True
    then have e0: "0 < e" and de: "d < e" using ek by linarith+
    have sh: "(8 - cidr mod 8) mod 8 = 7 - k"
    proof (cases "k = 7")
      case True
      then have "cidr = 8 * e" using ek(3) by linarith
      then show ?thesis using True by simp
    next
      case False
      then have "cidr = 8 * (e - 1) + (k + 1)" "k + 1 < 8" using ek(3,4) e0 by linarith+
      then have "cidr mod 8 = k + 1" by (metis mod_less mod_mult_self4)
      then show ?thesis using \<open>k + 1 < 8\<close> by simp
    qed
    have "read_ip n w cidr ! d = ?ip ! d AND push_bit (7 - k) (- 1)"
      using True e0 de d e ek(1) ip1 unfolding read_ip_def Let_def sh ek(1) by simp
    moreover have "bit (push_bit (7 - k) (- 1) :: u8) (7 - m) \<longleftrightarrow> 7 - k \<le> 7 - m"
      using dm(4) by (auto simp: bit_simps not_less)
    moreover have "7 - k \<le> 7 - m \<longleftrightarrow> i < cidr" using True e0 dm(3,4) ek(3,4) by auto
    ultimately show ?thesis using be by (auto simp: addr_bit_def dm bit_and_iff)
  next
    case False
    then have "read_ip n w cidr ! d = ?ip1 ! d" using ek by (auto simp: read_ip_def Let_def)
    moreover have "d < e \<longleftrightarrow> i < cidr" using False dm(3,4) ek(3,4) by auto
    ultimately show ?thesis using be ip1 by (auto simp: addr_bit_def dm)
  qed
qed

end

