(* ===== verification/Allowedips_Naive.thy ===== *)
theory Allowedips_Naive
  imports Allowedips_Spec
begin

text \<open>
  The reference implementation of the module's randomised self-test
  (\<^verbatim>\<open>selftest/allowedips.c\<close>): one list of masked addresses, kept in the order of decreasing prefix
  length, searched from the front. An address or mask is four 32-bit words; the words are read in
  network order, which the bitwise operations and comparisons of the code do not notice.
\<close>

section \<open>The list\<close>

record 'v horrible_node =
  h_ip :: "u32 list"
  h_mask :: "u32 list"
  h_version :: family
  h_value :: 'v

definition be32s :: "bytes \<Rightarrow> u32 list" where
  "be32s bs = map (\<lambda>i. swap_endian (take 4 (drop (4 * i) bs))) [0..<length bs div 4]"

definition horrible_cidr_to_mask :: "nat \<Rightarrow> u32 list" where
  "horrible_cidr_to_mask cidr =
     (let mask = be32s (replicate (cidr div 8) 0xff @ replicate (16 - cidr div 8) 0) in
      if cidr mod 32 \<noteq> 0 then mask[cidr div 32 := push_bit (32 - cidr mod 32) 0xFFFFFFFF] else mask)"

definition hweight32 :: "u32 \<Rightarrow> nat" where
  "hweight32 w = length (filter (bit w) [0..<32])"

definition horrible_mask_to_cidr :: "u32 list \<Rightarrow> nat" where
  "horrible_mask_to_cidr subnet = hweight32 (subnet ! 0) + hweight32 (subnet ! 1) +
     hweight32 (subnet ! 2) + hweight32 (subnet ! 3)"

definition horrible_mask_self :: "'v horrible_node \<Rightarrow> 'v horrible_node" where
  "horrible_mask_self n =
     (case h_version n of
        AF_INET \<Rightarrow> n\<lparr>h_ip := (h_ip n)[0 := h_ip n ! 0 AND h_mask n ! 0]\<rparr>
      | AF_INET6 \<Rightarrow> n\<lparr>h_ip := map (\<lambda>i. h_ip n ! i AND h_mask n ! i) [0..<4]\<rparr>)"

definition horrible_match_v4 :: "'v horrible_node \<Rightarrow> u32 list \<Rightarrow> bool" where
  "horrible_match_v4 n ip \<longleftrightarrow> ip ! 0 AND h_mask n ! 0 = h_ip n ! 0"

definition horrible_match_v6 :: "'v horrible_node \<Rightarrow> u32 list \<Rightarrow> bool" where
  "horrible_match_v6 n ip \<longleftrightarrow> ip ! 0 AND h_mask n ! 0 = h_ip n ! 0 \<and> ip ! 1 AND h_mask n ! 1 = h_ip n ! 1 \<and>
     ip ! 2 AND h_mask n ! 2 = h_ip n ! 2 \<and> ip ! 3 AND h_mask n ! 3 = h_ip n ! 3"

definition same_key :: "'v horrible_node \<Rightarrow> 'v horrible_node \<Rightarrow> bool" where
  "same_key a b \<longleftrightarrow> h_version a = h_version b \<and> h_mask a = h_mask b \<and> h_ip a = h_ip b"

fun set_value :: "'v horrible_node \<Rightarrow> 'v horrible_node list \<Rightarrow> 'v horrible_node list option" where
  "set_value node [] = None"
| "set_value node (other # rest) =
     (if same_key other node then Some (other\<lparr>h_value := h_value node\<rparr> # rest)
      else map_option (\<lambda>r. other # r) (set_value node rest))"

fun place :: "nat \<Rightarrow> 'v horrible_node \<Rightarrow> 'v horrible_node list \<Rightarrow> 'v horrible_node list" where
  "place my_cidr node [] = [node]"
| "place my_cidr node (other # rest) =
     (if horrible_mask_to_cidr (h_mask other) \<le> my_cidr then node # other # rest
      else other # place my_cidr node rest)"

definition horrible_insert_ordered :: "'v horrible_node \<Rightarrow> 'v horrible_node list \<Rightarrow> 'v horrible_node list" where
  "horrible_insert_ordered node table =
     (case set_value node table of
        Some table' \<Rightarrow> table'
      | None \<Rightarrow> place (horrible_mask_to_cidr (h_mask node)) node table)"

text \<open>The flag says whether the allocation of the node succeeds.\<close>

definition horrible_allowedips_insert_v4 ::
  "bool \<Rightarrow> 'v horrible_node list \<Rightarrow> bytes \<Rightarrow> nat \<Rightarrow> 'v \<Rightarrow> errno option \<times> 'v horrible_node list" where
  "horrible_allowedips_insert_v4 a table ip cidr value =
     (if \<not> a then (Some ENOMEM, table)
      else (None, horrible_insert_ordered (horrible_mask_self
        \<lparr>h_ip = be32s ip @ [0, 0, 0], h_mask = horrible_cidr_to_mask cidr, h_version = AF_INET, h_value = value\<rparr>) table))"

definition horrible_allowedips_insert_v6 ::
  "bool \<Rightarrow> 'v horrible_node list \<Rightarrow> bytes \<Rightarrow> nat \<Rightarrow> 'v \<Rightarrow> errno option \<times> 'v horrible_node list" where
  "horrible_allowedips_insert_v6 a table ip cidr value =
     (if \<not> a then (Some ENOMEM, table)
      else (None, horrible_insert_ordered (horrible_mask_self
        \<lparr>h_ip = be32s ip, h_mask = horrible_cidr_to_mask cidr, h_version = AF_INET6, h_value = value\<rparr>) table))"

definition horrible_allowedips_lookup_v4 :: "'v horrible_node list \<Rightarrow> bytes \<Rightarrow> 'v option" where
  "horrible_allowedips_lookup_v4 table ip =
     map_option h_value (find (\<lambda>n. h_version n = AF_INET \<and> horrible_match_v4 n (be32s ip)) table)"

definition horrible_allowedips_lookup_v6 :: "'v horrible_node list \<Rightarrow> bytes \<Rightarrow> 'v option" where
  "horrible_allowedips_lookup_v6 table ip =
     map_option h_value (find (\<lambda>n. h_version n = AF_INET6 \<and> horrible_match_v6 n (be32s ip)) table)"

definition horrible_allowedips_remove_by_value :: "'v horrible_node list \<Rightarrow> 'v \<Rightarrow> 'v horrible_node list" where
  "horrible_allowedips_remove_by_value table value = filter (\<lambda>n. h_value n \<noteq> value) table"

section \<open>Masks\<close>

definition wbit :: "u32 list \<Rightarrow> nat \<Rightarrow> bool" where
  "wbit ws i = bit (ws ! (i div 32)) (31 - i mod 32)"

lemma length_be32s [simp]: "length (be32s bs) = length bs div 4"
  by (simp add: be32s_def)

lemma div_mod_32: obtains d m where "i div 32 = d" "i mod 32 = m" "i = 32 * d + m" "m < (32::nat)"
  using div_mult_mod_eq [of i 32] by (metis mod_less_divisor mult.commute zero_less_numeral)

lemma wbit_be32s:
  assumes "length bs = 4 * n" "i < 32 * n"
  shows "wbit (be32s bs) i = addr_bit bs i"
proof -
  obtain d m where dm: "i div 32 = d" "i mod 32 = m" "i = 32 * d + m" "m < 32" by (rule div_mod_32)
  have d: "d < n" using assms dm by linarith
  let ?w = "take 4 (drop (4 * d) bs)"
  have "4 * d + 4 \<le> length bs" using assms(1) d by linarith
  then have len: "length ?w = 4" by simp
  have "wbit (be32s bs) i = bit (swap_endian ?w :: u32) (31 - m)"
    using assms(1) d by (simp add: wbit_def dm(1,2) be32s_def)
  also have "\<dots> = kbits (swap_endian ?w :: u32) ! m" using dm(4) by (simp add: kbits_def)
  also have "\<dots> = addr_bit ?w m" using kbits_swap_endian [of ?w m, where 'a = 32] len dm(4) by simp
  also have "\<dots> = addr_bit bs i"
  proof -
    have "m div 8 < 4" using dm(4) by auto
    moreover have "i = m + 8 * (4 * d)" using dm(3) by simp
    then have "i div 8 = 4 * d + m div 8" "i mod 8 = m mod 8"
      by (simp_all only: div_mult_self2 mod_mult_self2)
    ultimately show ?thesis using assms(1) d by (simp add: addr_bit_def)
  qed
  finally show ?thesis .
qed

lemma length_cidr_to_mask [simp]: "cidr \<le> 128 \<Longrightarrow> length (horrible_cidr_to_mask cidr) = 4"
  by (auto simp: horrible_cidr_to_mask_def Let_def)

lemma wbit_mask:
  assumes c: "cidr \<le> 128" and i: "i < 128"
  shows "wbit (horrible_cidr_to_mask cidr) i \<longleftrightarrow> i < cidr"
proof -
  let ?bs = "replicate (cidr div 8) 0xff @ replicate (16 - cidr div 8) (0::u8)"
  obtain d m where dm: "i div 32 = d" "i mod 32 = m" "i = 32 * d + m" "m < 32" by (rule div_mod_32)
  obtain e k where ek: "cidr div 32 = e" "cidr mod 32 = k" "cidr = 32 * e + k" "k < 32" by (rule div_mod_32)
  have len: "length ?bs = 4 * 4" using c by auto
  have l4: "length (be32s ?bs) = 4" using len by simp
  have base: "wbit (be32s ?bs) i \<longleftrightarrow> i div 8 < cidr div 8"
  proof -
    have "i div 8 < 16" using i by auto
    moreover have "bit (0xff :: u8) j" if "j < 8" for j
    proof -
      have "(0xff :: u8) = - 1" by simp
      then show ?thesis using that by (simp only: bit_minus_1_iff) simp
    qed
    ultimately show ?thesis using wbit_be32s [OF len, of i] i by (auto simp: addr_bit_def nth_append)
  qed
  show ?thesis
  proof (cases "k \<noteq> 0 \<and> d = e")
    case True
    have "(0xFFFFFFFF :: u32) = - 1" by simp
    moreover have "d < length (be32s ?bs)" using l4 dm(3) i by simp
    then have "horrible_cidr_to_mask cidr ! d = push_bit (32 - k) 0xFFFFFFFF"
      using True unfolding horrible_cidr_to_mask_def Let_def ek(1,2) by simp
    ultimately have "horrible_cidr_to_mask cidr ! d = push_bit (32 - k) (- 1)" by metis
    then have "wbit (horrible_cidr_to_mask cidr) i \<longleftrightarrow> 32 - k \<le> 31 - m"
      using dm(4) by (auto simp: wbit_def dm(1,2) bit_simps not_less)
    also have "\<dots> \<longleftrightarrow> i < cidr" using True dm(3,4) ek(3,4) by auto
    finally show ?thesis .
  next
    case False
    then have "horrible_cidr_to_mask cidr ! d = be32s ?bs ! d"
      using ek(1,2) by (auto simp: horrible_cidr_to_mask_def Let_def)
    then have "wbit (horrible_cidr_to_mask cidr) i \<longleftrightarrow> i div 8 < cidr div 8"
      using base by (simp add: wbit_def dm(1))
    also have "\<dots> \<longleftrightarrow> i < cidr"
    proof (cases "d < e")
      case True
      then have "32 * d + 32 \<le> 32 * e" by simp
      then have "i div 8 < 4 * e" "4 * e \<le> cidr div 8" "i < cidr" using dm(3,4) ek(3) by auto
      then show ?thesis by simp
    next
      case nlt: False
      then have "cidr \<le> i" using False dm(3) ek(3,4) by (cases "d = e") auto
      then show ?thesis using div_le_mono [of cidr i 8] by auto
    qed
    finally show ?thesis .
  qed
qed

lemma hweight_count:
  assumes "\<And>b. b < 32 \<Longrightarrow> bit w (31 - b) \<longleftrightarrow> b < n"
  shows "hweight32 w = min 32 n"
proof -
  have "{j. j < 32 \<and> bit w j} = (\<lambda>b. 31 - b) ` {..<min 32 n}"
  proof safe
    fix j :: nat assume "j < 32" "bit w j"
    then have "31 - j < min 32 n" "j = 31 - (31 - j)" using assms [of "31 - j"] by auto
    then show "j \<in> (\<lambda>b. 31 - b) ` {..<min 32 n}" by blast
  qed (use assms in auto)
  moreover have "inj_on (\<lambda>b. 31 - b) {..<min 32 n}" by (auto simp: inj_on_def)
  ultimately have "card {j. j < 32 \<and> bit w j} = min 32 n" by (simp add: card_image)
  moreover have "hweight32 w = card {j. j < 32 \<and> bit w j}"
    using distinct_card [of "filter (bit w) [0..<32]"] by (simp add: hweight32_def set_filter Collect_conj_eq [symmetric])
  ultimately show ?thesis by simp
qed

lemma mask_cidr_roundtrip: "cidr \<le> 128 \<Longrightarrow> horrible_mask_to_cidr (horrible_cidr_to_mask cidr) = cidr"
proof -
  assume c: "cidr \<le> 128"
  have w: "hweight32 (horrible_cidr_to_mask cidr ! d) = min 32 (cidr - 32 * d)" if d: "d < 4" for d
  proof (rule hweight_count)
    fix b :: nat assume b: "b < 32"
    have "(32 * d + b) div 32 = d" "(32 * d + b) mod 32 = b" "32 * d + b < 128" using b d by auto
    then have "bit (horrible_cidr_to_mask cidr ! d) (31 - b) \<longleftrightarrow> 32 * d + b < cidr"
      using wbit_mask [OF c, of "32 * d + b"] by (simp add: wbit_def)
    then show "bit (horrible_cidr_to_mask cidr ! d) (31 - b) \<longleftrightarrow> b < cidr - 32 * d" by auto
  qed
  have "horrible_mask_to_cidr (horrible_cidr_to_mask cidr) =
      min 32 cidr + min 32 (cidr - 32) + min 32 (cidr - 64) + min 32 (cidr - 96)"
    using w [of 0] w [of 1] w [of 2] w [of 3] by (simp add: horrible_mask_to_cidr_def)
  then show ?thesis using c by linarith
qed

section \<open>Nodes as prefixes\<close>

definition flen :: "family \<Rightarrow> nat" where
  "flen f = (case f of AF_INET \<Rightarrow> 32 | AF_INET6 \<Rightarrow> 128)"

definition h_cidr :: "'v horrible_node \<Rightarrow> nat" where
  "h_cidr n = horrible_mask_to_cidr (h_mask n)"

definition h_prefix :: "'v horrible_node \<Rightarrow> bool list" where
  "h_prefix n = map (wbit (h_ip n)) [0..<h_cidr n]"

text \<open>A node holds a mask and an address with no bit outside of it.\<close>

definition h_node_ok :: "'v horrible_node \<Rightarrow> bool" where
  "h_node_ok n \<longleftrightarrow> (\<exists>c \<le> flen (h_version n). h_mask n = horrible_cidr_to_mask c) \<and> length (h_ip n) = 4 \<and>
     (\<forall>i < 128. wbit (h_ip n) i \<longrightarrow> i < h_cidr n)"

lemma flen_le: "flen f \<le> 128"
  by (cases f) (simp_all add: flen_def)

lemma h_node_okD:
  assumes "h_node_ok n"
  shows "h_cidr n \<le> flen (h_version n)" "h_cidr n \<le> 128" "h_mask n = horrible_cidr_to_mask (h_cidr n)"
    "length (h_ip n) = 4" "\<And>i. i < 128 \<Longrightarrow> wbit (h_ip n) i \<Longrightarrow> i < h_cidr n"
proof -
  obtain c where c: "c \<le> flen (h_version n)" "h_mask n = horrible_cidr_to_mask c" using assms by (auto simp: h_node_ok_def)
  then have "h_cidr n = c" using flen_le [of "h_version n"] by (simp add: h_cidr_def mask_cidr_roundtrip)
  then show "h_cidr n \<le> flen (h_version n)" "h_cidr n \<le> 128" "h_mask n = horrible_cidr_to_mask (h_cidr n)"
    using c flen_le [of "h_version n"] by auto
qed (use assms in \<open>auto simp: h_node_ok_def\<close>)

lemma words_eqI:
  assumes "length a = 4" "length b = 4" "\<And>i. i < 128 \<Longrightarrow> wbit a i = wbit b i"
  shows "a = b"
proof (rule nth_equalityI)
  fix j assume j: "j < length a"
  show "a ! j = b ! j"
  proof (rule bit_word_eqI)
    fix k :: nat assume k: "k < LENGTH(32)"
    have "(32 * j + (31 - k)) div 32 = j" "(32 * j + (31 - k)) mod 32 = 31 - k" "31 - (31 - k) = k"
      using k div_mult_self4 [of 32 j "31 - k"] mod_mult_self4 [of 32 j "31 - k"] by simp_all
    moreover have "32 * j + (31 - k) < 128" using j assms(1) by simp
    ultimately show "bit (a ! j) k = bit (b ! j) k" using assms(3) [of "32 * j + (31 - k)"] by (simp add: wbit_def)
  qed
qed (use assms in simp)

lemma same_key_iff:
  assumes "h_node_ok a" "h_node_ok b"
  shows "same_key a b \<longleftrightarrow> h_version a = h_version b \<and> h_prefix a = h_prefix b"
proof
  assume r: "h_version a = h_version b \<and> h_prefix a = h_prefix b"
  have "length (h_prefix a) = length (h_prefix b)" using r by simp
  then have c: "h_cidr a = h_cidr b" by (simp add: h_prefix_def)
  have "h_ip a = h_ip b"
  proof (rule words_eqI)
    fix i :: nat assume i: "i < 128"
    show "wbit (h_ip a) i = wbit (h_ip b) i"
    proof (cases "i < h_cidr a")
      case True
      then have "h_prefix a ! i = wbit (h_ip a) i" "h_prefix b ! i = wbit (h_ip b) i" using c by (simp_all add: h_prefix_def)
      then show ?thesis using r by simp
    next
      case False
      then show ?thesis using h_node_okD(5) [OF assms(1) i] h_node_okD(5) [OF assms(2) i] c by auto
    qed
  qed (use assms h_node_okD(4) in auto)
  then show "same_key a b" using r c h_node_okD(3) [OF assms(1)] h_node_okD(3) [OF assms(2)] by (simp add: same_key_def)
qed (simp add: same_key_def h_prefix_def h_cidr_def)

definition abits :: "family \<Rightarrow> bytes \<Rightarrow> bool list" where
  "abits f ip = map (addr_bit ip) [0..<flen f]"

definition addr_ok :: "family \<Rightarrow> bytes \<Rightarrow> bool" where
  "addr_ok f ip \<longleftrightarrow> 8 * length ip = flen f"

lemma words_and_iff:
  assumes "j < 4"
  shows "a ! j AND b ! j = c ! j \<longleftrightarrow> (\<forall>i. i div 32 = j \<longrightarrow> (wbit a i \<and> wbit b i) = wbit c i)"
proof
  assume r: "\<forall>i. i div 32 = j \<longrightarrow> (wbit a i \<and> wbit b i) = wbit c i"
  show "a ! j AND b ! j = c ! j"
  proof (rule bit_word_eqI)
    fix k :: nat assume k: "k < LENGTH(32)"
    have "(32 * j + (31 - k)) div 32 = j" "(32 * j + (31 - k)) mod 32 = 31 - k" "31 - (31 - k) = k"
      using k div_mult_self4 [of 32 j "31 - k"] mod_mult_self4 [of 32 j "31 - k"] by simp_all
    then show "bit (a ! j AND b ! j) k = bit (c ! j) k"
      using r [rule_format, of "32 * j + (31 - k)"] by (simp add: wbit_def bit_and_iff)
  qed
next
  assume "a ! j AND b ! j = c ! j"
  then have "bit (a ! j) k \<and> bit (b ! j) k \<longleftrightarrow> bit (c ! j) k" for k by (metis bit_and_iff)
  then show "\<forall>i. i div 32 = j \<longrightarrow> (wbit a i \<and> wbit b i) = wbit c i" by (simp add: wbit_def)
qed

lemma prefix_map_eq:
  assumes "c \<le> n"
  shows "map f [0..<c] = take c (map g [0..<n]) \<longleftrightarrow> (\<forall>i < c. f i = g i)"
  using assms by (simp add: take_map list_eq_iff_nth_eq)

lemma match_bits:
  assumes ok: "h_node_ok n" and f: "h_version n = f" and ip: "addr_ok f ip" and m: "m \<le> 128" "flen f \<le> m"
  shows "(\<forall>i < m. (wbit (be32s ip @ [0, 0, 0]) i \<and> wbit (h_mask n) i) = wbit (h_ip n) i) \<longleftrightarrow>
    h_prefix n = take (h_cidr n) (abits f ip)"
proof -
  note okD = h_node_okD [OF ok]
  have w: "wbit (be32s ip @ [0, 0, 0]) i = addr_bit ip i" if "i < flen f" for i
  proof -
    have l: "length ip = 4 * (flen f div 32)" using ip by (cases f) (auto simp: addr_ok_def flen_def)
    have i: "i < 32 * (flen f div 32)" using that by (cases f) (auto simp: flen_def)
    then have "i div 32 < length (be32s ip)" using l by auto
    then have "wbit (be32s ip @ [0, 0, 0]) i = wbit (be32s ip) i" by (simp add: wbit_def nth_append)
    then show ?thesis using wbit_be32s [OF l i] by simp
  qed
  have mask: "wbit (h_mask n) i \<longleftrightarrow> i < h_cidr n" if "i < 128" for i
    using wbit_mask [OF okD(2) that] okD(3) by simp
  have "(\<forall>i < m. (wbit (be32s ip @ [0, 0, 0]) i \<and> wbit (h_mask n) i) = wbit (h_ip n) i) \<longleftrightarrow>
      (\<forall>i < h_cidr n. wbit (h_ip n) i = addr_bit ip i)"
  proof (rule iffI; intro allI impI)
    fix i assume A: "\<forall>i < m. (wbit (be32s ip @ [0, 0, 0]) i \<and> wbit (h_mask n) i) = wbit (h_ip n) i" and i: "i < h_cidr n"
    have "h_cidr n \<le> flen f" using okD(1) f by simp
    then have "i < flen f" "i < 128" "i < m" using okD(2) m i by linarith+
    then show "wbit (h_ip n) i = addr_bit ip i" using A mask w i by auto
  next
    fix i assume A: "\<forall>i < h_cidr n. wbit (h_ip n) i = addr_bit ip i" and i: "i < m"
    have i128: "i < 128" using i m by linarith
    show "(wbit (be32s ip @ [0, 0, 0]) i \<and> wbit (h_mask n) i) = wbit (h_ip n) i"
    proof (cases "i < h_cidr n")
      case True
      then have "i < flen f" using okD(1) f by simp
      then show ?thesis using A True w mask [OF i128] by simp
    next
      case False
      then show ?thesis using okD(5) [OF i128] mask [OF i128] by auto
    qed
  qed
  also have "\<dots> \<longleftrightarrow> h_prefix n = take (h_cidr n) (abits f ip)"
    unfolding h_prefix_def abits_def using okD(1) f by (simp add: prefix_map_eq)
  finally show ?thesis .
qed

lemma less_4_iff: "(\<forall>j < 4. P j) \<longleftrightarrow> P 0 \<and> P 1 \<and> P 2 \<and> P (3::nat)"
  by (auto simp: numeral_eq_Suc less_Suc_eq)

lemma match_v4:
  assumes "h_node_ok n" "h_version n = AF_INET" "addr_ok AF_INET ip"
  shows "horrible_match_v4 n (be32s ip) \<longleftrightarrow> h_prefix n = take (h_cidr n) (abits AF_INET ip)"
proof -
  have l: "length (be32s ip) = 1" using assms(3) by (auto simp: addr_ok_def flen_def)
  have "horrible_match_v4 n (be32s ip) \<longleftrightarrow> (be32s ip @ [0, 0, 0]) ! 0 AND h_mask n ! 0 = h_ip n ! 0"
    using l by (simp add: horrible_match_v4_def nth_append)
  also have "\<dots> \<longleftrightarrow> (\<forall>i < 32. (wbit (be32s ip @ [0, 0, 0]) i \<and> wbit (h_mask n) i) = wbit (h_ip n) i)"
    by (subst words_and_iff) (auto simp: div_eq_0_iff)
  also have "\<dots> \<longleftrightarrow> h_prefix n = take (h_cidr n) (abits AF_INET ip)"
    using match_bits [OF assms, of 32] by (simp add: flen_def)
  finally show ?thesis .
qed

lemma match_v6:
  assumes "h_node_ok n" "h_version n = AF_INET6" "addr_ok AF_INET6 ip"
  shows "horrible_match_v6 n (be32s ip) \<longleftrightarrow> h_prefix n = take (h_cidr n) (abits AF_INET6 ip)"
proof -
  have l: "length (be32s ip) = 4" using assms(3) by (auto simp: addr_ok_def flen_def)
  have "horrible_match_v6 n (be32s ip) \<longleftrightarrow>
      (\<forall>j < 4. (be32s ip @ [0, 0, 0]) ! j AND h_mask n ! j = h_ip n ! j)"
    using l by (simp add: horrible_match_v6_def less_4_iff nth_append)
  also have "\<dots> \<longleftrightarrow> (\<forall>j < 4. \<forall>i. i div 32 = j \<longrightarrow> (wbit (be32s ip @ [0, 0, 0]) i \<and> wbit (h_mask n) i) = wbit (h_ip n) i)"
    by (auto simp: words_and_iff)
  also have "\<dots> \<longleftrightarrow> (\<forall>i < 128. (wbit (be32s ip @ [0, 0, 0]) i \<and> wbit (h_mask n) i) = wbit (h_ip n) i)"
  proof -
    have "i div 32 < 4 \<longleftrightarrow> i < 128" for i :: nat by auto
    then show ?thesis by metis
  qed
  also have "\<dots> \<longleftrightarrow> h_prefix n = take (h_cidr n) (abits AF_INET6 ip)"
    using match_bits [OF assms, of 128] by (simp add: flen_def)
  finally show ?thesis .
qed

section \<open>The list as a map from prefixes\<close>

definition h_key :: "'v horrible_node \<Rightarrow> family \<times> bool list" where
  "h_key n = (h_version n, h_prefix n)"

definition h_map :: "'v horrible_node list \<Rightarrow> family \<times> bool list \<Rightarrow> 'v option" where
  "h_map table = map_of (map (\<lambda>n. (h_key n, h_value n)) table)"

definition h_ent :: "'v horrible_node list \<Rightarrow> family \<Rightarrow> bool list \<Rightarrow> 'v option" where
  "h_ent table f q = h_map table (f, q)"

definition h_table_ok :: "'v horrible_node list \<Rightarrow> bool" where
  "h_table_ok table \<longleftrightarrow> (\<forall>n \<in> set table. h_node_ok n) \<and> distinct (map h_key table) \<and>
     sorted_wrt (\<lambda>a b. b \<le> a) (map h_cidr table)"

lemma h_map_Nil [simp]: "h_map [] = Map.empty"
  by (simp add: h_map_def)

lemma h_map_Cons [simp]: "h_map (n # t) = (h_map t)(h_key n \<mapsto> h_value n)"
  by (simp add: h_map_def)

lemma h_ent_update:
  "h_map t' = (h_map t)(h_key n \<mapsto> v) \<Longrightarrow>
     h_ent t' = (h_ent t)(h_version n := (h_ent t (h_version n))(h_prefix n \<mapsto> v))"
  by (auto simp: h_ent_def h_key_def fun_eq_iff)

lemma set_value_result:
  assumes "\<forall>n \<in> set table. h_node_ok n" "h_node_ok node" "set_value node table = Some table'"
  shows "(\<forall>n \<in> set table'. h_node_ok n) \<and> map h_key table' = map h_key table \<and>
    map h_cidr table' = map h_cidr table \<and> h_map table' = (h_map table)(h_key node \<mapsto> h_value node)"
  using assms
proof (induction table arbitrary: table')
  case (Cons o' rest)
  have upd: "h_key (o'\<lparr>h_value := v\<rparr>) = h_key o'" "h_cidr (o'\<lparr>h_value := v\<rparr>) = h_cidr o'"
    "h_node_ok (o'\<lparr>h_value := v\<rparr>) = h_node_ok o'" for v
    by (simp_all add: h_key_def h_cidr_def h_prefix_def h_node_ok_def)
  have same: "same_key o' node \<longleftrightarrow> h_key o' = h_key node"
    using Cons.prems same_key_iff [of o' node] by (auto simp: h_key_def)
  show ?case
  proof (cases "same_key o' node")
    case True
    then have "table' = o'\<lparr>h_value := h_value node\<rparr> # rest" using Cons.prems by simp
    then show ?thesis using Cons.prems True same by (simp add: upd cong: if_cong)
  next
    case False
    then obtain r where r: "set_value node rest = Some r" "table' = o' # r" using Cons.prems by auto
    have "\<forall>n \<in> set rest. h_node_ok n" using Cons.prems(1) by simp
    note IH = Cons.IH [OF this Cons.prems(2) r(1)]
    then have "h_map r = (h_map rest)(h_key node \<mapsto> h_value node)" by blast
    then have "h_map table' = (h_map (o' # rest))(h_key node \<mapsto> h_value node)"
      unfolding r(2) h_map_Cons using False same by (simp only: fun_upd_twist not_False_eq_True)
    moreover have "(\<forall>n \<in> set table'. h_node_ok n) \<and> map h_key table' = map h_key (o' # rest) \<and>
        map h_cidr table' = map h_cidr (o' # rest)"
      using IH r(2) Cons.prems(1) by simp
    ultimately show ?thesis by blast
  qed
qed simp

lemma set_value_None:
  assumes "\<forall>n \<in> set table. h_node_ok n" "h_node_ok node" "set_value node table = None"
  shows "h_key node \<notin> set (map h_key table)"
  using assms
proof (induction table)
  case (Cons o' rest)
  then show ?case using same_key_iff [of o' node] by (auto simp: h_key_def split: if_splits)
qed simp

lemma place_set: "set (place c node table) = insert node (set table)"
  by (induction table) auto

lemma place_sorted:
  "sorted_wrt (\<lambda>a b. b \<le> a) (map h_cidr table) \<Longrightarrow>
     sorted_wrt (\<lambda>a b. b \<le> a) (map h_cidr (place (h_cidr node) node table))"
  by (induction table) (auto simp: place_set h_cidr_def [symmetric])

lemma place_distinct:
  "h_key node \<notin> set (map h_key table) \<Longrightarrow> distinct (map h_key table) \<Longrightarrow> distinct (map h_key (place c node table))"
  by (induction table) (auto simp: place_set)

lemma place_map:
  assumes "h_key node \<notin> set (map h_key table)"
  shows "h_map (place c node table) = (h_map table)(h_key node \<mapsto> h_value node)"
  using assms by (induction table) (auto simp: fun_upd_twist)

lemma insert_ordered_result:
  assumes ok: "h_table_ok table" and node: "h_node_ok node"
  shows "h_table_ok (horrible_insert_ordered node table) \<and>
    h_ent (horrible_insert_ordered node table) =
      (h_ent table)(h_version node := (h_ent table (h_version node))(h_prefix node \<mapsto> h_value node))"
proof -
  have nodes: "\<forall>n \<in> set table. h_node_ok n" using ok by (simp add: h_table_ok_def)
  show ?thesis
  proof (cases "set_value node table")
    case None
    note new = set_value_None [OF nodes node None]
    have "horrible_insert_ordered node table = place (h_cidr node) node table"
      using None by (simp add: horrible_insert_ordered_def h_cidr_def)
    moreover have "h_table_ok (place (h_cidr node) node table)"
      using ok node place_sorted [of table node] place_distinct [OF new] by (simp add: h_table_ok_def place_set)
    ultimately show ?thesis using h_ent_update [OF place_map [OF new]] by simp
  next
    case (Some table')
    note res = set_value_result [OF nodes node Some]
    then have "h_table_ok table'" using ok by (simp add: h_table_ok_def)
    then show ?thesis using res Some h_ent_update [of table' table node] by (simp add: horrible_insert_ordered_def)
  qed
qed

lemma new_node_ok:
  fixes v :: 'v
  assumes "addr_ok f ip" "cidr \<le> flen f"
  defines "n \<equiv> horrible_mask_self \<lparr>h_ip = take 4 (be32s ip @ [0, 0, 0]), h_mask = horrible_cidr_to_mask cidr,
    h_version = f, h_value = v\<rparr>"
  shows "h_node_ok n" "h_version n = f" "h_value n = v" "h_prefix n = take cidr (abits f ip)"
proof -
  define w where "w = take 4 (be32s ip @ [0, 0, 0])"
  let ?m = "horrible_cidr_to_mask cidr"
  have c: "cidr \<le> 128" using assms(2) flen_le [of f] by simp
  have l: "length ip = 4 * (flen f div 32)" using assms(1) by (cases f) (auto simp: addr_ok_def flen_def)
  have w4: "length w = 4" using l by (cases f) (simp_all add: flen_def w_def)
  have nth: "j < 4 \<Longrightarrow> w ! j = (be32s ip @ [0, 0, 0]) ! j" for j by (simp add: w_def del: take_append)
  have low: "wbit w i = addr_bit ip i" if "i < flen f" for i
  proof -
    have i: "i < 32 * (flen f div 32)" using that by (cases f) (auto simp: flen_def)
    then have "i div 32 < length (be32s ip)" "i div 32 < 4" using l flen_le [of f] by auto
    then have "wbit w i = wbit (be32s ip) i" by (simp add: wbit_def nth nth_append)
    then show ?thesis using wbit_be32s [OF l i] by simp
  qed
  have high: "\<not> wbit w i" if "f = AF_INET" "32 \<le> i" "i < 128" for i
  proof -
    have "length (be32s ip) = 1" using l that(1) by (simp add: flen_def)
    moreover have "i div 32 \<in> {1, 2, 3}" using that(2,3) by auto
    ultimately show ?thesis by (auto simp: wbit_def nth nth_append)
  qed
  have ip: "wbit (h_ip n) i \<longleftrightarrow> i < cidr \<and> addr_bit ip i" if i: "i < 128" for i
  proof (cases f)
    case AF_INET
    show ?thesis
    proof (cases "i < 32")
      case True
      then have "i div 32 = 0" "i < flen f" using AF_INET by (auto simp: flen_def)
      then have "wbit (h_ip n) i \<longleftrightarrow> wbit w i \<and> wbit ?m i"
        using AF_INET w4 unfolding n_def horrible_mask_self_def w_def [symmetric] by (simp add: wbit_def bit_and_iff)
      then show ?thesis using wbit_mask [OF c i] low [OF \<open>i < flen f\<close>] by auto
    next
      case False
      then have "i div 32 \<noteq> 0" "\<not> i < cidr" using AF_INET assms(2) by (auto simp: flen_def)
      then have "wbit (h_ip n) i = wbit w i"
        using AF_INET unfolding n_def horrible_mask_self_def w_def [symmetric] by (simp add: wbit_def)
      then show ?thesis using high [OF AF_INET _ i] False \<open>\<not> i < cidr\<close> by simp
    qed
  next
    case AF_INET6
    have "i div 32 < 4" "i < flen f" using i AF_INET6 by (auto simp: flen_def)
    then have "wbit (h_ip n) i \<longleftrightarrow> wbit w i \<and> wbit ?m i"
      using AF_INET6 unfolding n_def horrible_mask_self_def w_def [symmetric] by (simp add: wbit_def bit_and_iff)
    then show ?thesis using wbit_mask [OF c i] low [OF \<open>i < flen f\<close>] by auto
  qed
  have proj: "h_mask n = ?m" "h_version n = f" "h_value n = v" "length (h_ip n) = 4"
    using w4 unfolding n_def horrible_mask_self_def w_def [symmetric] by (simp_all split: family.split)
  then show "h_version n = f" "h_value n = v" by simp_all
  have cidr: "h_cidr n = cidr" using proj(1) mask_cidr_roundtrip [OF c] by (simp add: h_cidr_def)
  show "h_node_ok n" unfolding h_node_ok_def using proj assms(2) ip cidr by auto
  have "\<forall>i < cidr. wbit (h_ip n) i = addr_bit ip i" using ip c by auto
  then show "h_prefix n = take cidr (abits f ip)"
    unfolding h_prefix_def cidr abits_def using assms(2) by (simp add: prefix_map_eq)
qed

lemma filter_ok: "h_table_ok table \<Longrightarrow> h_table_ok (filter P table)"
  unfolding h_table_ok_def
  by (auto simp: sorted_wrt_map distinct_map inj_on_def intro: sorted_wrt_filter)

lemma h_map_filter:
  assumes "distinct (map h_key table)"
  shows "h_map (filter (\<lambda>n. h_value n \<noteq> v) table) k = (if h_map table k = Some v then None else h_map table k)"
  using assms
proof (induction table)
  case (Cons n table)
  have "h_map table (h_key n) = None" using Cons.prems by (simp add: h_map_def map_of_eq_None_iff image_image)
  then show ?case using Cons by auto
qed simp

lemma remove_by_value_result:
  assumes "h_table_ok table"
  shows "h_table_ok (horrible_allowedips_remove_by_value table v) \<and>
    h_ent (horrible_allowedips_remove_by_value table v) = (\<lambda>f. without_peer (h_ent table f) v)"
proof -
  have "distinct (map h_key table)" using assms by (simp add: h_table_ok_def)
  then show ?thesis
    using filter_ok [OF assms] unfolding horrible_allowedips_remove_by_value_def
    by (auto simp: h_ent_def without_peer_def fun_eq_iff h_map_filter)
qed

section \<open>Lookup in the list\<close>

lemma lpm_upto_Some:
  "n \<le> N \<Longrightarrow> m (take n bs) = Some v \<Longrightarrow> \<forall>k. n < k \<longrightarrow> k \<le> N \<longrightarrow> m (take k bs) = None \<Longrightarrow> lpm_upto m bs N = Some v"
proof (induction N)
  case (Suc N)
  then show ?case by (cases "n = Suc N") auto
qed simp

lemma lpm_upto_None: "\<forall>k \<le> N. m (take k bs) = None \<Longrightarrow> lpm_upto m bs N = None"
  by (induction N) (use le_Suc_eq in auto)

lemma h_map_Some:
  assumes "distinct (map h_key table)"
  shows "h_map table k = Some v \<longleftrightarrow> (\<exists>n \<in> set table. h_key n = k \<and> h_value n = v)"
  unfolding h_map_def using assms by (subst map_of_eq_Some_iff) (auto simp: comp_def)

lemma find_lpm:
  assumes ok: "h_table_ok table" and len: "length bs = flen f"
  shows "map_option h_value (find (\<lambda>n. h_version n = f \<and> h_prefix n = take (h_cidr n) bs) table) = lpm (h_ent table f) bs"
    (is "map_option _ (find ?P table) = _")
proof -
  have dist: "distinct (map h_key table)" and nodes: "\<forall>n \<in> set table. h_node_ok n"
    and sorted: "sorted_wrt (\<lambda>a b. b \<le> a) (map h_cidr table)" using ok by (auto simp: h_table_ok_def)
  have len_pfx: "length (h_prefix n) = h_cidr n" for n :: "'a horrible_node" by (simp add: h_prefix_def)
  have hit: "?P n \<and> h_cidr n = k" if "n \<in> set table" "h_key n = (f, take k bs)" "k \<le> length bs" for n k
    using that len_pfx [of n] by (auto simp: h_key_def)
  show ?thesis
  proof (cases "find ?P table")
    case None
    have "h_ent table f (take k bs) = None" if "k \<le> length bs" for k
    proof (rule ccontr)
      assume "h_ent table f (take k bs) \<noteq> None"
      then obtain n where "n \<in> set table" "h_key n = (f, take k bs)"
        by (auto simp: h_ent_def h_map_Some [OF dist])
      then show False using hit that None by (fastforce simp: find_None_iff)
    qed
    then show ?thesis using None lpm_upto_None [of "length bs" "h_ent table f" bs] by (simp add: lpm_def)
  next
    case (Some n)
    then obtain i where i: "i < length table" "?P n" "n = table ! i" "\<And>j. j < i \<Longrightarrow> \<not> ?P (table ! j)"
      by (auto simp: find_Some_iff)
    have n: "n \<in> set table" using i by simp
    have c: "h_cidr n \<le> length bs" using h_node_okD(1) [of n] nodes n i(2) len by auto
    have at: "h_ent table f (take (h_cidr n) bs) = Some (h_value n)"
      using n i(2) by (auto simp: h_ent_def h_map_Some [OF dist] h_key_def intro!: bexI [of _ n])
    have above: "h_ent table f (take k bs) = None" if k: "h_cidr n < k" "k \<le> length bs" for k
    proof (rule ccontr)
      assume "h_ent table f (take k bs) \<noteq> None"
      then obtain n' where n': "n' \<in> set table" "h_key n' = (f, take k bs)"
        by (auto simp: h_ent_def h_map_Some [OF dist])
      note h = hit [OF n' k(2)]
      obtain j where j: "j < length table" "n' = table ! j" using n'(1) by (auto simp: in_set_conv_nth)
      have "\<not> j < i" using i(4) [of j] h j(2) by blast
      then have "i \<le> j" by simp
      then have "h_cidr n' \<le> h_cidr n"
        using sorted i j unfolding sorted_wrt_map sorted_wrt_iff_nth_less by (cases "i = j") auto
      then show False using h k by simp
    qed
    then show ?thesis using Some lpm_upto_Some [OF c, of "h_ent table f"] at by (simp add: lpm_def)
  qed
qed

lemma lookup_v4_lpm:
  assumes "h_table_ok table" "addr_ok AF_INET ip"
  shows "horrible_allowedips_lookup_v4 table ip = lpm (h_ent table AF_INET) (abits AF_INET ip)"
proof -
  have "find (\<lambda>n. h_version n = AF_INET \<and> horrible_match_v4 n (be32s ip)) table =
      find (\<lambda>n. h_version n = AF_INET \<and> h_prefix n = take (h_cidr n) (abits AF_INET ip)) table"
    using assms match_v4 by (intro find_cong) (auto simp: h_table_ok_def)
  then show ?thesis
    using find_lpm [OF assms(1), of "abits AF_INET ip" AF_INET] by (simp add: horrible_allowedips_lookup_v4_def abits_def)
qed

lemma lookup_v6_lpm:
  assumes "h_table_ok table" "addr_ok AF_INET6 ip"
  shows "horrible_allowedips_lookup_v6 table ip = lpm (h_ent table AF_INET6) (abits AF_INET6 ip)"
proof -
  have "find (\<lambda>n. h_version n = AF_INET6 \<and> horrible_match_v6 n (be32s ip)) table =
      find (\<lambda>n. h_version n = AF_INET6 \<and> h_prefix n = take (h_cidr n) (abits AF_INET6 ip)) table"
    using assms match_v6 by (intro find_cong) (auto simp: h_table_ok_def)
  then show ?thesis
    using find_lpm [OF assms(1), of "abits AF_INET6 ip" AF_INET6] by (simp add: horrible_allowedips_lookup_v6_def abits_def)
qed

section \<open>The interface that both tables implement\<close>

text \<open>
  The updates that the self-test applies to both tables, the maps from prefixes they stand for, and
  what an implementation promises: every update is the update of the map, and a lookup is
  longest-prefix match in it.
\<close>

datatype 'p table_op = Insert family bytes nat 'p | Remove_peer 'p

fun op_ok :: "'p table_op \<Rightarrow> bool" where
  "op_ok (Insert f ip cidr p) \<longleftrightarrow> addr_ok f ip \<and> cidr \<le> flen f"
| "op_ok (Remove_peer p) \<longleftrightarrow> True"

fun spec_op :: "'p table_op \<Rightarrow> (family \<Rightarrow> bool list \<Rightarrow> 'p option) \<Rightarrow> family \<Rightarrow> bool list \<Rightarrow> 'p option" where
  "spec_op (Insert f ip cidr p) m = m(f := (m f)(take cidr (abits f ip) \<mapsto> p))"
| "spec_op (Remove_peer p) m = (\<lambda>f. without_peer (m f) p)"

locale lpm_table =
  fixes table_inv :: "'t \<Rightarrow> bool" and ent :: "'t \<Rightarrow> family \<Rightarrow> bool list \<Rightarrow> 'p option"
    and apply_op :: "'p table_op \<Rightarrow> 't \<Rightarrow> 't" and find_peer :: "'t \<Rightarrow> family \<Rightarrow> bytes \<Rightarrow> 'p option"
  assumes update: "table_inv t \<Longrightarrow> op_ok opn \<Longrightarrow> table_inv (apply_op opn t) \<and> ent (apply_op opn t) = spec_op opn (ent t)"
    and find_peer: "table_inv t \<Longrightarrow> addr_ok f ip \<Longrightarrow> find_peer t f ip = lpm (ent t f) (abits f ip)"
begin

lemma run_ops:
  "table_inv t \<Longrightarrow> \<forall>opn \<in> set ops. op_ok opn \<Longrightarrow>
     table_inv (fold apply_op ops t) \<and> ent (fold apply_op ops t) = fold spec_op ops (ent t)"
  by (induction ops arbitrary: t) (simp_all add: update)

lemma run_find:
  assumes "table_inv t" "\<forall>opn \<in> set ops. op_ok opn" "addr_ok f ip"
  shows "find_peer (fold apply_op ops t) f ip = lpm (fold spec_op ops (ent t) f) (abits f ip)"
  using run_ops [OF assms(1,2)] find_peer [OF _ assms(3)] by simp

end

text \<open>The tries, with allocations that succeed and peers that are alive.\<close>

fun trie_apply :: "'p table_op \<Rightarrow> 'p allowedips \<Rightarrow> 'p allowedips" where
  "trie_apply (Insert AF_INET ip cidr p) t = snd (wg_allowedips_insert_v4 True True t ip cidr (Some p))"
| "trie_apply (Insert AF_INET6 ip cidr p) t = snd (wg_allowedips_insert_v6 True True t ip cidr (Some p))"
| "trie_apply (Remove_peer p) t = wg_allowedips_remove_by_peer t p"

fun trie_find :: "'p allowedips \<Rightarrow> family \<Rightarrow> bytes \<Rightarrow> 'p option" where
  "trie_find t AF_INET ip = the (lookup [(root4 t, \<lambda>_. True)] ip)"
| "trie_find t AF_INET6 ip = the (lookup [(root6 t, \<lambda>_. True)] ip)"

definition trie_ent :: "'p allowedips \<Rightarrow> family \<Rightarrow> bool list \<Rightarrow> 'p option" where
  "trie_ent t = (\<lambda>f. case f of AF_INET \<Rightarrow> entries (root4 t) | AF_INET6 \<Rightarrow> entries (root6 t))"

fun naive_apply :: "'p table_op \<Rightarrow> 'p horrible_node list \<Rightarrow> 'p horrible_node list" where
  "naive_apply (Insert AF_INET ip cidr p) t = snd (horrible_allowedips_insert_v4 True t ip cidr p)"
| "naive_apply (Insert AF_INET6 ip cidr p) t = snd (horrible_allowedips_insert_v6 True t ip cidr p)"
| "naive_apply (Remove_peer p) t = horrible_allowedips_remove_by_value t p"

fun naive_find :: "'p horrible_node list \<Rightarrow> family \<Rightarrow> bytes \<Rightarrow> 'p option" where
  "naive_find t AF_INET ip = horrible_allowedips_lookup_v4 t ip"
| "naive_find t AF_INET6 ip = horrible_allowedips_lookup_v6 t ip"

lemma kbits_abits: "addr_ok AF_INET ip \<Longrightarrow> kbits (swap_endian ip :: u32) = abits AF_INET ip"
  "addr_ok AF_INET6 ip \<Longrightarrow> kbits (swap_endian ip :: 128 word) = abits AF_INET6 ip"
  using kbits_swap_endian [of ip, where 'a = 32] kbits_swap_endian [of ip, where 'a = 128]
  by (auto simp: addr_ok_def flen_def abits_def intro!: nth_equalityI)

lemma add_succeeds: "cidr \<le> LENGTH('a) \<Longrightarrow> \<exists>t'. add True True t key cidr (Some p) = Inr t'"
  for t :: "('a::len word, 'p) trie"
proof -
  have "\<exists>t'. add_at True True t key cidr p = Inr t'" for p
    by (induction "True" "True" t key cidr p rule: add_at.induct) (auto simp: Let_def split: prod.splits)
  then show "cidr \<le> LENGTH('a) \<Longrightarrow> ?thesis" by (simp add: add_def)
qed

lemma find_lookup: "the (lookup [(t, \<lambda>_. True)] ip) = find_node t (swap_endian ip) None"
  by (simp split: option.split)

interpretation trie_table: lpm_table table_ok trie_ent trie_apply trie_find
proof unfold_locales
  fix t :: "'p allowedips" and opn :: "'p table_op"
  assume t: "table_ok t" and opn: "op_ok opn"
  show "table_ok (trie_apply opn t) \<and> trie_ent (trie_apply opn t) = spec_op opn (trie_ent t)"
  proof (cases opn)
    case (Insert f ip cidr p)
    then have ip: "addr_ok f ip" "cidr \<le> flen f" using opn by auto
    show ?thesis
    proof (cases f)
      case AF_INET
      obtain t' where "add True True (root4 t) (swap_endian ip) cidr (Some p) = Inr t'"
        using add_succeeds [of cidr "root4 t" "swap_endian ip" p] ip(2) AF_INET by (auto simp: flen_def)
      then have "fst (wg_allowedips_insert_v4 True True t ip cidr (Some p)) = None"
        by (simp add: wg_allowedips_insert_v4_def Let_def)
      then have "wg_allowedips_insert_v4 True True t ip cidr (Some p) = (None, trie_apply opn t)"
        using Insert AF_INET by (simp add: prod_eq_iff)
      from insert_v4_Inr [OF t this] show ?thesis
        using Insert AF_INET ip kbits_abits(1) [of ip]
        by (auto simp: trie_ent_def npfx_def fun_eq_iff split: family.split)
    next
      case AF_INET6
      obtain t' where "add True True (root6 t) (swap_endian ip) cidr (Some p) = Inr t'"
        using add_succeeds [of cidr "root6 t" "swap_endian ip" p] ip(2) AF_INET6 by (auto simp: flen_def)
      then have "fst (wg_allowedips_insert_v6 True True t ip cidr (Some p)) = None"
        by (simp add: wg_allowedips_insert_v6_def Let_def)
      then have "wg_allowedips_insert_v6 True True t ip cidr (Some p) = (None, trie_apply opn t)"
        using Insert AF_INET6 by (simp add: prod_eq_iff)
      from insert_v6_Inr [OF t this] show ?thesis
        using Insert AF_INET6 ip kbits_abits(2) [of ip]
        by (auto simp: trie_ent_def npfx_def fun_eq_iff split: family.split)
    qed
  next
    case (Remove_peer p)
    then show ?thesis using remove_by_peer_result [OF t, of p] by (auto simp: trie_ent_def fun_eq_iff split: family.split)
  qed
next
  fix t :: "'p allowedips" and f ip
  assume "table_ok t" "addr_ok f ip"
  then show "trie_find t f ip = lpm (trie_ent t f) (abits f ip)"
    using kbits_abits [of ip] table_okD(1,2) [of t]
    by (cases f) (simp_all only: trie_find.simps find_lookup find_node_lpm trie_ent_def family.case)
qed

interpretation naive_table: lpm_table h_table_ok h_ent naive_apply naive_find
proof unfold_locales
  fix t :: "'p horrible_node list" and opn :: "'p table_op"
  assume t: "h_table_ok t" and opn: "op_ok opn"
  show "h_table_ok (naive_apply opn t) \<and> h_ent (naive_apply opn t) = spec_op opn (h_ent t)"
  proof (cases opn)
    case (Insert f ip cidr p)
    then have ip: "addr_ok f ip" "cidr \<le> flen f" using opn by auto
    let ?n = "horrible_mask_self \<lparr>h_ip = take 4 (be32s ip @ [0, 0, 0]), h_mask = horrible_cidr_to_mask cidr,
      h_version = f, h_value = p\<rparr>"
    have "length (be32s ip) = (case f of AF_INET \<Rightarrow> 1 | AF_INET6 \<Rightarrow> 4)"
      using ip(1) by (cases f) (auto simp: addr_ok_def flen_def)
    then have "naive_apply opn t = horrible_insert_ordered ?n t"
      using Insert by (cases f) (simp_all add: horrible_allowedips_insert_v4_def horrible_allowedips_insert_v6_def)
    then show ?thesis
      using insert_ordered_result [OF t new_node_ok(1) [OF ip]] new_node_ok(2-4) [OF ip, where v = p] Insert by simp
  next
    case (Remove_peer p)
    then show ?thesis using remove_by_value_result [OF t, of p] by simp
  qed
next
  fix t :: "'p horrible_node list" and f ip
  assume "h_table_ok t" "addr_ok f ip"
  then show "naive_find t f ip = lpm (h_ent t f) (abits f ip)"
    by (cases f) (simp_all add: lookup_v4_lpm lookup_v6_lpm)
qed

end
