(* ===== verification/Allowedips_Props.thy ===== *)
theory Allowedips_Props
  imports Allowedips_Naive
begin

text \<open>The properties of the allowed-IPs table, over the operations of \<^verbatim>\<open>allowedips.c\<close>.\<close>

section \<open>A new table\<close>

definition table0 :: "nat allowedips" where
  "table0 = wg_allowedips_init \<lparr>root4 = Null, root6 = Null, tbl_seq = 0, allowedips_list = (\<lambda>_. [])\<rparr>"

lemma init_ok: "\<forall>p. allowedips_list t p = [] \<Longrightarrow> table_ok (wg_allowedips_init t)"
  by (simp add: table_ok_def wg_allowedips_init_def lists_ok_def node_at_def)

lemma table0_ok: "table_ok table0"
  unfolding table0_def by (rule init_ok) simp

definition table1 :: "nat allowedips" where
  "table1 = fold trie_apply [Insert AF_INET [10, 0, 0, 0] 8 7, Insert AF_INET [10, 1, 0, 0] 16 8,
     Insert AF_INET6 (replicate 16 0) 0 9] table0"

lemma table1_ok: "table_ok table1"
  unfolding table1_def
  by (rule conjunct1 [OF trie_table.run_ops [OF table0_ok]]) (simp add: addr_ok_def flen_def)

section \<open>Errors of an insertion\<close>

lemma add_at_error: "add_at a1 a2 t key cidr p = Inl e \<Longrightarrow> e = ENOMEM \<and> \<not> (a1 \<and> a2)"
proof (induction a1 a2 t key cidr p rule: add_at.induct)
  case (2 a1 a2 p c k l r key cidr peer)
  consider "c \<le> cidr \<and> prefix_matches c k key" "c = cidr"
    | "c \<le> cidr \<and> prefix_matches c k key" "c \<noteq> cidr" "choose_bit c key"
    | "c \<le> cidr \<and> prefix_matches c k key" "c \<noteq> cidr" "\<not> choose_bit c key"
    | "\<not> (c \<le> cidr \<and> prefix_matches c k key)" by blast
  then show ?case
  proof cases
    case 1
    then show ?thesis using "2.prems" by simp
  next
    case 2
    then have "add_at a1 a2 r key cidr peer = Inl e" using "2.prems" by (cases "add_at a1 a2 r key cidr peer") auto
    then show ?thesis using "2.IH"(1) 2 by blast
  next
    case 3
    then have "add_at a1 a2 l key cidr peer = Inl e" using "2.prems" by (cases "add_at a1 a2 l key cidr peer") auto
    then show ?thesis using "2.IH"(2) 3 by blast
  next
    case 4
    then show ?thesis using "2.prems" by (auto simp: Let_def split: if_splits prod.splits)
  qed
qed (auto split: if_splits)

lemma add_error:
  fixes t :: "('a::len word, 'p) trie"
  assumes "add a1 a2 t key cidr peer = Inl e"
  shows "e = (if cidr > LENGTH('a) \<or> peer = None then EINVAL else ENOMEM) \<and> (e = ENOMEM \<longrightarrow> \<not> (a1 \<and> a2))"
  using assms by (auto simp: add_def dest: add_at_error split: if_splits)

section \<open>Properties\<close>

text \<open>
  C30. Lookups are longest-prefix match: for every well-formed table whose peers are alive, looking up the
  source or destination address of an IPv4 or IPv6 packet returns the peer of the longest prefix in
  the table that the address extends, or none if there is no such prefix.
\<close>

theorem allowedips_lookup_lpm:
  assumes "table_ok table" "40 \<le> length hdr" "\<forall>p. alive p"
  shows "wg_allowedips_lookup_src [(table, alive)] ETH_P_IP hdr =
      Some (lpm (entries (root4 table)) (abits AF_INET (ip_saddr hdr))) \<and>
    wg_allowedips_lookup_dst [(table, alive)] ETH_P_IP hdr =
      Some (lpm (entries (root4 table)) (abits AF_INET (ip_daddr hdr))) \<and>
    wg_allowedips_lookup_src [(table, alive)] ETH_P_IPV6 hdr =
      Some (lpm (entries (root6 table)) (abits AF_INET6 (ipv6_saddr hdr))) \<and>
    wg_allowedips_lookup_dst [(table, alive)] ETH_P_IPV6 hdr =
      Some (lpm (entries (root6 table)) (abits AF_INET6 (ipv6_daddr hdr)))"
proof -
  have look: "lookup [(t, alive)] ip = Some (find_node t (swap_endian ip) None)" for t :: "('b::len word, 'a) trie" and ip
    using assms(3) by (simp split: option.split)
  have "addr_ok AF_INET (ip_saddr hdr)" "addr_ok AF_INET (ip_daddr hdr)"
    "addr_ok AF_INET6 (ipv6_saddr hdr)" "addr_ok AF_INET6 (ipv6_daddr hdr)"
    using assms(2) by (simp_all add: addr_ok_def flen_def ip_saddr_def ip_daddr_def ipv6_saddr_def ipv6_daddr_def)
  then show ?thesis
    using find_node_lpm [OF table_okD(1) [OF assms(1)]] find_node_lpm [OF table_okD(2) [OF assms(1)]]
    unfolding wg_allowedips_lookup_src_def wg_allowedips_lookup_dst_def
    by (simp add: look kbits_abits ETH_P_IP_def ETH_P_IPV6_def del: lookup.simps)
qed

theorem allowedips_lookup_lpm_witness:
  "wg_allowedips_lookup_src [(table1, \<lambda>_. True)] ETH_P_IP (replicate 12 0 @ [10, 1, 2, 3] @ replicate 24 0) =
     Some (lpm (entries (root4 table1)) (abits AF_INET [10, 1, 2, 3]))"
  using allowedips_lookup_lpm [OF table1_ok, of "replicate 12 0 @ [10, 1, 2, 3] @ replicate 24 0" "\<lambda>_. True"]
  by (simp add: ip_saddr_def)

text \<open>
  C32. Insertion is a map update or a clean error: an insertion that succeeds keeps the invariant and
  changes exactly the entry of the prefix; one that fails changes nothing but the sequence number,
  with \<open>EINVAL\<close> for a bad prefix length or a missing peer and \<open>ENOMEM\<close> only if an allocation failed.
\<close>

theorem allowedips_insert_refines:
  assumes "table_ok table"
  shows "(case wg_allowedips_insert_v4 a1 a2 table ip cidr peer of
       (None, t) \<Rightarrow> table_ok t \<and> root6 t = root6 table \<and>
         entries (root4 t) = (entries (root4 table))(npfx cidr (swap_endian ip :: u32) := peer)
     | (Some e, t) \<Rightarrow> t = table\<lparr>tbl_seq := tbl_seq table + 1\<rparr> \<and>
         e = (if cidr > 32 \<or> peer = None then EINVAL else ENOMEM) \<and> (e = ENOMEM \<longrightarrow> \<not> (a1 \<and> a2))) \<and>
    (case wg_allowedips_insert_v6 a1 a2 table ip cidr peer of
       (None, t) \<Rightarrow> table_ok t \<and> root4 t = root4 table \<and>
         entries (root6 t) = (entries (root6 table))(npfx cidr (swap_endian ip :: 128 word) := peer)
     | (Some e, t) \<Rightarrow> t = table\<lparr>tbl_seq := tbl_seq table + 1\<rparr> \<and>
         e = (if cidr > 128 \<or> peer = None then EINVAL else ENOMEM) \<and> (e = ENOMEM \<longrightarrow> \<not> (a1 \<and> a2)))"
    (is "?v4 \<and> ?v6")
proof
  show ?v4
  proof (cases "wg_allowedips_insert_v4 a1 a2 table ip cidr peer")
    case (Pair r t)
    show ?thesis
    proof (cases r)
      case None
      then show ?thesis using Pair insert_v4_Inr [OF assms] by (simp del: fun_upd_apply)
    next
      case (Some e)
      then have "add a1 a2 (root4 table) (swap_endian ip) cidr peer = Inl e" "t = table\<lparr>tbl_seq := tbl_seq table + 1\<rparr>"
        using Pair by (auto simp: wg_allowedips_insert_v4_def Let_def split: sum.splits)
      then show ?thesis using Pair Some add_error by fastforce
    qed
  qed
  show ?v6
  proof (cases "wg_allowedips_insert_v6 a1 a2 table ip cidr peer")
    case (Pair r t)
    show ?thesis
    proof (cases r)
      case None
      then show ?thesis using Pair insert_v6_Inr [OF assms] by (simp del: fun_upd_apply)
    next
      case (Some e)
      then have "add a1 a2 (root6 table) (swap_endian ip) cidr peer = Inl e" "t = table\<lparr>tbl_seq := tbl_seq table + 1\<rparr>"
        using Pair by (auto simp: wg_allowedips_insert_v6_def Let_def split: sum.splits)
      then show ?thesis using Pair Some add_error by fastforce
    qed
  qed
qed

theorem allowedips_insert_refines_witness:
  "case wg_allowedips_insert_v4 True True table1 [10, 1, 2, 0] 24 (Some 5) of
       (None, t) \<Rightarrow> table_ok t \<and> root6 t = root6 table1 \<and>
         entries (root4 t) = (entries (root4 table1))(npfx 24 (swap_endian [10, 1, 2, 0] :: u32) := Some 5)
     | (Some e, t) \<Rightarrow> t = table1\<lparr>tbl_seq := tbl_seq table1 + 1\<rparr> \<and>
         e = (if (24::nat) > 32 \<or> Some (5::nat) = None then EINVAL else ENOMEM) \<and> (e = ENOMEM \<longrightarrow> \<not> (True \<and> True))"
  by (rule conjunct1 [OF allowedips_insert_refines [OF table1_ok]])

text \<open>
  C33. Removal deletes one entry, and only of the given peer: removing a prefix keeps the invariant,
  deletes its entry if it belongs to that peer and changes nothing otherwise; a bad prefix length is
  \<open>EINVAL\<close>.
\<close>

theorem allowedips_remove_refines:
  assumes "table_ok table"
  shows "(case wg_allowedips_remove_v4 table ip cidr peer of
       (None, t) \<Rightarrow> cidr \<le> 32 \<and> table_ok t \<and> root6 t = root6 table \<and>
         entries (root4 t) = del_entry (entries (root4 table)) (npfx cidr (swap_endian ip :: u32)) peer
     | (Some e, t) \<Rightarrow> cidr > 32 \<and> e = EINVAL \<and> t = table\<lparr>tbl_seq := tbl_seq table + 1\<rparr>) \<and>
    (case wg_allowedips_remove_v6 table ip cidr peer of
       (None, t) \<Rightarrow> cidr \<le> 128 \<and> table_ok t \<and> root4 t = root4 table \<and>
         entries (root6 t) = del_entry (entries (root6 table)) (npfx cidr (swap_endian ip :: 128 word)) peer
     | (Some e, t) \<Rightarrow> cidr > 128 \<and> e = EINVAL \<and> t = table\<lparr>tbl_seq := tbl_seq table + 1\<rparr>)"
    (is "?v4 \<and> ?v6")
proof
  have err: "remove t k cidr p = Inl e \<longleftrightarrow> cidr > LENGTH('b) \<and> e = EINVAL"
    for t :: "('b::len word, 'a) trie" and k p e
    by (auto simp: remove_def split: prod.splits)
  show ?v4
  proof (cases "wg_allowedips_remove_v4 table ip cidr peer")
    case (Pair r t)
    show ?thesis
    proof (cases r)
      case None
      then have "cidr \<le> 32" using Pair remove_InrD [where 'a = 32]
        by (auto simp: wg_allowedips_remove_v4_def Let_def split: sum.splits)
      then show ?thesis using None Pair remove_v4_Inr [OF assms] by simp
    next
      case (Some e)
      then show ?thesis using Pair err
        by (auto simp: wg_allowedips_remove_v4_def Let_def split: sum.splits)
    qed
  qed
  show ?v6
  proof (cases "wg_allowedips_remove_v6 table ip cidr peer")
    case (Pair r t)
    show ?thesis
    proof (cases r)
      case None
      then have "cidr \<le> 128" using Pair remove_InrD [where 'a = 128]
        by (auto simp: wg_allowedips_remove_v6_def Let_def split: sum.splits)
      then show ?thesis using None Pair remove_v6_Inr [OF assms] by simp
    next
      case (Some e)
      then show ?thesis using Pair err
        by (auto simp: wg_allowedips_remove_v6_def Let_def split: sum.splits)
    qed
  qed
qed

theorem allowedips_remove_refines_witness:
  "case wg_allowedips_remove_v4 table1 [10, 0, 0, 0] 8 7 of
       (None, t) \<Rightarrow> (8::nat) \<le> 32 \<and> table_ok t \<and> root6 t = root6 table1 \<and>
         entries (root4 t) = del_entry (entries (root4 table1)) (npfx 8 (swap_endian [10, 0, 0, 0] :: u32)) 7
     | (Some e, t) \<Rightarrow> (8::nat) > 32 \<and> e = EINVAL \<and> t = table1\<lparr>tbl_seq := tbl_seq table1 + 1\<rparr>"
  by (rule conjunct1 [OF allowedips_remove_refines [OF table1_ok]])

text \<open>
  C34. Removing a peer by walking its own list of nodes, while the walk unlinks those very nodes and may
  merge others, removes exactly its entries from both tries; freeing the table leaves no entry and
  every peer's list empty. Both keep the invariant.
\<close>

theorem allowedips_remove_by_peer_exact:
  assumes "table_ok table"
  shows "table_ok (wg_allowedips_remove_by_peer table p) \<and>
    allowedips_list (wg_allowedips_remove_by_peer table p) p = [] \<and>
    entries (root4 (wg_allowedips_remove_by_peer table p)) = without_peer (entries (root4 table)) p \<and>
    entries (root6 (wg_allowedips_remove_by_peer table p)) = without_peer (entries (root6 table)) p \<and>
    table_ok (wg_allowedips_free table) \<and> (\<forall>q. allowedips_list (wg_allowedips_free table) q = []) \<and>
    entries (root4 (wg_allowedips_free table)) = Map.empty \<and> entries (root6 (wg_allowedips_free table)) = Map.empty"
proof -
  have roots: "root4 (wg_allowedips_free table) = Null" "root6 (wg_allowedips_free table) = Null"
    by (simp_all add: wg_allowedips_free_def Let_def)
  have empty: "entries Null = Map.empty" by (simp add: fun_eq_iff)
  have "table_ok (wg_allowedips_free table)"
    using free_lists_empty [OF assms] roots by (simp add: table_ok_def lists_ok_def node_at_def)
  then show ?thesis
    using remove_by_peer_result [OF assms, of p] free_lists_empty [OF assms] by (simp only: roots empty simp_thms)
qed

theorem allowedips_remove_by_peer_exact_witness:
  "entries (root4 (wg_allowedips_remove_by_peer table1 7)) = without_peer (entries (root4 table1)) 7"
  using allowedips_remove_by_peer_exact [OF table1_ok, of 7] by (simp only: simp_thms)

text \<open>
  C35. The walk over a trie with an explicit stack visits every node of it, and its stack never holds more
  than the \<open>MAX_ALLOWEDIPS_DEPTH\<close> entries for which the code reserves room.
\<close>

theorem allowedips_stack_bound:
  assumes "table_ok table"
  shows "snd (walk [root4 table]) \<le> MAX_ALLOWEDIPS_DEPTH \<and> snd (walk [root6 table]) \<le> MAX_ALLOWEDIPS_DEPTH \<and>
    set (fst (walk [root4 table])) = subtries (root4 table) \<and> set (fst (walk [root6 table])) = subtries (root6 table)"
proof -
  note ok = table_okD [OF assms]
  have "snd (walk [t]) \<le> Suc LENGTH('b) \<and> set (fst (walk [t])) = subtries t" if "trie_ok [] t"
    for t :: "('b::len word, 'a) trie"
    using that walk_height [of "[t]"] walk_visits [of "[t]"] by (cases "t = Null") auto
  from this [OF ok(1)] this [OF ok(2)] show ?thesis by (simp add: MAX_ALLOWEDIPS_DEPTH_def)
qed

theorem allowedips_stack_bound_witness:
  "snd (walk [root4 table1]) \<le> MAX_ALLOWEDIPS_DEPTH \<and> set (fst (walk [root4 table1])) = subtries (root4 table1)"
  using allowedips_stack_bound [OF table1_ok] by (simp only: simp_thms)

text \<open>
  Reading a node back: the address that \<open>wg_allowedips_read_node\<close> reports has the bits of the node's
  prefix and zeros after it, so inserting what was reported denotes the same prefix.
\<close>

theorem allowedips_read_node_roundtrip:
  "(c \<le> 32 \<longrightarrow> (let (ip, cidr, f) = wg_allowedips_read_node (N4 c k4) in
      f = AF_INET \<and> addr_ok f ip \<and> npfx cidr (swap_endian ip :: u32) = npfx c k4 \<and>
      (\<forall>i. c \<le> i \<and> i < 32 \<longrightarrow> \<not> addr_bit ip i))) \<and>
   (c \<le> 128 \<longrightarrow> (let (ip, cidr, f) = wg_allowedips_read_node (N6 c k6) in
      f = AF_INET6 \<and> addr_ok f ip \<and> npfx cidr (swap_endian ip :: 128 word) = npfx c k6 \<and>
      (\<forall>i. c \<le> i \<and> i < 128 \<longrightarrow> \<not> addr_bit ip i)))"
proof -
  have rt: "npfx c (swap_endian (read_ip n k c) :: 'b word) = npfx c k"
    if len: "LENGTH('b) = 8 * n" and c: "c \<le> 8 * n" for k :: "'b::len word" and n
  proof (rule nth_equalityI)
    show "length (npfx c (swap_endian (read_ip n k c) :: 'b word)) = length (npfx c k)"
      using len c by (simp add: length_npfx)
  next
    fix i assume "i < length (npfx c (swap_endian (read_ip n k c) :: 'b word))"
    then have i: "i < c" using len c by (simp add: length_npfx)
    have "kbits (swap_endian (read_ip n k c) :: 'b word) ! i = addr_bit (read_ip n k c) i"
      using len c i by (intro kbits_swap_endian) (simp_all add: length_read_ip)
    also have "\<dots> = kbits k ! i" using addr_bit_read_ip [OF len c, of i k] i c by simp
    finally show "npfx c (swap_endian (read_ip n k c) :: 'b word) ! i = npfx c k ! i" using i by (simp add: npfx_nth)
  qed
  show ?thesis
    using rt [of 4 k4] rt [of 16 k6] addr_bit_read_ip [of 4 c _ k4] addr_bit_read_ip [of 16 c _ k6]
      length_read_ip [of c 4 k4] length_read_ip [of c 16 k6]
    by (auto simp: addr_ok_def flen_def)
qed

theorem allowedips_read_node_roundtrip_witness:
  "npfx 12 (swap_endian (fst (wg_allowedips_read_node (N4 12 0x0A0B0C0D))) :: u32) = npfx 12 (0x0A0B0C0D :: u32)"
  using allowedips_read_node_roundtrip [of 12 "0x0A0B0C0D" 0] by simp

text \<open>
  C31. The optimised table is equivalent to the reference list: after any sequence of insertions and peer
  removals, the tries and the naive list of the self-test give the same answer for every address.
\<close>

theorem allowedips_matches_naive:
  assumes "\<forall>opn \<in> set ops. op_ok opn" "addr_ok f ip" "\<forall>p. allowedips_list t p = []"
  shows "trie_find (fold trie_apply ops (wg_allowedips_init t)) f ip = naive_find (fold naive_apply ops []) f ip"
proof -
  have "trie_ent (wg_allowedips_init t) = h_ent []"
    by (auto simp: trie_ent_def wg_allowedips_init_def h_ent_def fun_eq_iff split: family.split)
  then show ?thesis
    using trie_table.run_find [OF init_ok [OF assms(3)] assms(1,2)] naive_table.run_find [OF _ assms(1,2), of "[]"]
    by (simp add: h_table_ok_def)
qed

theorem allowedips_matches_naive_witness:
  "trie_find table1 AF_INET [10, 1, 2, 3] =
     naive_find (fold naive_apply [Insert AF_INET [10, 0, 0, 0] 8 7, Insert AF_INET [10, 1, 0, 0] 16 8,
       Insert AF_INET6 (replicate 16 0) 0 9] []) AF_INET [10, 1, 2, 3]"
  unfolding table1_def table0_def
  by (rule allowedips_matches_naive) (simp_all add: addr_ok_def flen_def)

end
