(* ===== verification/Peer_Lookup.thy ===== *)
theory Peer_Lookup
  imports Messages
begin

text \<open>
  The two hash tables of \<^verbatim>\<open>peerlookup.c\<close>: peers by static public key, and handshakes and keypairs by
  their 32-bit session index. A bucket is a list of entries, newest first; unhashing an entry takes it
  off whatever bucket holds it. The insertion of an index searches without the lock and checks again
  under it, so it is modelled as the steps that other threads can interleave with.
\<close>

section \<open>Tables of buckets\<close>

type_synonym 'e buckets = "nat \<Rightarrow> 'e list"

definition hlist_add_head :: "'e \<Rightarrow> nat \<Rightarrow> 'e buckets \<Rightarrow> 'e buckets" where
  "hlist_add_head e b t = t(b := e # t b)"

definition hlist_del_init :: "'e \<Rightarrow> 'e buckets \<Rightarrow> 'e buckets" where
  "hlist_del_init e t = (\<lambda>b. removeAll e (t b))"

definition hashed :: "'e buckets \<Rightarrow> 'e \<Rightarrow> bool" where
  "hashed t e \<longleftrightarrow> (\<exists>b. e \<in> set (t b))"

text \<open>
  A table is in order when every entry is in the bucket of its key, buckets have no repetition, and
  no two entries have the same key.
\<close>

definition placed :: "('k \<Rightarrow> nat) \<Rightarrow> ('e \<Rightarrow> 'k) \<Rightarrow> 'e buckets \<Rightarrow> bool" where
  "placed h key t \<longleftrightarrow> (\<forall>b e. e \<in> set (t b) \<longrightarrow> b = h (key e)) \<and> (\<forall>b. distinct (t b))"

definition unique_keys :: "('e \<Rightarrow> 'k) \<Rightarrow> 'e buckets \<Rightarrow> bool" where
  "unique_keys key t \<longleftrightarrow> (\<forall>e e'. hashed t e \<longrightarrow> hashed t e' \<longrightarrow> key e = key e' \<longrightarrow> e = e')"

lemma hashed_add [simp]: "hashed (hlist_add_head x b t) e \<longleftrightarrow> e = x \<or> hashed t e"
  by (auto simp: hashed_def hlist_add_head_def)

lemma hashed_del [simp]: "hashed (hlist_del_init x t) e \<longleftrightarrow> e \<noteq> x \<and> hashed t e"
  by (auto simp: hashed_def hlist_del_init_def)

lemma placed_add: "placed h key t \<Longrightarrow> \<not> hashed t x \<Longrightarrow> placed h key (hlist_add_head x (h (key x)) t)"
  by (auto simp: placed_def hlist_add_head_def hashed_def)

lemma placed_del: "placed h key t \<Longrightarrow> placed h key (hlist_del_init x t)"
  by (auto simp: placed_def hlist_del_init_def distinct_removeAll)

lemma unique_add: "unique_keys key t \<Longrightarrow> \<forall>e. hashed t e \<longrightarrow> key e \<noteq> key x \<Longrightarrow> unique_keys key (hlist_add_head x b t)"
  by (auto simp: unique_keys_def)

lemma unique_del: "unique_keys key t \<Longrightarrow> unique_keys key (hlist_del_init x t)"
  by (auto simp: unique_keys_def)

lemma placed_cong: "(\<And>e. hashed t e \<Longrightarrow> key' e = key e) \<Longrightarrow> placed h key' t = placed h key t"
  unfolding placed_def hashed_def by metis

lemma unique_cong: "(\<And>e. hashed t e \<Longrightarrow> key' e = key e) \<Longrightarrow> unique_keys key' t = unique_keys key t"
  by (auto simp: unique_keys_def)

text \<open>Searching the bucket of a key searches the whole table.\<close>

lemma find_bucket:
  assumes "placed h key t" "unique_keys key t"
  shows "find (\<lambda>e. key e = k) (t (h k)) = Some e \<longleftrightarrow> hashed t e \<and> key e = k"
proof
  assume "find (\<lambda>e. key e = k) (t (h k)) = Some e"
  then show "hashed t e \<and> key e = k"
    by (auto simp: find_Some_iff hashed_def intro!: exI [of _ "h k"])
next
  assume e: "hashed t e \<and> key e = k"
  then have "e \<in> set (t (h k))" using assms(1) by (auto simp: placed_def hashed_def)
  then obtain e' where e': "find (\<lambda>e. key e = k) (t (h k)) = Some e'"
    using e by (cases "find (\<lambda>e. key e = k) (t (h k))") (auto simp: find_None_iff)
  then have "hashed t e' \<and> key e' = k" by (auto simp: find_Some_iff hashed_def intro!: exI [of _ "h k"])
  then show "find (\<lambda>e. key e = k) (t (h k)) = Some e" using e e' assms(2) by (auto simp: unique_keys_def)
qed

lemma find_bucket_None:
  assumes "placed h key t"
  shows "find (\<lambda>e. key e = k) (t (h k)) = None \<longleftrightarrow> (\<forall>e. hashed t e \<longrightarrow> key e \<noteq> k)"
  using assms by (fastforce simp: find_None_iff placed_def hashed_def)

section \<open>Peers by public key\<close>

text \<open>The hash function is siphash with a random key, from outside of the module.\<close>

record pubkey_hashtable =
  pk_hash :: "bytes \<Rightarrow> u64"
  pk_table :: "nat buckets"

definition pubkey_bucket :: "pubkey_hashtable \<Rightarrow> bytes \<Rightarrow> nat" where
  "pubkey_bucket table pubkey = unat (pk_hash table pubkey AND (2048 - 1))"

definition wg_pubkey_hashtable_alloc :: "bool \<Rightarrow> (bytes \<Rightarrow> u64) \<Rightarrow> pubkey_hashtable option" where
  "wg_pubkey_hashtable_alloc alloc siphash =
     (if \<not> alloc then None else Some \<lparr>pk_hash = siphash, pk_table = (\<lambda>_. [])\<rparr>)"

text \<open>A peer is a number; \<open>remote_static\<close> gives its key.\<close>

definition wg_pubkey_hashtable_add :: "(nat \<Rightarrow> bytes) \<Rightarrow> pubkey_hashtable \<Rightarrow> nat \<Rightarrow> pubkey_hashtable" where
  "wg_pubkey_hashtable_add remote_static table peer =
     table\<lparr>pk_table := hlist_add_head peer (pubkey_bucket table (remote_static peer)) (pk_table table)\<rparr>"

definition wg_pubkey_hashtable_remove :: "pubkey_hashtable \<Rightarrow> nat \<Rightarrow> pubkey_hashtable" where
  "wg_pubkey_hashtable_remove table peer = table\<lparr>pk_table := hlist_del_init peer (pk_table table)\<rparr>"

text \<open>
  The lookup takes a reference through \<open>wg_peer_get_maybe_zero\<close>, which refuses a peer whose count is
  zero; \<open>get\<close> says whether it succeeds.
\<close>

definition wg_pubkey_hashtable_lookup ::
  "(nat \<Rightarrow> bytes) \<Rightarrow> (nat \<Rightarrow> bool) \<Rightarrow> pubkey_hashtable \<Rightarrow> bytes \<Rightarrow> nat option" where
  "wg_pubkey_hashtable_lookup remote_static get table pubkey =
     (case find (\<lambda>p. remote_static p = pubkey) (pk_table table (pubkey_bucket table pubkey)) of
        None \<Rightarrow> None
      | Some p \<Rightarrow> if get p then Some p else None)"

definition pubkey_ok :: "(nat \<Rightarrow> bytes) \<Rightarrow> pubkey_hashtable \<Rightarrow> bool" where
  "pubkey_ok remote_static table \<longleftrightarrow>
     placed (pubkey_bucket table) remote_static (pk_table table) \<and> unique_keys remote_static (pk_table table)"

lemma pubkey_bucket_upd [simp]: "pubkey_bucket (table\<lparr>pk_table := t\<rparr>) = pubkey_bucket table"
  by (simp add: pubkey_bucket_def fun_eq_iff)

lemma pubkey_lookup_iff:
  assumes "pubkey_ok rs table"
  shows "wg_pubkey_hashtable_lookup rs get table k = Some p \<longleftrightarrow> hashed (pk_table table) p \<and> rs p = k \<and> get p"
proof -
  have f: "find (\<lambda>p. rs p = k) (pk_table table (pubkey_bucket table k)) = Some q
    \<longleftrightarrow> hashed (pk_table table) q \<and> rs q = k" for q
    using assms by (simp add: pubkey_ok_def find_bucket)
  show ?thesis
  proof (cases "find (\<lambda>p. rs p = k) (pk_table table (pubkey_bucket table k))")
    case None
    then show ?thesis using f [of p] by (auto simp: wg_pubkey_hashtable_lookup_def)
  next
    case (Some q)
    then have "q = p \<longleftrightarrow> hashed (pk_table table) p \<and> rs p = k" using f [of p] by simp
    then show ?thesis using Some by (auto simp: wg_pubkey_hashtable_lookup_def)
  qed
qed

lemma pubkey_add_ok:
  assumes "pubkey_ok rs table" "\<not> hashed (pk_table table) p" "\<forall>q. hashed (pk_table table) q \<longrightarrow> rs q \<noteq> rs p"
  shows "pubkey_ok rs (wg_pubkey_hashtable_add rs table p)"
  using assms by (simp add: pubkey_ok_def wg_pubkey_hashtable_add_def placed_add unique_add)

lemma pubkey_remove_ok: "pubkey_ok rs table \<Longrightarrow> pubkey_ok rs (wg_pubkey_hashtable_remove table p)"
  by (simp add: pubkey_ok_def wg_pubkey_hashtable_remove_def placed_del unique_del)

lemma pubkey_alloc_ok: "wg_pubkey_hashtable_alloc a h = Some table \<Longrightarrow> pubkey_ok rs table"
  by (auto simp: wg_pubkey_hashtable_alloc_def pubkey_ok_def placed_def unique_keys_def hashed_def split: if_splits)

section \<open>Handshakes and keypairs by index\<close>

text \<open>
  The kinds of entries are bits, since a lookup gives a mask of those it accepts. An entry is embedded
  either in the handshake of a peer or in a keypair.
\<close>

abbreviation (input) INDEX_HASHTABLE_HANDSHAKE :: u32 where "INDEX_HASHTABLE_HANDSHAKE \<equiv> 1"
abbreviation (input) INDEX_HASHTABLE_KEYPAIR :: u32 where "INDEX_HASHTABLE_KEYPAIR \<equiv> 2"

datatype entry_id = HS nat | KP nat

fun entry_type :: "entry_id \<Rightarrow> u32" where
  "entry_type (HS p) = INDEX_HASHTABLE_HANDSHAKE"
| "entry_type (KP k) = INDEX_HASHTABLE_KEYPAIR"

record index_hashtable =
  ih_table :: "entry_id buckets"
  ih_index :: "entry_id \<Rightarrow> u32"
  ih_peer :: "entry_id \<Rightarrow> nat option"

definition index_bucket :: "u32 \<Rightarrow> nat" where
  "index_bucket index = unat (index AND (8192 - 1))"

definition index_in_use :: "index_hashtable \<Rightarrow> u32 \<Rightarrow> bool" where
  "index_in_use table index \<longleftrightarrow> (\<exists>e \<in> set (ih_table table (index_bucket index)). ih_index table e = index)"

text \<open>The three critical sections of an insertion: unhash, search without the lock, check and insert.\<close>

definition insert_unhash :: "entry_id \<Rightarrow> index_hashtable \<Rightarrow> index_hashtable" where
  "insert_unhash entry table = table\<lparr>ih_table := hlist_del_init entry (ih_table table)\<rparr>"

definition insert_search :: "entry_id \<Rightarrow> u32 \<Rightarrow> index_hashtable \<Rightarrow> bool \<times> index_hashtable" where
  "insert_search entry rnd table =
     (let table1 = table\<lparr>ih_index := (ih_index table)(entry := rnd)\<rparr> in (\<not> index_in_use table1 rnd, table1))"

definition insert_commit :: "entry_id \<Rightarrow> index_hashtable \<Rightarrow> bool \<times> index_hashtable" where
  "insert_commit entry table =
     (let index = ih_index table entry in
      if index_in_use table index then (False, table)
      else (True, table\<lparr>ih_table := hlist_add_head entry (index_bucket index) (ih_table table)\<rparr>))"

text \<open>
  The whole function when nothing interferes. The random numbers are an argument; \<open>None\<close> is the case
  that all of them are taken.
\<close>

fun insert_loop :: "u32 list \<Rightarrow> entry_id \<Rightarrow> index_hashtable \<Rightarrow> (u32 \<times> index_hashtable) option" where
  "insert_loop [] entry table = None"
| "insert_loop (r # rs) entry table =
     (let (free, table1) = insert_search entry r table in
      if \<not> free then insert_loop rs entry table1
      else let (ok, table2) = insert_commit entry table1 in
        if ok then Some (r, table2) else insert_loop rs entry table2)"

definition wg_index_hashtable_insert ::
  "u32 list \<Rightarrow> index_hashtable \<Rightarrow> entry_id \<Rightarrow> (u32 \<times> index_hashtable) option" where
  "wg_index_hashtable_insert rnd table entry = insert_loop rnd entry (insert_unhash entry table)"

definition hlist_replace :: "'e \<Rightarrow> 'e \<Rightarrow> 'e buckets \<Rightarrow> 'e buckets" where
  "hlist_replace old new t = (\<lambda>b. map (\<lambda>e. if e = old then new else e) (t b))"

definition wg_index_hashtable_replace :: "index_hashtable \<Rightarrow> entry_id \<Rightarrow> entry_id \<Rightarrow> bool \<times> index_hashtable" where
  "wg_index_hashtable_replace table old new =
     (if \<not> hashed (ih_table table) old then (False, table)
      else (True, table\<lparr>ih_index := (ih_index table)(new := ih_index table old),
              ih_table := hlist_replace old new (ih_table table)\<rparr>))"

definition wg_index_hashtable_remove :: "index_hashtable \<Rightarrow> entry_id \<Rightarrow> index_hashtable" where
  "wg_index_hashtable_remove table entry = table\<lparr>ih_table := hlist_del_init entry (ih_table table)\<rparr>"

text \<open>
  The lookup overwrites the peer of the entry it returns with the outcome of taking a reference, as
  the code does; the result is the entry and its peer.
\<close>

definition wg_index_hashtable_lookup ::
  "(nat \<Rightarrow> bool) \<Rightarrow> index_hashtable \<Rightarrow> u32 \<Rightarrow> u32 \<Rightarrow> (entry_id \<times> nat) option \<times> index_hashtable" where
  "wg_index_hashtable_lookup get table type_mask index =
     (case find (\<lambda>e. ih_index table e = index) (ih_table table (index_bucket index)) of
        None \<Rightarrow> (None, table)
      | Some e \<Rightarrow>
          if entry_type e AND type_mask = 0 then (None, table)
          else
            let peer = (case ih_peer table e of None \<Rightarrow> None | Some p \<Rightarrow> if get p then Some p else None);
                table1 = table\<lparr>ih_peer := (ih_peer table)(e := peer)\<rparr>
            in (map_option (Pair e) peer, table1))"

definition wg_index_hashtable_alloc :: "bool \<Rightarrow> index_hashtable option" where
  "wg_index_hashtable_alloc alloc =
     (if \<not> alloc then None else Some \<lparr>ih_table = (\<lambda>_. []), ih_index = (\<lambda>_. 0), ih_peer = (\<lambda>_. None)\<rparr>)"

subsection \<open>The table in order\<close>

definition index_ok :: "index_hashtable \<Rightarrow> bool" where
  "index_ok table \<longleftrightarrow>
     placed index_bucket (ih_index table) (ih_table table) \<and> unique_keys (ih_index table) (ih_table table)"

definition entry_hashed :: "index_hashtable \<Rightarrow> entry_id \<Rightarrow> bool" where
  "entry_hashed table = hashed (ih_table table)"

lemma index_in_use_iff:
  assumes "placed index_bucket (ih_index table) (ih_table table)"
  shows "index_in_use table i \<longleftrightarrow> (\<exists>e. entry_hashed table e \<and> ih_index table e = i)"
  using assms by (fastforce simp: index_in_use_def placed_def hashed_def entry_hashed_def)

lemma index_alloc_ok: "wg_index_hashtable_alloc a = Some table \<Longrightarrow> index_ok table"
  by (auto simp: wg_index_hashtable_alloc_def index_ok_def placed_def unique_keys_def hashed_def split: if_splits)

lemma index_remove_ok: "index_ok table \<Longrightarrow> index_ok (wg_index_hashtable_remove table e)"
  by (simp add: index_ok_def wg_index_hashtable_remove_def placed_del unique_del)

lemma index_remove_hashed [simp]:
  "entry_hashed (wg_index_hashtable_remove table e) e' \<longleftrightarrow> e' \<noteq> e \<and> entry_hashed table e'"
  by (simp add: entry_hashed_def wg_index_hashtable_remove_def)

lemma insert_unhash_remove: "insert_unhash e table = wg_index_hashtable_remove table e"
  by (simp add: insert_unhash_def wg_index_hashtable_remove_def)

lemma insert_search_ok:
  assumes "index_ok table" "\<not> entry_hashed table e"
  shows "index_ok (snd (insert_search e r table))"
proof -
  have "((ih_index table)(e := r)) x = ih_index table x" if "hashed (ih_table table) x" for x
    using assms(2) that by (auto simp: entry_hashed_def)
  then show ?thesis
    using assms(1) placed_cong [of "ih_table table" "(ih_index table)(e := r)" "ih_index table"]
      unique_cong [of "ih_table table" "(ih_index table)(e := r)" "ih_index table"]
    by (simp add: insert_search_def index_ok_def Let_def)
qed

lemma insert_search_hashed [simp]: "entry_hashed (snd (insert_search e r table)) = entry_hashed table"
  by (simp add: insert_search_def entry_hashed_def Let_def)

lemma insert_search_index [simp]: "ih_index (snd (insert_search e r table)) = (ih_index table)(e := r)"
  by (simp add: insert_search_def Let_def)

lemma insert_commit_ok:
  assumes "index_ok table" "\<not> entry_hashed table e"
  shows "index_ok (snd (insert_commit e table))"
proof (cases "index_in_use table (ih_index table e)")
  case True
  then show ?thesis using assms by (simp add: insert_commit_def)
next
  case False
  have p: "placed index_bucket (ih_index table) (ih_table table)" using assms(1) by (simp add: index_ok_def)
  have "\<forall>x. hashed (ih_table table) x \<longrightarrow> ih_index table x \<noteq> ih_index table e"
    using False index_in_use_iff [OF p] by (auto simp: entry_hashed_def)
  then show ?thesis
    using False assms p by (simp add: insert_commit_def index_ok_def placed_add unique_add entry_hashed_def)
qed

lemma insert_commit_hashed:
  "entry_hashed (snd (insert_commit e table)) x \<longleftrightarrow> (fst (insert_commit e table) \<and> x = e) \<or> entry_hashed table x"
  by (simp add: insert_commit_def entry_hashed_def Let_def)

lemma insert_commit_index [simp]: "ih_index (snd (insert_commit e table)) = ih_index table"
  by (simp add: insert_commit_def Let_def)

lemma hashed_replace:
  assumes "hashed t old"
  shows "hashed (hlist_replace old new t) e \<longleftrightarrow> e = new \<or> (hashed t e \<and> e \<noteq> old)"
  using assms by (auto simp: hashed_def hlist_replace_def)

lemma index_replace_ok:
  assumes "index_ok table" "\<not> entry_hashed table new"
  shows "index_ok (snd (wg_index_hashtable_replace table old new))"
proof (cases "hashed (ih_table table) old")
  case True
  let ?ix = "(ih_index table)(new := ih_index table old)"
  have new: "hashed (ih_table table) e \<Longrightarrow> e \<noteq> new" for e using assms(2) by (auto simp: entry_hashed_def)
  have pl: "placed index_bucket (ih_index table) (ih_table table)" and un: "unique_keys (ih_index table) (ih_table table)"
    using assms(1) by (auto simp: index_ok_def)
  have "distinct (map (\<lambda>e. if e = old then new else e) (ih_table table b))" for b
    using pl new by (auto simp: placed_def distinct_map inj_on_def hashed_def)
  then have "placed index_bucket ?ix (hlist_replace old new (ih_table table))"
    using pl new by (auto simp: placed_def hlist_replace_def hashed_def)
  moreover have "unique_keys ?ix (hlist_replace old new (ih_table table))"
    using un new True by (auto simp: unique_keys_def hashed_replace [OF True])
  ultimately show ?thesis using True by (simp add: wg_index_hashtable_replace_def index_ok_def)
qed (use assms in \<open>simp add: wg_index_hashtable_replace_def\<close>)

subsection \<open>The insertion on its own\<close>

lemma insert_loop_ok:
  assumes "index_ok table" "\<not> entry_hashed table e" "insert_loop rs e table = Some (i, table')"
  shows "index_ok table'" "i \<in> set rs" "ih_index table' = (ih_index table)(e := i)" "ih_peer table' = ih_peer table"
    "entry_hashed table' x \<longleftrightarrow> x = e \<or> entry_hashed table x"
    "entry_hashed table x \<Longrightarrow> ih_index table x \<noteq> i"
proof (atomize (full), goal_cases)
  case 1
  show ?case using assms
  proof (induction rs arbitrary: table)
    case (Cons r rs)
    let ?t1 = "snd (insert_search e r table)"
    let ?t2 = "snd (insert_commit e ?t1)"
    have t1: "index_ok ?t1" "\<not> entry_hashed ?t1 e" "ih_peer ?t1 = ih_peer table"
      using Cons.prems(2) insert_search_ok [OF Cons.prems(1,2)] by (simp_all, simp add: insert_search_def Let_def)
    have t2: "index_ok ?t2" using insert_commit_ok t1 by blast
    have pl: "placed index_bucket (ih_index ?t1) (ih_table ?t1)" using t1(1) by (simp add: index_ok_def)
    have ix: "ih_index table x = ih_index ?t1 x" if "entry_hashed table x" for x
      using that Cons.prems(2) by auto
    consider "\<not> fst (insert_search e r table)" "insert_loop rs e ?t1 = Some (i, table')"
      | "fst (insert_search e r table)" "\<not> fst (insert_commit e ?t1)" "insert_loop rs e ?t2 = Some (i, table')"
      | "fst (insert_commit e ?t1)" "i = r" "table' = ?t2"
      using Cons.prems(3) by (auto simp: Let_def case_prod_beta split: if_splits)
    then show ?case
    proof cases
      case 1
      then show ?thesis using Cons.IH [OF t1(1,2) 1(2)] t1(3) ix by auto
    next
      case 2
      have "?t2 = ?t1" using 2(2) by (auto simp: insert_commit_def Let_def split: if_splits)
      then show ?thesis using Cons.IH [OF t1(1,2)] 2(3) t1(3) ix by auto
    next
      case 3
      then have "\<not> index_in_use ?t1 r" by (auto simp: insert_commit_def Let_def split: if_splits)
      then have "entry_hashed table x \<Longrightarrow> ih_index table x \<noteq> i"
        using index_in_use_iff [OF pl] ix 3(2) by auto
      moreover have "ih_peer ?t2 = ih_peer table" using t1(3) by (auto simp: insert_commit_def Let_def)
      ultimately show ?thesis using 3 t2 by (auto simp: insert_commit_hashed)
    qed
  qed simp
qed

lemma insert_ok:
  assumes "index_ok table" "wg_index_hashtable_insert rs table e = Some (i, table')"
  shows "index_ok table'" "i \<in> set rs" "ih_index table' = (ih_index table)(e := i)" "ih_peer table' = ih_peer table"
    "entry_hashed table' x \<longleftrightarrow> x = e \<or> entry_hashed table x"
    "entry_hashed table x \<Longrightarrow> x \<noteq> e \<Longrightarrow> ih_index table x \<noteq> i"
proof -
  let ?t = "insert_unhash e table"
  have t: "index_ok ?t" "\<not> entry_hashed ?t e" using assms(1) by (simp_all add: insert_unhash_remove index_remove_ok)
  note * = insert_loop_ok [OF t assms(2) [unfolded wg_index_hashtable_insert_def]]
  show "index_ok table'" "i \<in> set rs" using *(1,2) .
  show "ih_index table' = (ih_index table)(e := i)" "ih_peer table' = ih_peer table"
    using *(3,4) by (simp_all add: insert_unhash_def)
  show "entry_hashed table' x \<longleftrightarrow> x = e \<or> entry_hashed table x" using *(5) by (auto simp: insert_unhash_remove)
  show "entry_hashed table x \<Longrightarrow> x \<noteq> e \<Longrightarrow> ih_index table x \<noteq> i"
    using *(6) [of x] by (simp add: insert_unhash_remove) (simp add: wg_index_hashtable_remove_def)
qed

text \<open>An insertion succeeds as soon as one of the random numbers is not in use.\<close>

lemma insert_loop_total:
  assumes "index_ok table" "\<not> entry_hashed table e" "r \<in> set rs" "\<forall>x. entry_hashed table x \<longrightarrow> ih_index table x \<noteq> r"
  shows "insert_loop rs e table \<noteq> None"
  using assms
proof (induction rs arbitrary: table)
  case (Cons a rs)
  let ?t1 = "snd (insert_search e a table)"
  have t1: "index_ok ?t1" "\<not> entry_hashed ?t1 e" using Cons.prems(2) insert_search_ok [OF Cons.prems(1,2)] by simp_all
  have pl: "placed index_bucket (ih_index ?t1) (ih_table ?t1)" using t1(1) by (simp add: index_ok_def)
  have free: "fst (insert_search e a table) \<longleftrightarrow> \<not> index_in_use ?t1 a" by (simp add: insert_search_def Let_def)
  show ?case
  proof (cases "index_in_use ?t1 a")
    case False
    then have "fst (insert_commit e ?t1)" by (simp add: insert_commit_def Let_def)
    then show ?thesis using False free by (simp add: Let_def case_prod_beta)
  next
    case True
    then have "a \<noteq> r" using index_in_use_iff [OF pl] Cons.prems(2,4) by (auto split: if_splits)
    then have "insert_loop rs e ?t1 \<noteq> None" using Cons.IH [OF t1] Cons.prems(2-4) by auto
    then show ?thesis using True free by (simp add: Let_def case_prod_beta)
  qed
qed simp

lemma index_find:
  assumes "index_ok table"
  shows "find (\<lambda>e. ih_index table e = i) (ih_table table (index_bucket i)) = Some e
    \<longleftrightarrow> entry_hashed table e \<and> ih_index table e = i"
  using assms by (simp add: index_ok_def find_bucket entry_hashed_def)

lemma index_lookup_iff:
  assumes "index_ok table"
  shows "fst (wg_index_hashtable_lookup get table tm i) = Some (e, p) \<longleftrightarrow>
    entry_hashed table e \<and> ih_index table e = i \<and> entry_type e AND tm \<noteq> 0 \<and> ih_peer table e = Some p \<and> get p"
proof (cases "find (\<lambda>e. ih_index table e = i) (ih_table table (index_bucket i))")
  case None
  then show ?thesis using index_find [OF assms, of i e] by (auto simp: wg_index_hashtable_lookup_def)
next
  case (Some x)
  then have "x = e \<longleftrightarrow> entry_hashed table e \<and> ih_index table e = i" using index_find [OF assms, of i e] by simp
  then show ?thesis using Some
    by (auto simp: wg_index_hashtable_lookup_def Let_def split: option.splits if_splits)
qed

lemma index_lookup_table:
  "ih_table (snd (wg_index_hashtable_lookup get table tm i)) = ih_table table"
  "ih_index (snd (wg_index_hashtable_lookup get table tm i)) = ih_index table"
  by (simp_all add: wg_index_hashtable_lookup_def Let_def split: option.splits)

lemma index_lookup_ok: "index_ok table \<Longrightarrow> index_ok (snd (wg_index_hashtable_lookup get table tm i))"
  by (simp add: index_ok_def index_lookup_table)

text \<open>While the peer is alive the lookup leaves the table as it is.\<close>

lemma index_lookup_same:
  assumes "fst (wg_index_hashtable_lookup get table tm i) = Some (e, p)"
  shows "snd (wg_index_hashtable_lookup get table tm i) = table"
  using assms
  by (auto simp: wg_index_hashtable_lookup_def Let_def fun_upd_idem_iff split: option.splits if_splits)

section \<open>Insertions that interleave\<close>

text \<open>
  Where an insertion stands: the handshake lock lets only one be under way for an entry, and keeps the
  entry from being replaced meanwhile. Anything else may happen between its critical sections, also
  the removal of the entry and lookups.
\<close>

datatype insert_pc = Idle | Searching | Found

record insert_state =
  is_table :: index_hashtable
  is_pc :: "entry_id \<Rightarrow> insert_pc"

inductive insert_step :: "insert_state \<Rightarrow> insert_state \<Rightarrow> bool" where
  unhash: "is_pc s e = Idle \<Longrightarrow>
    insert_step s (s\<lparr>is_table := insert_unhash e (is_table s), is_pc := (is_pc s)(e := Searching)\<rparr>)"
| search: "is_pc s e = Searching \<Longrightarrow>
    insert_step s (s\<lparr>is_table := snd (insert_search e r (is_table s)),
      is_pc := (is_pc s)(e := (if fst (insert_search e r (is_table s)) then Found else Searching))\<rparr>)"
| commit: "is_pc s e = Found \<Longrightarrow>
    insert_step s (s\<lparr>is_table := snd (insert_commit e (is_table s)),
      is_pc := (is_pc s)(e := (if fst (insert_commit e (is_table s)) then Idle else Searching))\<rparr>)"
| replace: "is_pc s old = Idle \<Longrightarrow> is_pc s new = Idle \<Longrightarrow> \<not> entry_hashed (is_table s) new \<Longrightarrow>
    insert_step s (s\<lparr>is_table := snd (wg_index_hashtable_replace (is_table s) old new)\<rparr>)"
| remove: "insert_step s (s\<lparr>is_table := wg_index_hashtable_remove (is_table s) e\<rparr>)"
| lookup: "insert_step s (s\<lparr>is_table := snd (wg_index_hashtable_lookup get (is_table s) tm i)\<rparr>)"

definition insert_init :: "insert_state \<Rightarrow> bool" where
  "insert_init s \<longleftrightarrow> wg_index_hashtable_alloc True = Some (is_table s) \<and> is_pc s = (\<lambda>_. Idle)"

definition insert_inv :: "insert_state \<Rightarrow> bool" where
  "insert_inv s \<longleftrightarrow> index_ok (is_table s) \<and> (\<forall>e. is_pc s e \<noteq> Idle \<longrightarrow> \<not> entry_hashed (is_table s) e)"

lemma replace_hashed:
  "entry_hashed (snd (wg_index_hashtable_replace table old new)) e \<Longrightarrow> entry_hashed table e \<or> e = new"
  by (auto simp: wg_index_hashtable_replace_def entry_hashed_def hashed_replace split: if_splits)

lemma insert_inv_step:
  assumes "insert_inv s" "insert_step s s'"
  shows "insert_inv s'"
  using assms(2,1)
proof cases
  case (unhash e)
  then show ?thesis using assms(1) by (auto simp: insert_inv_def insert_unhash_remove index_remove_ok)
next
  case (search e r)
  have "index_ok (snd (insert_search e r (is_table s)))"
    using assms(1) search(2) by (intro insert_search_ok) (simp_all add: insert_inv_def)
  then show ?thesis using assms(1) search by (simp add: insert_inv_def)
next
  case (commit e)
  have "index_ok (snd (insert_commit e (is_table s)))"
    using assms(1) commit(2) by (intro insert_commit_ok) (simp_all add: insert_inv_def)
  then show ?thesis using assms(1) commit by (auto simp: insert_inv_def insert_commit_hashed)
next
  case (replace old new)
  have "index_ok (snd (wg_index_hashtable_replace (is_table s) old new))"
    using assms(1) replace(4) by (intro index_replace_ok) (simp_all add: insert_inv_def)
  then show ?thesis using assms(1) replace replace_hashed [of "is_table s" old new] by (auto simp: insert_inv_def)
next
  case (remove e)
  then show ?thesis using assms(1) by (auto simp: insert_inv_def index_remove_ok)
next
  case (lookup get tm i)
  then show ?thesis
    using assms(1) by (auto simp: insert_inv_def index_lookup_ok entry_hashed_def index_lookup_table)
qed

interpretation insert_system: invariant_system insert_init insert_step insert_inv
proof
  show "insert_inv s" if "insert_init s" for s
    using that index_alloc_ok [of True "is_table s"] by (simp add: insert_init_def insert_inv_def)
qed (rule insert_inv_step)

section \<open>Results\<close>

text \<open>
  C36. In every interleaving of insertions, replacements, removals and lookups, no two entries of the
  table have the same index, so a packet's receiver index names one handshake or keypair.
\<close>

theorem index_never_shared:
  assumes "reach insert_init insert_step s"
  shows "inj_on (ih_index (is_table s)) {e. entry_hashed (is_table s) e}"
  using insert_system.reach_inv [OF assms]
  by (auto simp: insert_inv_def index_ok_def unique_keys_def entry_hashed_def inj_on_def)

definition index_race0 :: insert_state where
  "index_race0 = \<lparr>is_table = \<lparr>ih_table = (\<lambda>_. []), ih_index = (\<lambda>_. 0), ih_peer = (\<lambda>_. None)\<rparr>, is_pc = (\<lambda>_. Idle)\<rparr>"

text \<open>Two insertions draw the same number, both find it free, and the second one has to draw again.\<close>

definition index_race_unhash :: "entry_id \<Rightarrow> insert_state \<Rightarrow> insert_state" where
  "index_race_unhash e s = s\<lparr>is_table := insert_unhash e (is_table s), is_pc := (is_pc s)(e := Searching)\<rparr>"

definition index_race_search :: "entry_id \<Rightarrow> u32 \<Rightarrow> insert_state \<Rightarrow> insert_state" where
  "index_race_search e r s = s\<lparr>is_table := snd (insert_search e r (is_table s)),
     is_pc := (is_pc s)(e := (if fst (insert_search e r (is_table s)) then Found else Searching))\<rparr>"

definition index_race_commit :: "entry_id \<Rightarrow> insert_state \<Rightarrow> insert_state" where
  "index_race_commit e s = s\<lparr>is_table := snd (insert_commit e (is_table s)),
     is_pc := (is_pc s)(e := (if fst (insert_commit e (is_table s)) then Idle else Searching))\<rparr>"

definition index_race1 :: insert_state where
  "index_race1 = index_race_search (KP 1) 7 (index_race_search (HS 0) 7 (index_race_unhash (KP 1) (index_race_unhash (HS 0) index_race0)))"

definition index_race2 :: insert_state where
  "index_race2 = index_race_commit (KP 1) (index_race_search (KP 1) 8 (index_race_commit (KP 1) (index_race_commit (HS 0) index_race1)))"

lemmas index_race_defs = index_race0_def index_race1_def index_race2_def index_race_unhash_def index_race_search_def index_race_commit_def
  insert_unhash_def insert_search_def insert_commit_def index_in_use_def hlist_del_init_def hlist_add_head_def
  index_bucket_def

lemma index_race2_reach: "reach insert_init insert_step index_race2"
proof -
  have "insert_init index_race0" by (simp add: insert_init_def index_race0_def wg_index_hashtable_alloc_def)
  then have r: "reach insert_init insert_step index_race0" by (rule reach_init)
  have u: "reach insert_init insert_step s \<Longrightarrow> is_pc s e = Idle \<Longrightarrow> reach insert_init insert_step (index_race_unhash e s)" for s e
    unfolding index_race_unhash_def by (erule reach_step) (rule insert_step.unhash)
  have f: "reach insert_init insert_step s \<Longrightarrow> is_pc s e = Searching \<Longrightarrow> reach insert_init insert_step (index_race_search e i s)" for s e i
    unfolding index_race_search_def by (erule reach_step) (rule insert_step.search)
  have c: "reach insert_init insert_step s \<Longrightarrow> is_pc s e = Found \<Longrightarrow> reach insert_init insert_step (index_race_commit e s)" for s e
    unfolding index_race_commit_def by (erule reach_step) (rule insert_step.commit)
  have "reach insert_init insert_step index_race1"
    unfolding index_race1_def by (intro u f r) (simp_all add: index_race_defs)
  then show ?thesis
    unfolding index_race2_def by (intro c f) (simp_all add: index_race_defs)
qed

theorem index_never_shared_witness:
  "inj_on (ih_index (is_table index_race2)) {e. entry_hashed (is_table index_race2) e}
   \<and> entry_hashed (is_table index_race2) (HS 0) \<and> entry_hashed (is_table index_race2) (KP 1)"
  using index_never_shared [OF index_race2_reach]
  by (simp add: entry_hashed_def hashed_def) (auto simp: index_race_defs intro: exI [of _ 7] exI [of _ 8])

text \<open>
  C37. After an insertion that returns an index, the lookup of that index with the kind of the entry gives
  the entry and its peer, every other entry is found under its index as before, and the insertion
  returns whenever one of the numbers it draws is free.
\<close>

theorem index_lookup_after_insert:
  assumes "index_ok table" "ih_peer table e = Some p" "get p"
    and "r \<in> set rnd" "\<forall>x. entry_hashed table x \<longrightarrow> ih_index table x \<noteq> r"
  shows "\<exists>i table'. wg_index_hashtable_insert rnd table e = Some (i, table') \<and> index_ok table' \<and> i \<in> set rnd
    \<and> fst (wg_index_hashtable_lookup get table' (entry_type e) i) = Some (e, p)
    \<and> (\<forall>j tm x q. x \<noteq> e \<longrightarrow>
      (fst (wg_index_hashtable_lookup get table' tm j) = Some (x, q)) =
      (fst (wg_index_hashtable_lookup get table tm j) = Some (x, q)))"
proof -
  have t: "index_ok (insert_unhash e table)" "\<not> entry_hashed (insert_unhash e table) e"
    "\<forall>x. entry_hashed (insert_unhash e table) x \<longrightarrow> ih_index (insert_unhash e table) x \<noteq> r"
    using assms by (simp_all add: insert_unhash_remove index_remove_ok) (simp add: wg_index_hashtable_remove_def)
  obtain i table' where ins: "wg_index_hashtable_insert rnd table e = Some (i, table')"
    using insert_loop_total [OF t(1,2) assms(4) t(3)] by (auto simp: wg_index_hashtable_insert_def)
  note ok = insert_ok [OF assms(1) ins]
  have "entry_type e AND entry_type e \<noteq> 0" by (cases e) auto
  then have "fst (wg_index_hashtable_lookup get table' (entry_type e) i) = Some (e, p)"
    unfolding index_lookup_iff [OF ok(1)] using ok(3,4,5) assms(2,3) by simp
  moreover have "fst (wg_index_hashtable_lookup get table' tm j) = Some (x, q) \<longleftrightarrow>
      fst (wg_index_hashtable_lookup get table tm j) = Some (x, q)" if "x \<noteq> e" for j tm x q
    unfolding index_lookup_iff [OF ok(1)] index_lookup_iff [OF assms(1)] using ok(3,4,5) that by simp
  ultimately show ?thesis using ins ok(1,2) by blast
qed

definition index_demo :: index_hashtable where
  "index_demo = \<lparr>ih_table = (\<lambda>b. if b = 7 then [HS 0] else []), ih_index = (\<lambda>_. 7), ih_peer = (\<lambda>_. Some 5)\<rparr>"

lemma index_demo_ok: "index_ok index_demo"
  by (auto simp: index_ok_def index_demo_def placed_def unique_keys_def hashed_def index_bucket_def split: if_splits)

theorem index_lookup_after_insert_witness:
  "\<exists>i table'. wg_index_hashtable_insert [7, 8] index_demo (KP 1) = Some (i, table') \<and> index_ok table' \<and> i \<in> set [7, 8]
    \<and> fst (wg_index_hashtable_lookup (\<lambda>p. p = 5) table' (entry_type (KP 1)) i) = Some (KP 1, 5)"
proof -
  have "ih_peer index_demo (KP 1) = Some 5" "\<forall>x. entry_hashed index_demo x \<longrightarrow> ih_index index_demo x \<noteq> 8"
    by (simp_all add: index_demo_def)
  then show ?thesis
    using index_lookup_after_insert [OF index_demo_ok, of "KP 1" 5 "\<lambda>p. p = 5" 8 "[7, 8]"] by auto
qed

end
