(* ===== verification/Ratelimiter.thy ===== *)
theory Ratelimiter
  imports Messages "HOL-Library.Log_Nat"
begin

text \<open>
  The rate limiter of \<^verbatim>\<open>ratelimiter.c\<close>, which bounds how many handshake packets a source address
  may make the module work on while it is under load: a token bucket per source in a hash table, a
  cap on the number of buckets, and a worker that drops the buckets that have been idle for a second.
\<close>

section \<open>State\<close>

record ratelimiter_entry =
  last_time_ns :: u64
  tokens :: u64
  re_ip :: u64
  re_net :: u64

definition PACKETS_PER_SECOND :: u64 where [wg_defs]: "PACKETS_PER_SECOND = 20"
definition PACKETS_BURSTABLE :: u64 where [wg_defs]: "PACKETS_BURSTABLE = 5"
definition PACKET_COST :: u64 where [wg_defs]: "PACKET_COST = NSEC_PER_SEC div PACKETS_PER_SECOND"
definition TOKEN_MAX :: u64 where [wg_defs]: "TOKEN_MAX = PACKET_COST * PACKETS_BURSTABLE"

text \<open>
  The file's static variables. The keyed hash functions stand for the random \<open>key\<close>; an entry that is
  unhashed stays counted until its RCU callback runs, so those are counted in \<open>rcu_pending\<close>.
\<close>

record ratelimiter =
  hsiphash_2u32 :: "u32 \<Rightarrow> u32 \<Rightarrow> u32"
  hsiphash_3u32 :: "u32 \<Rightarrow> u32 \<Rightarrow> u32 \<Rightarrow> u32"
  init_refcnt :: u64
  total_entries :: u32
  max_entries :: u32
  table_size :: u32
  gc_queued :: bool
  table_v4 :: "nat \<Rightarrow> ratelimiter_entry list"
  table_v6 :: "nat \<Rightarrow> ratelimiter_entry list"
  rcu_pending :: nat

text \<open>The source address of a packet, as its protocol field selects the header.\<close>

datatype ip_source = Source4 u32 | Source6 bytes | Source_other

section \<open>Operations\<close>

definition entry_free :: "ratelimiter \<Rightarrow> ratelimiter" where
  "entry_free rl = rl\<lparr>total_entries := total_entries rl - 1, rcu_pending := rcu_pending rl - 1\<rparr>"

definition rcu_barrier :: "ratelimiter \<Rightarrow> ratelimiter" where
  "rcu_barrier rl = (entry_free ^^ rcu_pending rl) rl"

text \<open>\<open>work\<close> is false for the call that drops every entry.\<close>

definition gc_drops :: "bool \<Rightarrow> u64 \<Rightarrow> ratelimiter_entry \<Rightarrow> bool" where
  "gc_drops work now e \<longleftrightarrow> \<not> work \<or> now - last_time_ns e > NSEC_PER_SEC"

definition gc_bucket :: "bool \<Rightarrow> u64 \<Rightarrow> nat \<Rightarrow> ratelimiter \<Rightarrow> ratelimiter" where
  "gc_bucket work now i rl =
     rl\<lparr>table_v4 := (table_v4 rl)(i := filter (\<lambda>e. \<not> gc_drops work now e) (table_v4 rl i)),
       table_v6 := (table_v6 rl)(i := filter (\<lambda>e. \<not> gc_drops work now e) (table_v6 rl i)),
       rcu_pending := rcu_pending rl + length (filter (gc_drops work now) (table_v4 rl i))
         + length (filter (gc_drops work now) (table_v6 rl i))\<rparr>"

definition wg_ratelimiter_gc_entries :: "bool \<Rightarrow> u64 \<Rightarrow> ratelimiter \<Rightarrow> ratelimiter" where
  "wg_ratelimiter_gc_entries work now rl =
     (let rl1 = fold (gc_bucket work now) [0..<unat (table_size rl)] rl
      in if work then rl1\<lparr>gc_queued := True\<rparr> else rl1)"

text \<open>The key of a source and its bucket; \<open>None\<close> for a packet that is neither IPv4 nor IPv6.\<close>

definition source_bucket :: "ratelimiter \<Rightarrow> u64 \<Rightarrow> ip_source \<Rightarrow> (bool \<times> nat \<times> u64) option" where
  "source_bucket rl net src =
     (let net_word = ucast net :: u32 in
      case src of
        Source4 saddr \<Rightarrow>
          let ip = ucast saddr :: u64
          in Some (False, unat (hsiphash_2u32 rl net_word (ucast ip) AND (table_size rl - 1)), ip)
      | Source6 saddr \<Rightarrow>
          let ip = le_word (take 8 saddr) :: u64
          in Some (True, unat (hsiphash_3u32 rl net_word (ucast (drop_bit 32 ip)) (ucast ip) AND (table_size rl - 1)), ip)
      | Source_other \<Rightarrow> None)"

definition table_of :: "ratelimiter \<Rightarrow> bool \<Rightarrow> nat \<Rightarrow> ratelimiter_entry list" where
  "table_of rl v6 = (if v6 then table_v6 rl else table_v4 rl)"

definition set_bucket :: "bool \<Rightarrow> nat \<Rightarrow> ratelimiter_entry list \<Rightarrow> ratelimiter \<Rightarrow> ratelimiter" where
  "set_bucket v6 b es rl =
     (if v6 then rl\<lparr>table_v6 := (table_v6 rl)(b := es)\<rparr> else rl\<lparr>table_v4 := (table_v4 rl)(b := es)\<rparr>)"

text \<open>One packet taken from a bucket.\<close>

definition entry_take :: "u64 \<Rightarrow> ratelimiter_entry \<Rightarrow> bool \<times> ratelimiter_entry" where
  "entry_take now entry =
     (let t = min TOKEN_MAX (tokens entry + now - last_time_ns entry);
          ret = (t \<ge> PACKET_COST)
      in (ret, entry\<lparr>last_time_ns := now, tokens := (if ret then t - PACKET_COST else t)\<rparr>))"

definition entry_matches :: "u64 \<Rightarrow> u64 \<Rightarrow> ratelimiter_entry \<Rightarrow> bool" where
  "entry_matches net ip e \<longleftrightarrow> re_net e = net \<and> re_ip e = ip"

text \<open>The search of a bucket, which updates the first entry that matches.\<close>

fun bucket_take :: "u64 \<Rightarrow> u64 \<Rightarrow> u64 \<Rightarrow> ratelimiter_entry list \<Rightarrow> (bool \<times> ratelimiter_entry list) option" where
  "bucket_take now net ip [] = None"
| "bucket_take now net ip (e # es) =
     (if entry_matches net ip e then (let (ret, e1) = entry_take now e in Some (ret, e1 # es))
      else map_option (\<lambda>(ret, es1). (ret, e # es1)) (bucket_take now net ip es))"

text \<open>\<open>alloc\<close> says whether the allocation of an entry succeeds, should it come to that.\<close>

definition wg_ratelimiter_allow ::
  "u64 \<Rightarrow> bool \<Rightarrow> u64 \<Rightarrow> ip_source \<Rightarrow> ratelimiter \<Rightarrow> bool \<times> ratelimiter" where
  "wg_ratelimiter_allow now alloc net src rl =
     (case source_bucket rl net src of
        None \<Rightarrow> (False, rl)
      | Some (v6, b, ip) \<Rightarrow>
          (case bucket_take now net ip (table_of rl v6 b) of
             Some (ret, es) \<Rightarrow> (ret, set_bucket v6 b es rl)
           | None \<Rightarrow>
               let rl1 = rl\<lparr>total_entries := total_entries rl + 1\<rparr>;
                   oom = (False, rl1\<lparr>total_entries := total_entries rl1 - 1\<rparr>)
               in if total_entries rl1 > max_entries rl1 then oom
                  else if \<not> alloc then oom
                  else
                    let entry = \<lparr>last_time_ns = now, tokens = TOKEN_MAX - PACKET_COST, re_ip = ip, re_net = net\<rparr>
                    in (True, set_bucket v6 b (entry # table_of rl1 v6 b) rl1)))"

text \<open>
  \<open>totalram_pages\<close> is the number of pages of 4096 bytes; a list head is 8 bytes. The three flags say
  whether the allocations succeed.
\<close>

definition roundup_pow_of_two :: "nat \<Rightarrow> nat" where
  "roundup_pow_of_two n = 2 ^ ceillog2 n"

definition ratelimiter_table_size :: "nat \<Rightarrow> u32" where
  "ratelimiter_table_size totalram_pages =
     (if totalram_pages > 2 ^ 30 div 4096 then 8192
      else of_nat (max 16 (roundup_pow_of_two (totalram_pages * 4096 div 2 ^ 14 div 8))))"

definition wg_ratelimiter_init ::
  "bool \<times> bool \<times> bool \<Rightarrow> nat \<Rightarrow> (u32 \<Rightarrow> u32 \<Rightarrow> u32) \<Rightarrow> (u32 \<Rightarrow> u32 \<Rightarrow> u32 \<Rightarrow> u32) \<Rightarrow> ratelimiter \<Rightarrow>
    (errno + unit) \<times> ratelimiter" where
  "wg_ratelimiter_init ok pages h2 h3 rl =
     (let rl1 = rl\<lparr>init_refcnt := init_refcnt rl + 1\<rparr> in
      if init_refcnt rl1 \<noteq> 1 then (Inr (), rl1)
      else
        let (cache_ok, v4_ok, v6_ok) = ok;
            err = (\<lambda>rl. (Inl ENOMEM, rl\<lparr>init_refcnt := init_refcnt rl - 1\<rparr>))
        in if \<not> cache_ok then err rl1
           else
             let size = ratelimiter_table_size pages;
                 rl2 = rl1\<lparr>table_size := size, max_entries := size * 8\<rparr>
             in if \<not> v4_ok then err rl2
                else if \<not> v6_ok then err rl2
                else (Inr (), rl2\<lparr>table_v4 := (\<lambda>_. []), table_v6 := (\<lambda>_. []), gc_queued := True,
                       hsiphash_2u32 := h2, hsiphash_3u32 := h3\<rparr>))"

definition wg_ratelimiter_uninit :: "u64 \<Rightarrow> ratelimiter \<Rightarrow> ratelimiter" where
  "wg_ratelimiter_uninit now rl =
     (if init_refcnt rl = 0 then rl
      else
        let rl1 = rl\<lparr>init_refcnt := init_refcnt rl - 1\<rparr> in
        if init_refcnt rl1 \<noteq> 0 then rl1
        else rcu_barrier (wg_ratelimiter_gc_entries False now (rl1\<lparr>gc_queued := False\<rparr>)))"

text \<open>The static variables before the first call.\<close>

definition ratelimiter0 :: "(u32 \<Rightarrow> u32 \<Rightarrow> u32) \<Rightarrow> (u32 \<Rightarrow> u32 \<Rightarrow> u32 \<Rightarrow> u32) \<Rightarrow> ratelimiter" where
  "ratelimiter0 h2 h3 = \<lparr>hsiphash_2u32 = h2, hsiphash_3u32 = h3, init_refcnt = 0, total_entries = 0, max_entries = 0,
     table_size = 0, gc_queued = False, table_v4 = (\<lambda>_. []), table_v6 = (\<lambda>_. []), rcu_pending = 0\<rparr>"

section \<open>The table in order\<close>

definition entry_key :: "ratelimiter_entry \<Rightarrow> u64 \<times> u64" where
  "entry_key e = (re_net e, re_ip e)"

text \<open>A bucket has one entry per source, and no entry has more tokens than the burst.\<close>

definition bucket_ok :: "ratelimiter_entry list \<Rightarrow> bool" where
  "bucket_ok es \<longleftrightarrow> distinct (map entry_key es) \<and> (\<forall>e \<in> set es. tokens e \<le> TOKEN_MAX)"

definition entry_count :: "ratelimiter \<Rightarrow> nat" where
  "entry_count rl = (\<Sum>i<unat (table_size rl). length (table_v4 rl i) + length (table_v6 rl i))"

definition tables_ok :: "ratelimiter \<Rightarrow> bool" where
  "tables_ok rl \<longleftrightarrow>
     (\<forall>v6 b. bucket_ok (table_of rl v6 b)) \<and> (\<forall>v6 b. unat (table_size rl) \<le> b \<longrightarrow> table_of rl v6 b = []) \<and>
     unat (total_entries rl) = entry_count rl + rcu_pending rl \<and> total_entries rl \<le> max_entries rl \<and>
     max_entries rl = table_size rl * 8 \<and> unat (table_size rl) * 8 < 2 ^ 31"

text \<open>While nothing uses the limiter, it holds nothing.\<close>

definition ratelimiter_ok :: "ratelimiter \<Rightarrow> bool" where
  "ratelimiter_ok rl \<longleftrightarrow> tables_ok rl \<and> (init_refcnt rl = 0 \<longrightarrow> total_entries rl = 0)"

lemma tables_ok_upd [simp]:
  "tables_ok (rl\<lparr>init_refcnt := i\<rparr>) = tables_ok rl" "tables_ok (rl\<lparr>gc_queued := q\<rparr>) = tables_ok rl"
  by (simp_all add: tables_ok_def table_of_def entry_count_def)

lemma entry_matches_key: "entry_matches net ip e \<longleftrightarrow> entry_key e = (net, ip)"
  by (simp add: entry_matches_def entry_key_def)

lemma entry_take_key [simp]: "entry_key (snd (entry_take now e)) = entry_key e"
  by (simp add: entry_take_def entry_key_def Let_def)

lemma TOKEN_MAX_unat: "unat TOKEN_MAX = 250000000" "unat PACKET_COST = 50000000" "unat NSEC_PER_SEC = 1000000000"
  "PACKET_COST \<le> TOKEN_MAX" "unat (TOKEN_MAX - PACKET_COST) = 200000000"
  by (simp_all add: wg_defs)

lemma entry_take_tokens: "tokens (snd (entry_take now e)) \<le> TOKEN_MAX"
proof -
  have "t - PACKET_COST \<le> TOKEN_MAX" if "PACKET_COST \<le> t" "t \<le> TOKEN_MAX" for t
    using that by (simp add: word_le_nat_alt unat_diff_small)
  then show ?thesis by (simp add: entry_take_def Let_def)
qed

lemma bucket_take_Some:
  assumes "bucket_take now net ip es = Some (ret, es1)"
  shows "map entry_key es1 = map entry_key es \<and> (bucket_ok es \<longrightarrow> bucket_ok es1)"
  using assms
proof (induction es arbitrary: es1)
  case (Cons e es)
  show ?case
  proof (cases "entry_matches net ip e")
    case True
    then have "es1 = snd (entry_take now e) # es" using Cons.prems by (auto simp: case_prod_beta)
    then show ?thesis by (auto simp: bucket_ok_def entry_take_tokens)
  next
    case False
    then obtain es2 where "bucket_take now net ip es = Some (ret, es2)" "es1 = e # es2" using Cons.prems by auto
    then show ?thesis using Cons.IH [of es2] by (auto simp: bucket_ok_def dest: map_eq_imp_length_eq)
  qed
qed simp

lemma bucket_take_None: "bucket_take now net ip es = None \<longleftrightarrow> (net, ip) \<notin> entry_key ` set es"
  by (induction es) (auto simp: entry_matches_key case_prod_beta)

subsection \<open>Garbage collection\<close>

lemma gc_fold_table:
  "table_of (fold (gc_bucket work now) [0..<n] rl) v6 i =
     (if i < n then filter (\<lambda>e. \<not> gc_drops work now e) (table_of rl v6 i) else table_of rl v6 i)"
  by (induction n) (auto simp: gc_bucket_def table_of_def split: if_splits)

lemma gc_fold_pending:
  "rcu_pending (fold (gc_bucket work now) [0..<n] rl) = rcu_pending rl +
     (\<Sum>i<n. length (filter (gc_drops work now) (table_v4 rl i)) + length (filter (gc_drops work now) (table_v6 rl i)))"
proof (induction n)
  case (Suc n)
  have "table_v4 (fold (gc_bucket work now) [0..<n] rl) n = table_v4 rl n"
    "table_v6 (fold (gc_bucket work now) [0..<n] rl) n = table_v6 rl n"
    using gc_fold_table [of work now n rl False n] gc_fold_table [of work now n rl True n] by (simp_all add: table_of_def)
  moreover have "rcu_pending (gc_bucket work now n r) = rcu_pending r + length (filter (gc_drops work now) (table_v4 r n))
    + length (filter (gc_drops work now) (table_v6 r n))" for r by (simp add: gc_bucket_def)
  ultimately show ?case using Suc by simp
qed simp

lemma gc_fold_same [simp]:
  "table_size (fold (gc_bucket work now) is rl) = table_size rl"
  "max_entries (fold (gc_bucket work now) is rl) = max_entries rl"
  "total_entries (fold (gc_bucket work now) is rl) = total_entries rl"
  "init_refcnt (fold (gc_bucket work now) is rl) = init_refcnt rl"
  "hsiphash_2u32 (fold (gc_bucket work now) is rl) = hsiphash_2u32 rl"
  "hsiphash_3u32 (fold (gc_bucket work now) is rl) = hsiphash_3u32 rl"
  by (induction "is" arbitrary: rl) (simp_all add: gc_bucket_def)

lemma gc_count:
  assumes "n = unat (table_size rl)"
  shows "entry_count (fold (gc_bucket work now) [0..<n] rl) + rcu_pending (fold (gc_bucket work now) [0..<n] rl)
    = entry_count rl + rcu_pending rl"
proof -
  let ?rl = "fold (gc_bucket work now) [0..<n] rl"
  let ?drop = "\<lambda>xs. length (filter (gc_drops work now) xs)"
  let ?keep = "\<lambda>xs. length (filter (\<lambda>e. \<not> gc_drops work now e) xs)"
  have "table_v4 ?rl i = filter (\<lambda>e. \<not> gc_drops work now e) (table_v4 rl i)"
    "table_v6 ?rl i = filter (\<lambda>e. \<not> gc_drops work now e) (table_v6 rl i)" if "i < n" for i
    using gc_fold_table [of work now n rl False i] gc_fold_table [of work now n rl True i] that
    by (simp_all add: table_of_def)
  then have "entry_count ?rl = (\<Sum>i<n. ?keep (table_v4 rl i) + ?keep (table_v6 rl i))"
    using assms by (simp add: entry_count_def)
  moreover have l: "length xs = ?keep xs + ?drop xs" for xs
    using sum_length_filter_compl [of "gc_drops work now" xs] by simp
  have "entry_count rl = (\<Sum>i<n. (?keep (table_v4 rl i) + ?keep (table_v6 rl i)) + (?drop (table_v4 rl i) + ?drop (table_v6 rl i)))"
    unfolding entry_count_def assms by (rule sum.cong [OF refl], subst (1 2) l) simp
  ultimately show ?thesis by (simp add: gc_fold_pending sum.distrib)
qed

lemma bucket_ok_filter: "bucket_ok es \<Longrightarrow> bucket_ok (filter P es)"
  by (auto simp: bucket_ok_def distinct_map intro: inj_on_subset)

lemma bucket_ok_Nil [simp]: "bucket_ok []"
  by (simp add: bucket_ok_def)

lemma tables_ok_gc:
  assumes "tables_ok rl"
  shows "tables_ok (fold (gc_bucket work now) [0..<unat (table_size rl)] rl)"
proof -
  let ?rl = "fold (gc_bucket work now) [0..<unat (table_size rl)] rl"
  have c: "entry_count ?rl + rcu_pending ?rl = entry_count rl + rcu_pending rl" by (rule gc_count) simp
  have "bucket_ok (table_of ?rl v6 b)" for v6 b
    using assms by (simp add: gc_fold_table tables_ok_def bucket_ok_filter)
  moreover have "table_of ?rl v6 b = []" if "unat (table_size rl) \<le> b" for v6 b
    using assms that by (simp add: gc_fold_table tables_ok_def)
  ultimately show ?thesis using assms c by (auto simp: tables_ok_def)
qed

lemma tables_ok_rcu:
  assumes "tables_ok rl" "0 < rcu_pending rl"
  shows "tables_ok (entry_free rl)"
proof -
  have "0 < unat (total_entries rl)" using assms by (simp add: tables_ok_def)
  then have "unat (total_entries rl - 1) = unat (total_entries rl) - 1"
    by (metis One_nat_def Suc_leI unat_1 unat_diff_small word_le_nat_alt)
  moreover have "table_of (entry_free rl) = table_of rl" "entry_count (entry_free rl) = entry_count rl"
    by (auto simp: entry_free_def table_of_def entry_count_def fun_eq_iff)
  moreover have "total_entries (entry_free rl) = total_entries rl - 1" "rcu_pending (entry_free rl) = rcu_pending rl - 1"
    "table_size (entry_free rl) = table_size rl" "max_entries (entry_free rl) = max_entries rl"
    "init_refcnt (entry_free rl) = init_refcnt rl"
    by (simp_all add: entry_free_def)
  ultimately show ?thesis using assms by (auto simp: tables_ok_def word_le_nat_alt)
qed

lemma rcu_barrier_ok:
  assumes "tables_ok rl"
  shows "tables_ok (rcu_barrier rl) \<and> rcu_pending (rcu_barrier rl) = 0 \<and>
    table_v4 (rcu_barrier rl) = table_v4 rl \<and> table_v6 (rcu_barrier rl) = table_v6 rl \<and>
    table_size (rcu_barrier rl) = table_size rl \<and> max_entries (rcu_barrier rl) = max_entries rl \<and>
    init_refcnt (rcu_barrier rl) = init_refcnt rl"
proof -
  have "n \<le> rcu_pending rl \<Longrightarrow> tables_ok ((entry_free ^^ n) rl) \<and> rcu_pending ((entry_free ^^ n) rl) = rcu_pending rl - n \<and>
    table_v4 ((entry_free ^^ n) rl) = table_v4 rl \<and> table_v6 ((entry_free ^^ n) rl) = table_v6 rl \<and>
    table_size ((entry_free ^^ n) rl) = table_size rl \<and> max_entries ((entry_free ^^ n) rl) = max_entries rl \<and>
    init_refcnt ((entry_free ^^ n) rl) = init_refcnt rl" for n
  proof (induction n)
    case (Suc n)
    let ?r = "(entry_free ^^ n) rl"
    have "tables_ok (entry_free ?r)" using Suc by (intro tables_ok_rcu) auto
    moreover have "rcu_pending (entry_free r) = rcu_pending r - 1" "table_v4 (entry_free r) = table_v4 r"
      "table_v6 (entry_free r) = table_v6 r" "table_size (entry_free r) = table_size r"
      "max_entries (entry_free r) = max_entries r" "init_refcnt (entry_free r) = init_refcnt r" for r
      by (simp_all add: entry_free_def)
    ultimately show ?case using Suc by simp
  qed (simp add: assms)
  from this [of "rcu_pending rl"] show ?thesis by (simp add: rcu_barrier_def)
qed

subsection \<open>Admission\<close>

lemma table_of_set [simp]:
  "table_of (set_bucket v6 b es rl) w c = (if w = v6 \<and> c = b then es else table_of rl w c)"
  by (simp add: set_bucket_def table_of_def)

lemma set_bucket_same [simp]:
  "table_size (set_bucket v6 b es rl) = table_size rl" "max_entries (set_bucket v6 b es rl) = max_entries rl"
  "total_entries (set_bucket v6 b es rl) = total_entries rl" "init_refcnt (set_bucket v6 b es rl) = init_refcnt rl"
  "rcu_pending (set_bucket v6 b es rl) = rcu_pending rl"
  "hsiphash_2u32 (set_bucket v6 b es rl) = hsiphash_2u32 rl" "hsiphash_3u32 (set_bucket v6 b es rl) = hsiphash_3u32 rl"
  by (simp_all add: set_bucket_def)

lemma entry_count_table_of:
  "entry_count rl = (\<Sum>i<unat (table_size rl). length (table_of rl False i) + length (table_of rl True i))"
  by (simp add: entry_count_def table_of_def)

lemma entry_count_set:
  assumes "b < unat (table_size rl)"
  shows "entry_count (set_bucket v6 b es rl) + length (table_of rl v6 b) = entry_count rl + length es"
proof -
  let ?n = "unat (table_size rl)"
  let ?f = "\<lambda>r i. length (table_of r False i) + length (table_of r True i)"
  have split: "(\<Sum>i<?n. g i) = g b + (\<Sum>i\<in>{..<?n} - {b}. g i)" for g :: "nat \<Rightarrow> nat"
    using assms by (simp add: sum.remove)
  have "(\<Sum>i\<in>{..<?n} - {b}. ?f (set_bucket v6 b es rl) i) = (\<Sum>i\<in>{..<?n} - {b}. ?f rl i)"
    by (rule sum.cong) auto
  then show ?thesis unfolding entry_count_table_of set_bucket_same split by (cases v6) simp_all
qed

lemma entry_count_0_iff: "entry_count rl = 0 \<longleftrightarrow> (\<forall>v6 b. b < unat (table_size rl) \<longrightarrow> table_of rl v6 b = [])"
  by (auto simp: entry_count_def table_of_def split: if_splits)

lemma source_bucket_lt:
  assumes "source_bucket rl net src = Some (v6, b, ip)" "table_size rl \<noteq> 0"
  shows "b < unat (table_size rl)"
proof -
  have "unat (x AND (table_size rl - 1)) < unat (table_size rl)" for x
  proof -
    have "x AND (table_size rl - 1) \<le> table_size rl - 1" by (rule word_and_le1)
    also have "\<dots> < table_size rl" using assms(2) by (metis measure_unat unat_mono word_less_nat_alt)
    finally show ?thesis by (simp add: word_less_nat_alt)
  qed
  then show ?thesis using assms(1) by (auto simp: source_bucket_def Let_def split: ip_source.splits)
qed

text \<open>The branches of the admission: no address, a bucket, no room, a new bucket.\<close>

definition new_entry :: "u64 \<Rightarrow> u64 \<Rightarrow> u64 \<Rightarrow> ratelimiter_entry" where
  "new_entry now net ip = \<lparr>last_time_ns = now, tokens = TOKEN_MAX - PACKET_COST, re_ip = ip, re_net = net\<rparr>"

lemma allow_other: "source_bucket rl net src = None \<Longrightarrow> wg_ratelimiter_allow now alloc net src rl = (False, rl)"
  by (simp add: wg_ratelimiter_allow_def)

lemma allow_hit:
  assumes "source_bucket rl net src = Some (v6, b, ip)" "bucket_take now net ip (table_of rl v6 b) = Some (ret, es)"
  shows "wg_ratelimiter_allow now alloc net src rl = (ret, set_bucket v6 b es rl)"
  using assms by (simp add: wg_ratelimiter_allow_def)

lemma allow_oom:
  assumes "source_bucket rl net src = Some (v6, b, ip)" "bucket_take now net ip (table_of rl v6 b) = None"
    and "total_entries rl + 1 > max_entries rl \<or> \<not> alloc"
  shows "wg_ratelimiter_allow now alloc net src rl = (False, rl)"
  using assms by (auto simp: wg_ratelimiter_allow_def Let_def)

lemma allow_new:
  assumes "source_bucket rl net src = Some (v6, b, ip)" "bucket_take now net ip (table_of rl v6 b) = None"
    and "total_entries rl + 1 \<le> max_entries rl" "alloc"
  shows "wg_ratelimiter_allow now alloc net src rl =
    (True, set_bucket v6 b (new_entry now net ip # table_of rl v6 b) (rl\<lparr>total_entries := total_entries rl + 1\<rparr>))"
  using assms by (simp add: wg_ratelimiter_allow_def new_entry_def table_of_def Let_def not_less)

lemma allow_cases:
  obtains (other) "wg_ratelimiter_allow now alloc net src rl = (False, rl)"
  | (hit) v6 b ip ret es where "source_bucket rl net src = Some (v6, b, ip)"
      "bucket_take now net ip (table_of rl v6 b) = Some (ret, es)"
      "wg_ratelimiter_allow now alloc net src rl = (ret, set_bucket v6 b es rl)"
  | (new) v6 b ip where "source_bucket rl net src = Some (v6, b, ip)"
      "bucket_take now net ip (table_of rl v6 b) = None" "total_entries rl + 1 \<le> max_entries rl"
      "wg_ratelimiter_allow now alloc net src rl =
        (True, set_bucket v6 b (new_entry now net ip # table_of rl v6 b) (rl\<lparr>total_entries := total_entries rl + 1\<rparr>))"
proof (cases "source_bucket rl net src")
  case None
  then show ?thesis using other allow_other by blast
next
  case (Some x)
  then obtain v6 b ip where sb: "source_bucket rl net src = Some (v6, b, ip)" by (cases x) auto
  show ?thesis
  proof (cases "bucket_take now net ip (table_of rl v6 b)")
    case None
    show ?thesis
    proof (cases "total_entries rl + 1 > max_entries rl \<or> \<not> alloc")
      case True
      then show ?thesis using other allow_oom [OF sb None True] by blast
    next
      case False
      then have l: "total_entries rl + 1 \<le> max_entries rl" "alloc" by auto
      show ?thesis using new [OF sb None l(1)] allow_new [OF sb None l] by blast
    qed
  next
    case (Some y)
    then obtain ret es where "bucket_take now net ip (table_of rl v6 b) = Some (ret, es)" by (cases y) auto
    then show ?thesis using hit sb allow_hit [OF sb] by blast
  qed
qed

lemma tables_ok_allow:
  assumes ok: "tables_ok rl"
  shows "tables_ok (snd (wg_ratelimiter_allow now alloc net src rl))"
proof -
  have "unat (total_entries rl) \<le> unat (max_entries rl)" "unat (max_entries rl) < 2 ^ 31"
    using ok by (auto simp: tables_ok_def word_le_nat_alt unat_word_ariths)
  then have tot: "unat (total_entries rl + 1) = unat (total_entries rl) + 1"
    using unat_add_small [of "total_entries rl" 1] by simp
  show ?thesis
  proof (cases rule: allow_cases [of now alloc net src rl])
    case (hit v6 b ip ret es)
    have "length es = length (table_of rl v6 b)" "bucket_ok es"
      using bucket_take_Some [OF hit(2)] ok by (auto simp: tables_ok_def dest: map_eq_imp_length_eq)
    moreover have "b < unat (table_size rl)"
    proof (rule ccontr)
      assume "\<not> b < unat (table_size rl)"
      then have "table_of rl v6 b = []" using ok by (auto simp: tables_ok_def)
      then show False using hit(2) by simp
    qed
    moreover have "entry_count (set_bucket v6 b es rl) = entry_count rl"
      using entry_count_set [OF calculation(3), of v6 es] calculation(1) by simp
    ultimately show ?thesis using ok hit(3) by (auto simp: tables_ok_def)
  next
    case other
    then show ?thesis using ok by simp
  next
    case (new v6 b ip)
    let ?rl1 = "rl\<lparr>total_entries := total_entries rl + 1\<rparr>"
    let ?es = "new_entry now net ip # table_of rl v6 b"
    have nz: "table_size rl \<noteq> 0" using new(3) ok tot by (auto simp: tables_ok_def word_le_nat_alt)
    have b: "b < unat (table_size rl)" by (rule source_bucket_lt [OF new(1) nz])
    have old: "table_of ?rl1 = table_of rl" "entry_count ?rl1 = entry_count rl"
      by (auto simp: table_of_def entry_count_def fun_eq_iff)
    have "entry_count (set_bucket v6 b ?es ?rl1) = entry_count rl + 1"
      using entry_count_set [of b ?rl1 v6 ?es] b old by simp
    moreover have "bucket_ok ?es"
      using ok new(2) by (auto simp: tables_ok_def bucket_ok_def bucket_take_None entry_key_def new_entry_def
          word_le_nat_alt TOKEN_MAX_unat)
    ultimately show ?thesis using ok new(3,4) old tot b by (auto simp: tables_ok_def)
  qed
qed

subsection \<open>Set-up and tear-down\<close>

lemma ratelimiter_table_size_bound: "unat (ratelimiter_table_size pages) \<le> 8192"
proof (cases "pages > 2 ^ 30 div 4096")
  case False
  let ?n = "pages * 4096 div 2 ^ 14 div 8"
  have "?n \<le> 2 ^ 13" using False by simp
  then have "ceillog2 ?n \<le> 13" by (cases "?n = 0") (simp_all add: ceillog2_le_iff)
  then have "(2::nat) ^ ceillog2 ?n \<le> 2 ^ 13" by (rule power_increasing) simp
  then have "max 16 (roundup_pow_of_two ?n) \<le> 8192" by (simp add: roundup_pow_of_two_def)
  moreover have "unat (of_nat k :: u32) \<le> k" for k by (simp only: unat_of_nat mod_less_eq_dividend)
  ultimately have "unat (of_nat (max 16 (roundup_pow_of_two ?n)) :: u32) \<le> 8192" by (rule order_trans [rotated])
  then show ?thesis using False by (simp only: ratelimiter_table_size_def if_False)
qed (simp add: ratelimiter_table_size_def)

lemma tables_ok_empty:
  assumes "\<forall>v6 b. table_of rl v6 b = []" "rcu_pending rl = 0" "total_entries rl = 0"
    and "max_entries rl = table_size rl * 8" "unat (table_size rl) \<le> 8192"
  shows "tables_ok rl"
proof -
  have "entry_count rl = 0" using assms(1) by (simp add: entry_count_table_of)
  then show ?thesis using assms by (simp add: tables_ok_def)
qed

lemma tables_ok_off:
  assumes "tables_ok rl" "total_entries rl = 0"
  shows "table_of rl v6 b = []" "rcu_pending rl = 0"
proof -
  have z: "entry_count rl = 0" "rcu_pending rl = 0" using assms by (auto simp: tables_ok_def)
  then show "rcu_pending rl = 0" by simp
  show "table_of rl v6 b = []"
    using z(1) assms(1) by (cases "b < unat (table_size rl)") (auto simp: entry_count_0_iff tables_ok_def)
qed

lemma init_first:
  assumes "init_refcnt rl = 0"
  shows "snd (wg_ratelimiter_init (c, v, w) pages h2 h3 rl) =
    (if \<not> c then rl
     else
       let rl2 = rl\<lparr>table_size := ratelimiter_table_size pages, max_entries := ratelimiter_table_size pages * 8\<rparr>
       in if \<not> v \<or> \<not> w then rl2
          else rl2\<lparr>init_refcnt := 1, table_v4 := (\<lambda>_. []), table_v6 := (\<lambda>_. []), gc_queued := True,
            hsiphash_2u32 := h2, hsiphash_3u32 := h3\<rparr>)"
  using assms by (cases c; cases v; cases w) (simp_all add: wg_ratelimiter_init_def Let_def)

lemma ratelimiter_ok_init:
  assumes ok: "ratelimiter_ok rl" and "init_refcnt rl \<noteq> - 1"
  shows "ratelimiter_ok (snd (wg_ratelimiter_init flags pages h2 h3 rl))"
proof (cases "init_refcnt rl = 0")
  case False
  then have "init_refcnt rl + 1 \<noteq> 1" by (metis add_cancel_left_left)
  moreover have "init_refcnt rl + 1 \<noteq> 0" using assms(2) by (metis add.inverse_unique add.commute)
  ultimately show ?thesis using ok by (simp add: wg_ratelimiter_init_def ratelimiter_ok_def Let_def)
next
  case True
  then have t: "tables_ok rl" "total_entries rl = 0" using ok by (auto simp: ratelimiter_ok_def)
  have e: "table_v4 rl b = []" "table_v6 rl b = []" "rcu_pending rl = 0" for b
    using tables_ok_off(1) [OF t, of False b] tables_ok_off(1) [OF t, of True b] tables_ok_off(2) [OF t]
    by (simp_all add: table_of_def)
  let ?rl2 = "rl\<lparr>table_size := ratelimiter_table_size pages, max_entries := ratelimiter_table_size pages * 8\<rparr>"
  let ?rl3 = "?rl2\<lparr>init_refcnt := 1, table_v4 := (\<lambda>_. []), table_v6 := (\<lambda>_. []), gc_queued := True,
            hsiphash_2u32 := h2, hsiphash_3u32 := h3\<rparr>"
  have "ratelimiter_ok ?rl2" "ratelimiter_ok ?rl3"
    unfolding ratelimiter_ok_def using t e ratelimiter_table_size_bound
    by (auto intro!: tables_ok_empty simp: table_of_def)
  moreover obtain c v w where "flags = (c, v, w)" by (cases flags)
  ultimately show ?thesis using ok by (simp add: init_first [OF True] Let_def)
qed

lemma gc_all_empty:
  assumes "tables_ok rl"
  shows "table_of (fold (gc_bucket False now) [0..<unat (table_size rl)] rl) v6 b = []"
  using assms by (auto simp: gc_fold_table gc_drops_def tables_ok_def)

lemma drop_all:
  assumes "tables_ok rl"
  shows "tables_ok (rcu_barrier (wg_ratelimiter_gc_entries False now rl))"
    and "total_entries (rcu_barrier (wg_ratelimiter_gc_entries False now rl)) = 0"
    and "init_refcnt (rcu_barrier (wg_ratelimiter_gc_entries False now rl)) = init_refcnt rl"
    and "max_entries (rcu_barrier (wg_ratelimiter_gc_entries False now rl)) = max_entries rl"
proof -
  let ?gc = "fold (gc_bucket False now) [0..<unat (table_size rl)] rl"
  have gc: "wg_ratelimiter_gc_entries False now rl = ?gc" by (simp add: wg_ratelimiter_gc_entries_def)
  note b = rcu_barrier_ok [OF tables_ok_gc [OF assms, of False now]]
  show "tables_ok (rcu_barrier (wg_ratelimiter_gc_entries False now rl))"
    "init_refcnt (rcu_barrier (wg_ratelimiter_gc_entries False now rl)) = init_refcnt rl"
    "max_entries (rcu_barrier (wg_ratelimiter_gc_entries False now rl)) = max_entries rl"
    unfolding gc using b by simp_all
  have "table_of (rcu_barrier ?gc) = table_of ?gc" using b by (simp add: table_of_def fun_eq_iff)
  then have "entry_count (rcu_barrier ?gc) = 0" using gc_all_empty [OF assms] by (simp add: entry_count_table_of)
  then have "unat (total_entries (rcu_barrier ?gc)) = 0" using b by (simp add: tables_ok_def)
  then show "total_entries (rcu_barrier (wg_ratelimiter_gc_entries False now rl)) = 0"
    unfolding gc by (simp add: unat_eq_0)
qed

lemma ratelimiter_ok_uninit:
  assumes ok: "ratelimiter_ok rl"
  shows "ratelimiter_ok (wg_ratelimiter_uninit now rl)"
proof -
  let ?off = "rl\<lparr>init_refcnt := 0, gc_queued := False\<rparr>"
  have "tables_ok ?off" using ok by (simp add: ratelimiter_ok_def)
  from drop_all(1,2) [OF this, of now]
  have "ratelimiter_ok (rcu_barrier (wg_ratelimiter_gc_entries False now ?off))" unfolding ratelimiter_ok_def by blast
  moreover have "wg_ratelimiter_uninit now rl = (if init_refcnt rl = 0 then rl
    else if init_refcnt rl \<noteq> 1 then rl\<lparr>init_refcnt := init_refcnt rl - 1\<rparr>
    else rcu_barrier (wg_ratelimiter_gc_entries False now ?off))"
    by (simp add: wg_ratelimiter_uninit_def Let_def)
  ultimately show ?thesis using ok by (simp add: ratelimiter_ok_def)
qed

end
