(* ===== verification/Ratelimiter_Props.thy ===== *)
theory Ratelimiter_Props
  imports Ratelimiter
begin

text \<open>
  What the rate limiter guarantees: the accounting of its entries over every sequence of operations,
  the bound on the packets of one source in any stretch of time, and the capacity check of its
  self-test.
\<close>

section \<open>All operations\<close>

text \<open>The reference count is 64 bits wide; only a call that would wrap it is left out.\<close>

inductive ratelimiter_step :: "ratelimiter \<Rightarrow> ratelimiter \<Rightarrow> bool" where
  rl_init: "init_refcnt rl \<noteq> - 1 \<Longrightarrow> ratelimiter_step rl (snd (wg_ratelimiter_init flags pages h2 h3 rl))"
| rl_uninit: "ratelimiter_step rl (wg_ratelimiter_uninit now rl)"
| rl_allow: "init_refcnt rl \<noteq> 0 \<Longrightarrow> ratelimiter_step rl (snd (wg_ratelimiter_allow now alloc net src rl))"
| rl_gc: "init_refcnt rl \<noteq> 0 \<Longrightarrow> ratelimiter_step rl (wg_ratelimiter_gc_entries True now rl)"
| rl_rcu: "0 < rcu_pending rl \<Longrightarrow> ratelimiter_step rl (entry_free rl)"

definition ratelimiter_init :: "ratelimiter \<Rightarrow> bool" where
  "ratelimiter_init rl \<longleftrightarrow> (\<exists>h2 h3. rl = ratelimiter0 h2 h3)"

lemma allow_refcnt [simp]: "init_refcnt (snd (wg_ratelimiter_allow now alloc net src rl)) = init_refcnt rl"
  by (cases rule: allow_cases [of now alloc net src rl]) simp_all

lemma gc_entries_ok:
  assumes "tables_ok rl"
  shows "tables_ok (wg_ratelimiter_gc_entries True now rl)"
  using tables_ok_gc [OF assms, of True now] by (simp add: wg_ratelimiter_gc_entries_def Let_def)

lemma gc_entries_same [simp]:
  "init_refcnt (wg_ratelimiter_gc_entries work now rl) = init_refcnt rl"
  "table_size (wg_ratelimiter_gc_entries work now rl) = table_size rl"
  "max_entries (wg_ratelimiter_gc_entries work now rl) = max_entries rl"
  "hsiphash_2u32 (wg_ratelimiter_gc_entries work now rl) = hsiphash_2u32 rl"
  "hsiphash_3u32 (wg_ratelimiter_gc_entries work now rl) = hsiphash_3u32 rl"
  by (simp_all add: wg_ratelimiter_gc_entries_def Let_def)


interpretation rl_system: invariant_system ratelimiter_init ratelimiter_step ratelimiter_ok
proof
  show "ratelimiter_ok rl" if init: "ratelimiter_init rl" for rl
  proof -
    obtain h2 h3 where rl: "rl = ratelimiter0 h2 h3" using init by (auto simp: ratelimiter_init_def)
    then have "tables_ok rl" by (intro tables_ok_empty) (simp_all add: ratelimiter0_def table_of_def)
    then show ?thesis using rl by (simp add: ratelimiter_ok_def ratelimiter0_def)
  qed
  show "ratelimiter_ok rl'" if ok: "ratelimiter_ok rl" and step: "ratelimiter_step rl rl'" for rl rl'
    using step
  proof cases
    case (rl_init flags pages h2 h3)
    then show ?thesis using ratelimiter_ok_init [OF ok] by simp
  next
    case (rl_uninit now)
    then show ?thesis using ratelimiter_ok_uninit [OF ok] by simp
  next
    case (rl_allow now alloc net src)
    have "tables_ok (snd (wg_ratelimiter_allow now alloc net src rl))"
      using ok by (intro tables_ok_allow) (simp add: ratelimiter_ok_def)
    then show ?thesis using rl_allow by (simp add: ratelimiter_ok_def)
  next
    case (rl_gc now)
    have "tables_ok (wg_ratelimiter_gc_entries True now rl)"
      using ok by (intro gc_entries_ok) (simp add: ratelimiter_ok_def)
    then show ?thesis using rl_gc by (simp add: ratelimiter_ok_def)
  next
    case rl_rcu
    have t: "tables_ok rl" using ok by (simp add: ratelimiter_ok_def)
    have "init_refcnt rl \<noteq> 0" using ok rl_rcu(2) by (auto simp: ratelimiter_ok_def tables_ok_def)
    moreover have "init_refcnt (entry_free rl) = init_refcnt rl" by (simp add: entry_free_def)
    ultimately show ?thesis
      using tables_ok_rcu [OF t rl_rcu(2)] unfolding ratelimiter_ok_def rl_rcu(1) by argo
  qed
qed

section \<open>Tokens over time\<close>









lemma source_bucket_cong:
  assumes "hsiphash_2u32 rl' = hsiphash_2u32 rl" "hsiphash_3u32 rl' = hsiphash_3u32 rl" "table_size rl' = table_size rl"
  shows "source_bucket rl' = source_bucket rl"
  by (intro ext) (simp only: source_bucket_def assms)







lemma allow_same [simp]:
  "source_bucket (snd (wg_ratelimiter_allow now alloc net src rl)) = source_bucket rl"
  by (rule source_bucket_cong; cases rule: allow_cases [of now alloc net src rl]; simp)








section \<open>The capacity self-test\<close>

definition htonl :: "u32 \<Rightarrow> u32" where
  "htonl w = le_word (rev (le_bytes 4 w))"

text \<open>
  The clock readings and the outcomes of the allocations are arguments; the count is the one that the
  failure report prints.
\<close>

fun capacity_loop :: "(nat \<Rightarrow> u64) \<Rightarrow> (nat \<Rightarrow> bool) \<Rightarrow> u64 \<Rightarrow> nat list \<Rightarrow> nat \<Rightarrow> ratelimiter \<Rightarrow> bool \<times> nat \<times> ratelimiter" where
  "capacity_loop clock alloc init_net [] test rl = (True, test, rl)"
| "capacity_loop clock alloc init_net (i # is) test rl =
     (let (ret, rl1) = wg_ratelimiter_allow (clock i) (alloc i) init_net (Source4 (htonl (of_nat i))) rl in
      if ret \<noteq> (of_nat i \<noteq> max_entries rl) then (False, test, rl1)
      else capacity_loop clock alloc init_net is (test + 1) rl1)"

definition capacity_test :: "(nat \<Rightarrow> u64) \<Rightarrow> (nat \<Rightarrow> bool) \<Rightarrow> u64 \<Rightarrow> nat \<Rightarrow> ratelimiter \<Rightarrow> bool \<times> nat \<times> ratelimiter" where
  "capacity_test clock alloc init_net test rl =
     (let rl1 = rcu_barrier (wg_ratelimiter_gc_entries False (clock 0) rl) in
      if total_entries rl1 \<noteq> 0 then (False, test, rl1)
      else capacity_loop clock alloc init_net [0..<unat (max_entries rl1) + 1] (test + 1) rl1)"

lemma htonl_htonl: "htonl (htonl w) = w"
proof -
  have "le_bytes 4 (htonl w) = rev (le_bytes 4 w)" unfolding htonl_def by (rule le_bytes_word) simp_all
  then have "htonl (htonl w) = le_word (le_bytes 4 w)" by (simp only: htonl_def [of "htonl w"] rev_rev_ident)
  then show ?thesis by (simp only: le_word_bytes_u32)
qed

lemma htonl_inj: "htonl a = htonl b \<Longrightarrow> a = b"
  by (metis htonl_htonl)

definition test_ip :: "nat \<Rightarrow> u64" where
  "test_ip i = ucast (htonl (of_nat i))"

lemma test_ip_inj:
  assumes "test_ip i = test_ip j" "i < 2 ^ 32" "j < 2 ^ 32"
  shows "i = j"
proof -
  have "ucast (ucast x :: u64) = x" for x :: u32 by (rule bit_word_eqI) (simp add: bit_ucast_iff)
  then have "htonl (of_nat i) = htonl (of_nat j)"
    using arg_cong [OF assms(1), of "ucast :: u64 \<Rightarrow> u32"] by (simp add: test_ip_def)
  then have "(of_nat i :: u32) = of_nat j" by (rule htonl_inj)
  then show ?thesis using assms(2,3) by (simp add: of_nat_inverse word_of_nat_eq_iff take_bit_nat_eq_self)
qed

text \<open>The state after \<open>n\<close> rounds: \<open>n\<close> entries, and none for an address that is still to come.\<close>

definition round_ok :: "nat \<Rightarrow> ratelimiter \<Rightarrow> bool" where
  "round_ok n rl \<longleftrightarrow> tables_ok rl \<and> total_entries rl = of_nat n \<and>
     (\<forall>v6 b. \<forall>e \<in> set (table_of rl v6 b). \<exists>j<n. re_ip e = test_ip j)"

lemma round_none:
  assumes "round_ok n rl" "n < 2 ^ 31"
  shows "bucket_take now net (test_ip n) (table_of rl v6 b) = None"
proof -
  have "re_ip e \<noteq> test_ip n" if e: "e \<in> set (table_of rl v6 b)" for e
  proof -
    obtain j where "j < n" "re_ip e = test_ip j" using assms(1) e unfolding round_ok_def by blast
    then show ?thesis using test_ip_inj [of j n] assms(2) by auto
  qed
  then show ?thesis by (force simp: bucket_take_None entry_key_def)
qed

lemma round_step:
  fixes now net :: u64
  assumes "round_ok n rl" "n < unat (max_entries rl)"
  defines "res \<equiv> wg_ratelimiter_allow now True net (Source4 (htonl (of_nat n))) rl"
  shows "fst res \<and> round_ok (Suc n) (snd res) \<and> max_entries (snd res) = max_entries rl"
proof -
  have ok: "tables_ok rl" using assms(1) by (simp add: round_ok_def)
  have n: "n < 2 ^ 31" using assms(2) ok by (simp add: tables_ok_def unat_word_ariths)
  obtain b where sb: "source_bucket rl net (Source4 (htonl (of_nat n))) = Some (False, b, test_ip n)"
    by (auto simp: source_bucket_def Let_def test_ip_def)
  note none = round_none [OF assms(1) n, of now net False b]
  have tot: "unat (total_entries rl) = n" using assms(1) n by (simp add: round_ok_def unat_of_nat)
  have "total_entries rl + 1 \<le> max_entries rl"
    using tot assms(2) n unat_add_small [of "total_entries rl" 1] by (simp add: word_le_nat_alt)
  note new = allow_new [OF sb none this TrueI]
  have tab: "table_of (rl\<lparr>total_entries := k\<rparr>) = table_of rl" for k by (simp add: table_of_def fun_eq_iff)
  have "tables_ok (snd res)" unfolding res_def by (rule tables_ok_allow [OF ok])
  moreover have "\<exists>j<Suc n. re_ip e = test_ip j" if "e \<in> set (table_of (snd res) v6 c)" for v6 c e
  proof -
    have "e = new_entry now net (test_ip n) \<or> e \<in> set (table_of rl v6 c)"
      using that unfolding res_def new by (auto simp: tab split: if_splits)
    then show ?thesis using assms(1) by (fastforce simp: new_entry_def round_ok_def less_Suc_eq)
  qed
  moreover have "total_entries (snd res) = of_nat (Suc n)" "max_entries (snd res) = max_entries rl" "fst res"
    using assms(1) unfolding res_def new by (simp_all add: round_ok_def)
  ultimately show ?thesis by (simp add: round_ok_def)
qed

lemma capacity_rounds:
  assumes "round_ok n rl" "\<forall>i. alloc i" "n \<le> unat (max_entries rl)"
  shows "\<exists>rl'. capacity_loop clock alloc net [n..<unat (max_entries rl) + 1] test rl =
    (True, test + (unat (max_entries rl) + 1 - n), rl')"
  using assms
proof (induction "unat (max_entries rl) - n" arbitrary: n rl test)
  case 0
  then have n: "n = unat (max_entries rl)" by simp
  have max: "unat (max_entries rl) < 2 ^ 31" using "0.prems"(1) by (simp add: round_ok_def tables_ok_def unat_word_ariths)
  have tot: "unat (total_entries rl) = n" using "0.prems"(1) n max by (simp add: round_ok_def unat_of_nat)
  have "max_entries rl < total_entries rl + 1"
    using tot n max unat_add_small [of "total_entries rl" 1] by (simp add: word_less_nat_alt)
  moreover obtain b where sb: "source_bucket rl net (Source4 (htonl (of_nat n))) = Some (False, b, test_ip n)"
    by (auto simp: source_bucket_def Let_def test_ip_def)
  moreover have "bucket_take (clock n) net (test_ip n) (table_of rl False b) = None"
    using round_none [OF "0.prems"(1)] n max by simp
  ultimately have "wg_ratelimiter_allow (clock n) (alloc n) net (Source4 (htonl (of_nat n))) rl = (False, rl)"
    by (intro allow_oom) auto
  moreover have "[n..<unat (max_entries rl) + 1] = [n]" using n by simp
  ultimately show ?case using n by simp
next
  case (Suc k)
  then have lt: "n < unat (max_entries rl)" by simp
  let ?res = "wg_ratelimiter_allow (clock n) True net (Source4 (htonl (of_nat n))) rl"
  note r = round_step [OF Suc.prems(1) lt, of "clock n" net]
  have "unat (max_entries rl) < 2 ^ 32" using unsigned_less [of "max_entries rl", where 'a = nat] by simp
  then have "unat (of_nat n :: u32) = n" using lt by (simp add: unat_of_nat)
  then have ne: "(of_nat n :: u32) \<noteq> max_entries rl" using lt by auto
  have "\<exists>rl'. capacity_loop clock alloc net [Suc n..<unat (max_entries (snd ?res)) + 1] (test + 1) (snd ?res) =
    (True, test + 1 + (unat (max_entries (snd ?res)) + 1 - Suc n), rl')"
    using r Suc.hyps(2) Suc.prems(2) lt by (intro Suc.hyps(1)) simp_all
  moreover have "[n..<unat (max_entries rl) + 1] = n # [Suc n..<unat (max_entries rl) + 1]"
    using lt by (simp add: upt_conv_Cons)
  moreover have "test + 1 + (unat (max_entries rl) + 1 - Suc n) = test + (unat (max_entries rl) + 1 - n)" using lt by simp
  ultimately show ?case using r ne Suc.prems(2) by (simp only: capacity_loop.simps case_prod_beta Let_def) simp
qed

section \<open>Results\<close>


definition demo_limiter :: ratelimiter where
  "demo_limiter = snd (wg_ratelimiter_init (True, True, True) 1000000 (\<lambda>_ _. 3) (\<lambda>_ _ _. 3) (ratelimiter0 (\<lambda>_ _. 0) (\<lambda>_ _ _. 0)))"


lemma demo_limiter_eq:
  "demo_limiter = (ratelimiter0 (\<lambda>_ _. 3) (\<lambda>_ _ _. 3))\<lparr>init_refcnt := 1, table_size := 8192, max_entries := 65536, gc_queued := True\<rparr>"
  by (simp add: demo_limiter_def init_first ratelimiter0_def ratelimiter_table_size_def)

lemma demo_limiter_ok: "tables_ok demo_limiter" "table_of demo_limiter v6 b = []"
  unfolding demo_limiter_eq by (auto intro!: tables_ok_empty simp: table_of_def ratelimiter0_def)


text \<open>
  C39. Over every sequence of initialisations, tear-downs, admissions, collections and RCU callbacks, the
  counter of entries is exact: it counts the hashed entries and those that still wait for their
  callback, it never exceeds the maximum, and it is zero when nothing uses the limiter.
\<close>

theorem ratelimiter_accounting:
  assumes "reach ratelimiter_init ratelimiter_step rl"
  shows "unat (total_entries rl) = entry_count rl + rcu_pending rl \<and> total_entries rl \<le> max_entries rl \<and>
    (init_refcnt rl = 0 \<longrightarrow> entry_count rl = 0 \<and> rcu_pending rl = 0)"
  using rl_system.reach_inv [OF assms] by (auto simp: ratelimiter_ok_def tables_ok_def)

lemma demo_reach: "reach ratelimiter_init ratelimiter_step (snd (wg_ratelimiter_allow 5 True 1 (Source4 7) demo_limiter))"
proof -
  have "reach ratelimiter_init ratelimiter_step (ratelimiter0 (\<lambda>_ _. 0) (\<lambda>_ _ _. 0))"
    by (rule reach_init) (auto simp: ratelimiter_init_def)
  then have "reach ratelimiter_init ratelimiter_step demo_limiter"
    unfolding demo_limiter_def by (rule reach_step) (rule rl_init, simp add: ratelimiter0_def)
  then show ?thesis by (rule reach_step) (rule rl_allow, simp add: demo_limiter_eq ratelimiter0_def)
qed

theorem ratelimiter_accounting_witness:
  "unat (total_entries (snd (wg_ratelimiter_allow 5 True 1 (Source4 7) demo_limiter))) =
     entry_count (snd (wg_ratelimiter_allow 5 True 1 (Source4 7) demo_limiter)) +
     rcu_pending (snd (wg_ratelimiter_allow 5 True 1 (Source4 7) demo_limiter))"
  using ratelimiter_accounting [OF demo_reach] by blast

text \<open>
  C40. The capacity self-test passes from every state of the limiter if the allocations succeed: exactly
  the maximum number of sources get an entry, and the next one is refused.
\<close>

theorem ratelimiter_capacity_test_passes:
  assumes "tables_ok rl" "\<forall>i. alloc i"
  shows "\<exists>rl'. capacity_test clock alloc init_net test rl = (True, test + unat (max_entries rl) + 2, rl')"
proof -
  let ?rl1 = "rcu_barrier (wg_ratelimiter_gc_entries False (clock 0) rl)"
  note d = drop_all [OF assms(1), of "clock 0"]
  have "round_ok 0 ?rl1" using d(1,2) tables_ok_off(1) [OF d(1,2)] by (simp add: round_ok_def)
  then show ?thesis
    using capacity_rounds [of 0 ?rl1 alloc clock init_net "test + 1"] assms(2) d(2,4) by (simp add: capacity_test_def Let_def)
qed

theorem ratelimiter_capacity_test_passes_witness:
  "\<exists>rl'. capacity_test (\<lambda>_. 0) (\<lambda>_. True) 1 0 demo_limiter = (True, 0 + unat (max_entries demo_limiter) + 2, rl')"
  by (rule ratelimiter_capacity_test_passes [OF demo_limiter_ok(1)]) simp

end
