(* ===== verification/Noise_Crypto.thy ===== *)
theory Noise_Crypto
  imports Messages
begin

text \<open>
  The key schedule of the handshake (\<^verbatim>\<open>noise.c\<close>): HMAC and HKDF over BLAKE2s, the mixing of
  Diffie-Hellman results, transcripts and the preshared key, and the time stamp. The primitives of the
  kernel's crypto library are the fields of a record that every function takes; what the protocol
  relies on is the predicate \<open>crypto_ok\<close>.
\<close>

section \<open>Primitives\<close>

record crypto =
  blake2s :: "bytes \<Rightarrow> bytes \<Rightarrow> nat \<Rightarrow> bytes"
  curve25519 :: "bytes \<Rightarrow> bytes \<Rightarrow> bytes option"
  curve25519_generate_public :: "bytes \<Rightarrow> bytes option"
  curve25519_clamp_secret :: "bytes \<Rightarrow> bytes"
  chacha20poly1305_encrypt :: "bytes \<Rightarrow> bytes \<Rightarrow> u64 \<Rightarrow> bytes \<Rightarrow> bytes"
  chacha20poly1305_decrypt :: "bytes \<Rightarrow> bytes \<Rightarrow> u64 \<Rightarrow> bytes \<Rightarrow> bytes option"
  xchacha20poly1305_encrypt :: "bytes \<Rightarrow> bytes \<Rightarrow> bytes \<Rightarrow> bytes \<Rightarrow> bytes"
  xchacha20poly1305_decrypt :: "bytes \<Rightarrow> bytes \<Rightarrow> bytes \<Rightarrow> bytes \<Rightarrow> bytes option"

text \<open>
  \<open>blake2s key data len\<close> also stands for the streaming interface, with the data of the updates
  concatenated. The arguments of the encryptions are the plaintext or ciphertext, the associated
  data, the nonce and the key; \<open>None\<close> is a failed authentication, and the rejection of the point at
  infinity for the curve.
\<close>

definition blake2s_ok :: "crypto \<Rightarrow> bool" where
  "blake2s_ok C \<longleftrightarrow> (\<forall>key data len. length (blake2s C key data len) = len)"

definition aead_ok :: "crypto \<Rightarrow> bool" where
  "aead_ok C \<longleftrightarrow>
     (\<forall>plain ad nonce key.
        chacha20poly1305_decrypt C (chacha20poly1305_encrypt C plain ad nonce key) ad nonce key = Some plain \<and>
        length (chacha20poly1305_encrypt C plain ad nonce key) = length plain + 16)"

definition xaead_ok :: "crypto \<Rightarrow> bool" where
  "xaead_ok C \<longleftrightarrow>
     (\<forall>plain ad nonce key.
        xchacha20poly1305_decrypt C (xchacha20poly1305_encrypt C plain ad nonce key) ad nonce key = Some plain \<and>
        length (xchacha20poly1305_encrypt C plain ad nonce key) = length plain + 16)"

text \<open>Diffie-Hellman agreement, with keys of 32 bytes.\<close>

definition dh_ok :: "crypto \<Rightarrow> bool" where
  "dh_ok C \<longleftrightarrow>
     (\<forall>a b A B. curve25519_generate_public C a = Some A \<longrightarrow> curve25519_generate_public C b = Some B \<longrightarrow>
        curve25519 C a B = curve25519 C b A) \<and>
     (\<forall>a A. curve25519_generate_public C a = Some A \<longrightarrow> length A = 32)"

definition crypto_ok :: "crypto \<Rightarrow> bool" where
  "crypto_ok C \<longleftrightarrow> blake2s_ok C \<and> aead_ok C \<and> dh_ok C"

section \<open>Hash-based functions\<close>

definition BLAKE2S_BLOCK_SIZE :: nat where [wg_defs]: "BLAKE2S_BLOCK_SIZE = 64"
definition BLAKE2S_HASH_SIZE :: nat where [wg_defs]: "BLAKE2S_HASH_SIZE = 32"

text \<open>The string constants, as the bytes of their characters.\<close>

definition bytes_of_string :: "string \<Rightarrow> bytes" where
  "bytes_of_string s = map (\<lambda>c. of_nat (of_char c)) s"

definition handshake_name :: bytes where
  "handshake_name = bytes_of_string ''Noise_IKpsk2_25519_ChaChaPoly_BLAKE2s''"

definition identifier_name :: bytes where
  "identifier_name = bytes_of_string ''WireGuard v1 zx2c4 Jason@zx2c4.com''"

definition handshake_init_chaining_key :: "crypto \<Rightarrow> bytes" where
  "handshake_init_chaining_key C = blake2s C [] handshake_name NOISE_HASH_LEN"

definition handshake_init_hash :: "crypto \<Rightarrow> bytes" where
  "handshake_init_hash C = blake2s C [] (handshake_init_chaining_key C @ identifier_name) NOISE_HASH_LEN"

definition hmac :: "crypto \<Rightarrow> bytes \<Rightarrow> bytes \<Rightarrow> bytes" where
  "hmac C input key =
     (let key1 = (if length key > BLAKE2S_BLOCK_SIZE then blake2s C [] key BLAKE2S_HASH_SIZE else key);
          x_key = key1 @ replicate (BLAKE2S_BLOCK_SIZE - length key1) 0;
          i_key = map (\<lambda>b. b XOR 0x36) x_key;
          i_hash = blake2s C [] (i_key @ input) BLAKE2S_HASH_SIZE;
          o_key = map (\<lambda>b. b XOR (0x5c XOR 0x36)) i_key
      in blake2s C [] (o_key @ i_hash) BLAKE2S_HASH_SIZE)"

text \<open>
  The destinations are given as their lengths, with \<open>None\<close> for a null pointer; the results as far as
  they are written.
\<close>

definition wanted :: "nat option \<Rightarrow> bool" where
  "wanted dst \<longleftrightarrow> dst \<noteq> None \<and> dst \<noteq> Some 0"

definition kdf :: "crypto \<Rightarrow> nat option \<Rightarrow> nat option \<Rightarrow> nat option \<Rightarrow> bytes \<Rightarrow> bytes \<Rightarrow>
    bytes option \<times> bytes option \<times> bytes option" where
  "kdf C first_dst second_dst third_dst data chaining_key =
     (let secret = hmac C data chaining_key in
      if \<not> wanted first_dst then (None, None, None)
      else
        let out1 = hmac C [1] secret; first = take (the first_dst) out1 in
        if \<not> wanted second_dst then (Some first, None, None)
        else
          let out2 = hmac C (out1 @ [2]) secret; second = take (the second_dst) out2 in
          if \<not> wanted third_dst then (Some first, Some second, None)
          else
            let out3 = hmac C (out2 @ [3]) secret
            in (Some first, Some second, Some (take (the third_dst) out3)))"

definition mix_hash :: "crypto \<Rightarrow> bytes \<Rightarrow> bytes \<Rightarrow> bytes" where
  "mix_hash C hash src = blake2s C [] (hash @ src) NOISE_HASH_LEN"

text \<open>
  The two session keys of \<open>derive_keys\<close>, first and second; their birth date and validity are set by
  the caller.
\<close>

definition derive_keys :: "crypto \<Rightarrow> bytes \<Rightarrow> bytes \<times> bytes" where
  "derive_keys C chaining_key =
     (case kdf C (Some NOISE_SYMMETRIC_KEY_LEN) (Some NOISE_SYMMETRIC_KEY_LEN) None [] chaining_key of
        (first, second, _) \<Rightarrow> (the first, the second))"

text \<open>The result is the chaining key and the message key; \<open>None\<close> is the failure of the exchange.\<close>

definition mix_dh :: "crypto \<Rightarrow> bytes \<Rightarrow> bool \<Rightarrow> bytes \<Rightarrow> bytes \<Rightarrow> (bytes \<times> bytes option) option" where
  "mix_dh C chaining_key has_key private public =
     (case curve25519 C private public of
        None \<Rightarrow> None
      | Some dh_calculation \<Rightarrow>
          (case kdf C (Some NOISE_HASH_LEN) (if has_key then Some NOISE_SYMMETRIC_KEY_LEN else None) None
                  dh_calculation chaining_key of
             (first, second, _) \<Rightarrow> Some (the first, second)))"

definition mix_precomputed_dh :: "crypto \<Rightarrow> bytes \<Rightarrow> bytes \<Rightarrow> (bytes \<times> bytes) option" where
  "mix_precomputed_dh C chaining_key precomputed =
     (if precomputed = replicate NOISE_PUBLIC_KEY_LEN 0 then None
      else
        case kdf C (Some NOISE_HASH_LEN) (Some NOISE_SYMMETRIC_KEY_LEN) None precomputed chaining_key of
          (first, second, _) \<Rightarrow> Some (the first, the second))"

text \<open>Chaining key, hash and message key.\<close>

definition mix_psk :: "crypto \<Rightarrow> bytes \<Rightarrow> bytes \<Rightarrow> bytes \<Rightarrow> bytes \<times> bytes \<times> bytes" where
  "mix_psk C chaining_key hash psk =
     (case kdf C (Some NOISE_HASH_LEN) (Some NOISE_HASH_LEN) (Some NOISE_SYMMETRIC_KEY_LEN) psk chaining_key of
        (first, temp_hash, key) \<Rightarrow> (the first, mix_hash C hash (the temp_hash), the key))"

text \<open>Chaining key and hash.\<close>

definition handshake_init :: "crypto \<Rightarrow> bytes \<Rightarrow> bytes \<times> bytes" where
  "handshake_init C remote_static =
     (handshake_init_chaining_key C, mix_hash C (handshake_init_hash C) remote_static)"

text \<open>Ciphertext or plaintext, and the new hash.\<close>

definition message_encrypt :: "crypto \<Rightarrow> bytes \<Rightarrow> bytes \<Rightarrow> bytes \<Rightarrow> bytes \<times> bytes" where
  "message_encrypt C src_plaintext key hash =
     (let dst = chacha20poly1305_encrypt C src_plaintext hash 0 key in (dst, mix_hash C hash dst))"

definition message_decrypt :: "crypto \<Rightarrow> bytes \<Rightarrow> bytes \<Rightarrow> bytes \<Rightarrow> (bytes \<times> bytes) option" where
  "message_decrypt C src_ciphertext key hash =
     (case chacha20poly1305_decrypt C src_ciphertext hash 0 key of
        None \<Rightarrow> None
      | Some plain \<Rightarrow> Some (plain, mix_hash C hash src_ciphertext))"

definition message_ephemeral :: "crypto \<Rightarrow> bytes \<Rightarrow> bytes \<Rightarrow> bytes \<Rightarrow> bytes \<times> bytes" where
  "message_ephemeral C ephemeral_src chaining_key hash =
     (case kdf C (Some NOISE_HASH_LEN) None None ephemeral_src chaining_key of
        (first, _, _) \<Rightarrow> (the first, mix_hash C hash ephemeral_src))"

section \<open>Time stamps\<close>

text \<open>The nanoseconds are rounded down to a multiple of \<open>2 ^ 24\<close>, the power of two below a fiftieth of a second.\<close>

definition tai64n_now :: "u64 \<Rightarrow> u32 \<Rightarrow> bytes" where
  "tai64n_now tv_sec tv_nsec =
     rev (le_bytes 8 (0x400000000000000a + tv_sec)) @ rev (le_bytes 4 (tv_nsec AND NOT (2 ^ 24 - 1)))"

text \<open>\<open>memcmp\<close> reads the bytes as a big-endian number.\<close>

fun memcmp_less :: "bytes \<Rightarrow> bytes \<Rightarrow> bool" where
  "memcmp_less (a # as) (b # bs) \<longleftrightarrow> a < b \<or> a = b \<and> memcmp_less as bs"
| "memcmp_less _ _ \<longleftrightarrow> False"

section \<open>Lengths and agreement\<close>

lemma length_hmac: "blake2s_ok C \<Longrightarrow> length (hmac C input key) = 32"
  by (simp add: hmac_def Let_def blake2s_ok_def wg_defs)

lemma kdf_simps:
  "kdf C (Some (Suc n)) None None data ck = (Some (take (Suc n) (hmac C [1] (hmac C data ck))), None, None)"
  by (simp add: kdf_def wanted_def Let_def)

lemma length_mix_hash [simp]: "blake2s_ok C \<Longrightarrow> length (mix_hash C hash src) = 32"
  by (simp add: mix_hash_def blake2s_ok_def wg_defs)

lemma length_message_ephemeral:
  "blake2s_ok C \<Longrightarrow> message_ephemeral C e ck h = (ck', h') \<Longrightarrow> length ck' = 32 \<and> length h' = 32"
  by (auto simp: message_ephemeral_def kdf_def wanted_def Let_def length_hmac wg_defs)

lemma message_decrypt_encrypt:
  "aead_ok C \<Longrightarrow> message_encrypt C plain key hash = (c, h) \<Longrightarrow> message_decrypt C c key hash = Some (plain, h)"
  by (auto simp: message_encrypt_def message_decrypt_def aead_ok_def Let_def)

lemma length_message_encrypt:
  "aead_ok C \<Longrightarrow> message_encrypt C plain key hash = (c, h) \<Longrightarrow> length c = length plain + 16"
  by (auto simp: message_encrypt_def aead_ok_def Let_def)

text \<open>Both ends of an exchange mix the same value.\<close>

lemma mix_dh_agree:
  assumes "dh_ok C" "curve25519_generate_public C a = Some A" "curve25519_generate_public C b = Some B"
  shows "mix_dh C ck has_key a B = mix_dh C ck has_key b A"
proof -
  have "curve25519 C a B = curve25519 C b A" using assms unfolding dh_ok_def by blast
  then show ?thesis by (simp add: mix_dh_def)
qed

lemma memcmp_less_irrefl: "\<not> memcmp_less a a"
  by (induction a) auto

lemma memcmp_less_asym: "memcmp_less a b \<Longrightarrow> \<not> memcmp_less b a"
  by (induction a b rule: memcmp_less.induct) auto

lemma memcmp_less_trans: "memcmp_less a b \<Longrightarrow> memcmp_less b c \<Longrightarrow> memcmp_less a c"
proof (induction a b arbitrary: c rule: memcmp_less.induct)
  case (1 a as b bs)
  then show ?case by (cases c) auto
qed auto

lemma memcmp_less_linear: "length a = length b \<Longrightarrow> memcmp_less a b \<or> a = b \<or> memcmp_less b a"
  by (induction a b rule: list_induct2) auto

end
