(* ===== verification/Device_State.thy ===== *)
theory Device_State
  imports Replay_Counter Prev_Queue Allowedips_Table Peer_Lookup Ratelimiter Noise_Crypto
begin

text \<open>
  The state that the rest of the module works on: packets, keypairs, peers and the device, with the
  structures of \<^verbatim>\<open>noise.h\<close>, \<^verbatim>\<open>cookie.h\<close>, \<^verbatim>\<open>peer.h\<close>, \<^verbatim>\<open>device.h\<close> and \<^verbatim>\<open>queueing.h\<close>. Objects that the code shares by
  pointer are numbers that index a store of the device; what one call obtains from the kernel around
  the module (clock readings, random numbers, outcomes of allocations and of routing) is a record of
  its own.
\<close>

section \<open>Noise structures\<close>

record noise_symmetric_key =
  sk_key :: bytes
  sk_birthdate :: u64
  sk_is_valid :: bool

record noise_keypair =
  sending :: noise_symmetric_key
  sending_counter :: u64
  receiving :: noise_symmetric_key
  receiving_counter :: noise_replay_counter
  kp_remote_index :: u32
  i_am_the_initiator :: bool
  kp_refcount :: nat
  kp_internal_id :: u64

record noise_keypairs =
  current_keypair :: "nat option"
  previous_keypair :: "nat option"
  next_keypair :: "nat option"

record noise_static_identity =
  static_public :: bytes
  static_private :: bytes
  has_identity :: bool

datatype noise_handshake_state =
    HANDSHAKE_ZEROED
  | HANDSHAKE_CREATED_INITIATION
  | HANDSHAKE_CONSUMED_INITIATION
  | HANDSHAKE_CREATED_RESPONSE
  | HANDSHAKE_CONSUMED_RESPONSE

text \<open>
  The index entry that the handshake embeds is in the index table under the peer's number, and the
  static identity that it points to is the device's.
\<close>

record noise_handshake =
  hs_state :: noise_handshake_state
  last_initiation_consumption :: u64
  ephemeral_private :: bytes
  remote_static :: bytes
  remote_ephemeral :: bytes
  precomputed_static_static :: bytes
  preshared_key :: bytes
  hs_hash :: bytes
  hs_chaining_key :: bytes
  latest_timestamp :: bytes
  hs_remote_index :: u32

section \<open>Cookies and endpoints\<close>

record cookie =
  ck_birthdate :: u64
  ck_is_valid :: bool
  ck_cookie :: bytes
  have_sent_mac1 :: bool
  last_mac1_sent :: bytes
  cookie_decryption_key :: bytes
  ck_mac1_key :: bytes

record cookie_checker =
  cc_secret :: bytes
  cookie_encryption_key :: bytes
  cc_mac1_key :: bytes
  secret_birthdate :: u64

datatype sockaddr =
    AF_UNSPEC_addr
  | AF_INET_addr (sin_port: u16) (sin_addr: bytes)
  | AF_INET6_addr (sin6_port: u16) (sin6_flowinfo: u32) (sin6_addr: bytes) (sin6_scope_id: u32)

text \<open>
  The source of an endpoint is a union: an IPv4 address and the interface in the first eight bytes, or an
  IPv6 address in all sixteen.
\<close>

record endpoint =
  ep_addr :: sockaddr
  ep_src :: bytes

definition ep_src4 :: "endpoint \<Rightarrow> bytes" where
  "ep_src4 ep = take 4 (ep_src ep)"

definition ep_src_if4 :: "endpoint \<Rightarrow> bytes" where
  "ep_src_if4 ep = take 4 (drop 4 (ep_src ep))"

definition set_src4 :: "bytes \<Rightarrow> bytes \<Rightarrow> endpoint \<Rightarrow> endpoint" where
  "set_src4 src4 src_if4 ep = ep\<lparr>ep_src := src4 @ src_if4 @ drop 8 (ep_src ep)\<rparr>"

section \<open>Packets\<close>

text \<open>
  A buffer: its bytes from the data pointer on, the outer network header, the source port of the UDP
  header, the interface it arrived on, and the fields of its control block. A packet in flight is a
  list of buffers; the control block of the first has its keypair and state.
\<close>

record skb =
  skb_data :: bytes
  skb_protocol :: u16
  network_header :: bytes
  udp_source :: u16
  skb_iif :: u32
  cb_nonce :: u64
  cb_mtu :: u32
  cb_ds :: u8

record packet =
  pk_skbs :: "skb list"
  pk_keypair :: "nat option"
  pk_state :: packet_state

section \<open>Peers\<close>

text \<open>A timer is pending until the jiffies given, or not pending.\<close>

record peer_timers =
  timer_retransmit_handshake :: "u64 option"
  timer_send_keepalive :: "u64 option"
  timer_new_handshake :: "u64 option"
  timer_zero_key_material :: "u64 option"
  timer_persistent_keepalive :: "u64 option"

record peer_works =
  transmit_handshake_work :: bool
  clear_peer_work :: bool
  transmit_packet_work :: bool
  napi_scheduled :: bool

record wg_peer =
  tx_queue :: prev_queue
  rx_queue :: prev_queue
  staged_packet_queue :: "skb list"
  serial_work_cpu :: nat
  is_dead :: bool
  keypairs :: noise_keypairs
  endpoint :: endpoint
  endpoint_cache :: "(bytes \<times> nat) option"
  handshake :: noise_handshake
  last_sent_handshake :: u64
  works :: peer_works
  latest_cookie :: cookie
  rx_bytes :: u64
  tx_bytes :: u64
  timers :: peer_timers
  timer_handshake_attempts :: u32
  persistent_keepalive_interval :: u16
  timer_need_another_keepalive :: bool
  sent_lastminute_handshake :: bool
  walltime_last_handshake :: "u64 \<times> u32"
  peer_refcount :: nat
  internal_id :: u64

section \<open>The device\<close>

text \<open>
  A queue that is worked off on all CPUs: its ring with the size that it was created with, the CPU
  that was chosen last, and the CPUs on which its work is queued.
\<close>

record 'a crypt_queue =
  cq_ring :: "'a list"
  cq_size :: nat
  cq_last_cpu :: int
  cq_work :: "nat set"

text \<open>The three device queues, and the packets that are in flight.\<close>

record wg_queues =
  encrypt_queue :: "nat crypt_queue"
  decrypt_queue :: "nat crypt_queue"
  handshake_queue :: "skb crypt_queue"
  packets :: "nat \<Rightarrow> packet"
  next_packet :: nat

text \<open>
  What the module hands to the rest of the kernel: datagrams with the route, the addresses, the
  DS field and the ports that they are sent with, packets delivered to the stack for a peer, ICMP
  errors for packets that cannot be sent, and the counters of the interface.
\<close>

datatype xmit =
    Xmit4 (xmit_route: nat) (xmit_saddr: bytes) (xmit_daddr: bytes) (xmit_ds: u8) (xmit_sport: u16) (xmit_dport: u16) (xmit_data: bytes)
  | Xmit6 (xmit_route: nat) (xmit_saddr: bytes) (xmit_daddr: bytes) (xmit_ds: u8) (xmit_sport: u16) (xmit_dport: u16) (xmit_data: bytes)

record wg_outputs =
  transmitted :: "xmit list"
  delivered :: "(nat \<times> bytes) list"
  icmp_sent :: "(u16 \<times> bytes) list"
  rx_stats :: u64
  rx_errors :: nat
  rx_frame_errors :: nat
  rx_length_errors :: nat
  tx_errors :: nat
  tx_dropped :: nat

record wg_device =
  netif_running :: bool
  dev_mtu :: u32
  queues :: wg_queues
  outputs :: wg_outputs
  sock4 :: "u16 option"
  sock6 :: "u16 option"
  creating_net :: "u64 option"
  static_identity :: noise_static_identity
  checker :: cookie_checker
  peer_hashtable :: pubkey_hashtable
  index_table :: index_hashtable
  peer_allowedips :: "nat allowedips"
  peer_list :: "nat list"
  handshake_queue_len :: u32
  num_peers :: u32
  device_update_gen :: u32
  fwmark :: u32
  incoming_port :: u16
  limiter :: ratelimiter
  last_under_load :: u64
  peers :: "nat \<Rightarrow> wg_peer"
  keypair_store :: "nat \<Rightarrow> noise_keypair"
  next_peer :: nat
  next_keypair_id :: nat
  peer_counter :: u64
  keypair_counter :: u64

definition upd_peer :: "nat \<Rightarrow> (wg_peer \<Rightarrow> wg_peer) \<Rightarrow> wg_device \<Rightarrow> wg_device" where
  "upd_peer p f wg = wg\<lparr>peers := (peers wg)(p := f (peers wg p))\<rparr>"

definition upd_handshake :: "nat \<Rightarrow> (noise_handshake \<Rightarrow> noise_handshake) \<Rightarrow> wg_device \<Rightarrow> wg_device" where
  "upd_handshake p f wg = upd_peer p (\<lambda>peer. peer\<lparr>handshake := f (handshake peer)\<rparr>) wg"

definition upd_keypair :: "nat \<Rightarrow> (noise_keypair \<Rightarrow> noise_keypair) \<Rightarrow> wg_device \<Rightarrow> wg_device" where
  "upd_keypair k f wg = wg\<lparr>keypair_store := (keypair_store wg)(k := f (keypair_store wg k))\<rparr>"

definition upd_keypairs :: "nat \<Rightarrow> (noise_keypairs \<Rightarrow> noise_keypairs) \<Rightarrow> wg_device \<Rightarrow> wg_device" where
  "upd_keypairs p f wg = upd_peer p (\<lambda>peer. peer\<lparr>keypairs := f (keypairs peer)\<rparr>) wg"

section \<open>What a call obtains from outside\<close>

text \<open>
  The first group are clocks, random numbers and the outcome of allocations; then the namespace that
  the interface is in; then what the network stack answers about addresses and routes; then the
  functions of \<^verbatim>\<open>net/ip_tunnels.h\<close> and \<^verbatim>\<open>net/inet_ecn.h\<close> on packets; then the CPUs that are online.
\<close>

record flowi4 =
  fl4_saddr :: bytes
  fl4_daddr :: bytes
  fl4_sport :: u16
  fl4_dport :: u16
  fl4_mark :: u32

record flowi6 =
  fl6_saddr :: bytes
  fl6_daddr :: bytes
  fl6_sport :: u16
  fl6_dport :: u16
  fl6_mark :: u32
  fl6_oif :: u32

record wg_env =
  boottime_ns :: u64
  jiffies :: u64
  real_sec :: u64
  real_nsec :: u32
  hz :: u64
  rnd_ephemeral :: bytes
  rnd_index :: "u32 list"
  rnd_jitter :: u32
  rnd_secret :: bytes
  rnd_nonce :: bytes
  rng_is_initialized :: bool
  alloc_ok :: bool
  skb_cow_ok :: "bytes \<Rightarrow> bool"
  trylock_ok :: bool
  dev_net :: u64
  dst_valid :: "nat \<Rightarrow> bool"
  inet_confirm_addr :: "bytes \<Rightarrow> bool"
  ip_route_output_flow :: "flowi4 \<Rightarrow> errno + nat \<times> u32 \<times> bytes"
  ipv6_chk_addr :: "bytes \<Rightarrow> bool"
  ipv6_dst_lookup_flow :: "flowi6 \<Rightarrow> errno + nat \<times> bytes"
  ipv6_iface_scope_id :: "bytes \<Rightarrow> u32 \<Rightarrow> u32"
  ip_tunnel_parse_protocol :: "bytes \<Rightarrow> u16"
  ip_tunnel_ecn_encap :: "skb \<Rightarrow> u8"
  ip_tunnel_get_dsfield :: "skb \<Rightarrow> u8"
  ecn_decapsulate :: "u8 \<Rightarrow> bytes \<Rightarrow> bytes"
  online_cpus :: "nat list"
  nr_cpumask_bits :: nat

definition wg_birthdate_has_expired :: "wg_env \<Rightarrow> u64 \<Rightarrow> u64 \<Rightarrow> bool" where
  "wg_birthdate_has_expired E birthday_nanoseconds expiration_seconds \<longleftrightarrow>
     sint (birthday_nanoseconds + expiration_seconds * NSEC_PER_SEC) \<le> sint (boottime_ns E)"

text \<open>A reference is refused to an object whose count is zero.\<close>

definition peer_alive :: "wg_device \<Rightarrow> nat \<Rightarrow> bool" where
  "peer_alive wg p \<longleftrightarrow> peer_refcount (peers wg p) \<noteq> 0"

end
