(* ===== verification/Noise_Keypairs.thy ===== *)
theory Noise_Keypairs
  imports Device_State
begin

text \<open>
  The life of session keys (\<^verbatim>\<open>noise.c\<close>): creation and reference counting of keypairs, the three slots of
  a peer and how keypairs move through them, expiry and erasure.
\<close>

section \<open>Reference counts\<close>

definition index_remove :: "entry_id \<Rightarrow> wg_device \<Rightarrow> wg_device" where
  "index_remove e wg = wg\<lparr>index_table := wg_index_hashtable_remove (index_table wg) e\<rparr>"

definition zero_key :: "noise_symmetric_key" where
  "zero_key = \<lparr>sk_key = replicate NOISE_SYMMETRIC_KEY_LEN 0, sk_birthdate = 0, sk_is_valid = False\<rparr>"

definition zero_keypair :: noise_keypair where
  "zero_keypair = \<lparr>sending = zero_key, sending_counter = 0, receiving = zero_key, receiving_counter = replay_init,
     kp_remote_index = 0, i_am_the_initiator = False, kp_refcount = 0, kp_internal_id = 0\<rparr>"

text \<open>The new keypair is a number that was never used before; \<open>None\<close> is the failed allocation.\<close>

definition keypair_create :: "wg_env \<Rightarrow> nat option \<Rightarrow> wg_device \<Rightarrow> nat option \<times> wg_device" where
  "keypair_create E peer wg =
     (if \<not> alloc_ok E then (None, wg)
      else
        let k = next_keypair_id wg;
            counter = keypair_counter wg + 1;
            table = index_table wg
        in (Some k, wg\<lparr>next_keypair_id := k + 1, keypair_counter := counter,
              keypair_store := (keypair_store wg)(k := zero_keypair\<lparr>kp_internal_id := counter, kp_refcount := 1\<rparr>),
              index_table := table\<lparr>ih_peer := (ih_peer table)(KP k := peer)\<rparr>\<rparr>))"

text \<open>The memory of a keypair without references is erased after a grace period.\<close>

definition keypair_free_kref :: "nat \<Rightarrow> wg_device \<Rightarrow> wg_device" where
  "keypair_free_kref k wg = index_remove (KP k) wg"

definition keypair_free_rcu :: "nat \<Rightarrow> wg_device \<Rightarrow> wg_device" where
  "keypair_free_rcu k wg = upd_keypair k (\<lambda>_. zero_keypair) wg"

definition wg_noise_keypair_put :: "nat option \<Rightarrow> bool \<Rightarrow> wg_device \<Rightarrow> wg_device" where
  "wg_noise_keypair_put keypair unreference_now wg =
     (case keypair of
        None \<Rightarrow> wg
      | Some k \<Rightarrow>
          let wg1 = (if unreference_now then index_remove (KP k) wg else wg);
              wg2 = upd_keypair k (\<lambda>kp. kp\<lparr>kp_refcount := kp_refcount kp - 1\<rparr>) wg1
          in if kp_refcount (keypair_store wg2 k) = 0 then keypair_free_kref k wg2 else wg2)"

definition wg_noise_keypair_get :: "nat option \<Rightarrow> wg_device \<Rightarrow> nat option \<times> wg_device" where
  "wg_noise_keypair_get keypair wg =
     (case keypair of
        None \<Rightarrow> (None, wg)
      | Some k \<Rightarrow>
          if kp_refcount (keypair_store wg k) = 0 then (None, wg)
          else (Some k, upd_keypair k (\<lambda>kp. kp\<lparr>kp_refcount := kp_refcount kp + 1\<rparr>) wg))"

section \<open>Slots\<close>

definition slots :: "wg_device \<Rightarrow> nat \<Rightarrow> noise_keypairs" where
  "slots wg p = keypairs (peers wg p)"

definition wg_noise_keypairs_clear :: "nat \<Rightarrow> wg_device \<Rightarrow> wg_device" where
  "wg_noise_keypairs_clear p wg =
     (let old = next_keypair (slots wg p);
          wg1 = wg_noise_keypair_put old True (upd_keypairs p (\<lambda>s. s\<lparr>next_keypair := None\<rparr>) wg);
          old1 = previous_keypair (slots wg1 p);
          wg2 = wg_noise_keypair_put old1 True (upd_keypairs p (\<lambda>s. s\<lparr>previous_keypair := None\<rparr>) wg1);
          old2 = current_keypair (slots wg2 p)
      in wg_noise_keypair_put old2 True (upd_keypairs p (\<lambda>s. s\<lparr>current_keypair := None\<rparr>) wg2))"

definition invalidate_sending :: "nat option \<Rightarrow> wg_device \<Rightarrow> wg_device" where
  "invalidate_sending keypair wg =
     (case keypair of
        None \<Rightarrow> wg
      | Some k \<Rightarrow> upd_keypair k (\<lambda>kp. kp\<lparr>sending := (sending kp)\<lparr>sk_is_valid := False\<rparr>\<rparr>) wg)"

definition add_new_keypair :: "nat \<Rightarrow> nat \<Rightarrow> wg_device \<Rightarrow> wg_device" where
  "add_new_keypair p new_keypair wg =
     (let previous = previous_keypair (slots wg p);
          next = next_keypair (slots wg p);
          current = current_keypair (slots wg p)
      in if i_am_the_initiator (keypair_store wg new_keypair) then
           let wg1 =
             (if next \<noteq> None then
                wg_noise_keypair_put current True
                  (upd_keypairs p (\<lambda>s. s\<lparr>next_keypair := None, previous_keypair := next\<rparr>) wg)
              else upd_keypairs p (\<lambda>s. s\<lparr>previous_keypair := current\<rparr>) wg)
           in upd_keypairs p (\<lambda>s. s\<lparr>current_keypair := Some new_keypair\<rparr>) (wg_noise_keypair_put previous True wg1)
         else
           let wg1 = wg_noise_keypair_put next True (upd_keypairs p (\<lambda>s. s\<lparr>next_keypair := Some new_keypair\<rparr>) wg)
           in wg_noise_keypair_put previous True (upd_keypairs p (\<lambda>s. s\<lparr>previous_keypair := None\<rparr>) wg1))"

text \<open>Without interference the second check finds what the first did.\<close>

definition wg_noise_received_with_keypair :: "nat \<Rightarrow> nat option \<Rightarrow> wg_device \<Rightarrow> bool \<times> wg_device" where
  "wg_noise_received_with_keypair p received wg =
     (let key_is_new = (received = next_keypair (slots wg p)) in
      if \<not> key_is_new then (False, wg)
      else if received \<noteq> next_keypair (slots wg p) then (False, wg)
      else
        let old = previous_keypair (slots wg p);
            wg1 = upd_keypairs p (\<lambda>s. s\<lparr>previous_keypair := current_keypair s\<rparr>) wg;
            wg2 = wg_noise_keypair_put old True wg1
        in (True, upd_keypairs p (\<lambda>s. s\<lparr>current_keypair := received, next_keypair := None\<rparr>) wg2))"

section \<open>Frames\<close>

text \<open>What the updates of a peer, of a keypair and of the index table leave alone.\<close>

named_theorems dev_simps \<open>readings of an updated device\<close>

lemma upd_peer_simps [simp]:
  "peers (upd_peer p f wg) q = (if q = p then f (peers wg p) else peers wg q)"
  "keypair_store (upd_peer p f wg) = keypair_store wg"
  "index_table (upd_peer p f wg) = index_table wg"
  "static_identity (upd_peer p f wg) = static_identity wg"
  "peer_hashtable (upd_peer p f wg) = peer_hashtable wg"
  "next_keypair_id (upd_peer p f wg) = next_keypair_id wg"
  by (simp_all add: upd_peer_def)

lemma upd_keypair_simps [simp]:
  "peers (upd_keypair k f wg) = peers wg"
  "keypair_store (upd_keypair k f wg) j = (if j = k then f (keypair_store wg k) else keypair_store wg j)"
  "index_table (upd_keypair k f wg) = index_table wg"
  "static_identity (upd_keypair k f wg) = static_identity wg"
  "peer_hashtable (upd_keypair k f wg) = peer_hashtable wg"
  "next_keypair_id (upd_keypair k f wg) = next_keypair_id wg"
  by (simp_all add: upd_keypair_def)

lemma index_remove_simps [simp]:
  "peers (index_remove e wg) = peers wg"
  "keypair_store (index_remove e wg) = keypair_store wg"
  "static_identity (index_remove e wg) = static_identity wg"
  "peer_hashtable (index_remove e wg) = peer_hashtable wg"
  "next_keypair_id (index_remove e wg) = next_keypair_id wg"
  "index_table (index_remove e wg) = wg_index_hashtable_remove (index_table wg) e"
  by (simp_all add: index_remove_def)

lemma upd_keypairs_simps [simp]:
  "slots (upd_keypairs p f wg) q = (if q = p then f (slots wg p) else slots wg q)"
  "keypair_store (upd_keypairs p f wg) = keypair_store wg"
  "index_table (upd_keypairs p f wg) = index_table wg"
  "handshake (peers (upd_keypairs p f wg) q) = handshake (peers wg q)"
  by (simp_all add: upd_keypairs_def slots_def)

lemma keypair_put_simps [simp]:
  "peers (wg_noise_keypair_put k now wg) = peers wg"
  "static_identity (wg_noise_keypair_put k now wg) = static_identity wg"
  by (simp_all add: wg_noise_keypair_put_def keypair_free_kref_def Let_def split: option.splits)

lemma slots_put [simp]: "slots (wg_noise_keypair_put k now wg) = slots wg"
  by (simp add: slots_def fun_eq_iff)

lemma keypair_put_store:
  "keypair_store (wg_noise_keypair_put k now wg) j =
     (if k = Some j then (keypair_store wg j)\<lparr>kp_refcount := kp_refcount (keypair_store wg j) - 1\<rparr> else keypair_store wg j)"
  by (auto simp: wg_noise_keypair_put_def keypair_free_kref_def Let_def split: option.splits)

lemma keypair_put_hashed:
  "entry_hashed (index_table (wg_noise_keypair_put k now wg)) e \<longleftrightarrow>
     entry_hashed (index_table wg) e \<and>
     \<not> (\<exists>j. k = Some j \<and> e = KP j \<and> (now \<or> kp_refcount (keypair_store wg j) \<le> 1))"
  by (auto simp: wg_noise_keypair_put_def keypair_free_kref_def Let_def split: option.splits)

lemma keypair_put_index [simp]:
  "ih_index (index_table (wg_noise_keypair_put k now wg)) = ih_index (index_table wg)"
  "ih_peer (index_table (wg_noise_keypair_put k now wg)) = ih_peer (index_table wg)"
  by (simp_all add: wg_noise_keypair_put_def keypair_free_kref_def Let_def wg_index_hashtable_remove_def split: option.splits)

end
