(* ===== verification/Peer_Refs.thy ===== *)
theory Peer_Refs
  imports Noise_Keypairs
begin

text \<open>
  References on peers (\<^verbatim>\<open>peer.c\<close>, \<^verbatim>\<open>peer.h\<close>): the last one that is given back takes the peer out of the
  index table and drops the packets that were still waiting for it.
\<close>

definition wg_packet_purge_staged_packets :: "nat \<Rightarrow> wg_device \<Rightarrow> wg_device" where
  "wg_packet_purge_staged_packets p wg =
     upd_peer p (\<lambda>peer. peer\<lparr>staged_packet_queue := []\<rparr>)
       (wg\<lparr>outputs := (outputs wg)\<lparr>tx_dropped := tx_dropped (outputs wg) + length (staged_packet_queue (peers wg p))\<rparr>\<rparr>)"

definition wg_peer_get :: "nat \<Rightarrow> wg_device \<Rightarrow> wg_device" where
  "wg_peer_get p wg = upd_peer p (\<lambda>peer. peer\<lparr>peer_refcount := peer_refcount peer + 1\<rparr>) wg"

definition wg_peer_get_maybe_zero :: "nat option \<Rightarrow> wg_device \<Rightarrow> nat option \<times> wg_device" where
  "wg_peer_get_maybe_zero peer wg =
     (case peer of
        None \<Rightarrow> (None, wg)
      | Some p \<Rightarrow> if \<not> peer_alive wg p then (None, wg) else (Some p, wg_peer_get p wg))"

definition kref_release :: "nat \<Rightarrow> wg_device \<Rightarrow> wg_device" where
  "kref_release p wg = wg_packet_purge_staged_packets p (index_remove (HS p) wg)"

definition wg_peer_put :: "nat option \<Rightarrow> wg_device \<Rightarrow> wg_device" where
  "wg_peer_put peer wg =
     (case peer of
        None \<Rightarrow> wg
      | Some p \<Rightarrow>
          let wg1 = upd_peer p (\<lambda>peer. peer\<lparr>peer_refcount := peer_refcount peer - 1\<rparr>) wg
          in if peer_refcount (peers wg1 p) = 0 then kref_release p wg1 else wg1)"

section \<open>Frames\<close>

lemma peer_put_cases:
  obtains "wg_peer_put (Some p) wg = upd_peer p (\<lambda>peer. peer\<lparr>peer_refcount := peer_refcount peer - 1\<rparr>) wg"
      "peer_refcount (peers wg p) > 1"
  | "wg_peer_put (Some p) wg = kref_release p (upd_peer p (\<lambda>peer. peer\<lparr>peer_refcount := peer_refcount peer - 1\<rparr>) wg)"
      "peer_refcount (peers wg p) \<le> 1"
  by (cases "peer_refcount (peers wg p) \<le> 1") (auto simp: wg_peer_put_def Let_def upd_peer_def)

lemmas release_defs = wg_peer_put_def kref_release_def wg_packet_purge_staged_packets_def Let_def upd_peer_def index_remove_def

lemma put_handshake [simp]: "handshake (peers (wg_peer_put q wg) p) = handshake (peers wg p)"
  by (simp add: release_defs split: option.splits)

lemma put_peer_same [simp]:
  "keypairs (peers (wg_peer_put q wg) p) = keypairs (peers wg p)"
  "is_dead (peers (wg_peer_put q wg) p) = is_dead (peers wg p)"
  "timers (peers (wg_peer_put q wg) p) = timers (peers wg p)"
  "endpoint (peers (wg_peer_put q wg) p) = endpoint (peers wg p)"
  "latest_cookie (peers (wg_peer_put q wg) p) = latest_cookie (peers wg p)"
  by (simp_all add: release_defs split: option.splits)

lemma put_slots [simp]: "slots (wg_peer_put q wg) = slots wg"
  by (simp add: slots_def fun_eq_iff)

lemma put_device_same [simp]:
  "keypair_store (wg_peer_put q wg) = keypair_store wg" "next_keypair_id (wg_peer_put q wg) = next_keypair_id wg"
  "static_identity (wg_peer_put q wg) = static_identity wg" "peer_hashtable (wg_peer_put q wg) = peer_hashtable wg"
  "peer_allowedips (wg_peer_put q wg) = peer_allowedips wg" "netif_running (wg_peer_put q wg) = netif_running wg"
  "peer_list (wg_peer_put q wg) = peer_list wg" "num_peers (wg_peer_put q wg) = num_peers wg" "queues (wg_peer_put q wg) = queues wg"
  by (simp_all add: release_defs split: option.splits)

end
