(* ===== verification/Noise_Handshake.thy ===== *)
theory Noise_Handshake
  imports Peer_Refs
begin

text \<open>
  The handshake of \<^verbatim>\<open>noise.c\<close>: the identity of the device, the two messages with their creation and
  consumption, and the session that they establish. A function that fails keeps what it has written to
  the handshake so far, as the code does. \<open>None\<close> as the outcome of a creation means that the index
  insertion is still drawing random numbers.
\<close>

section \<open>Set-up\<close>

definition zero_bytes :: "nat \<Rightarrow> bytes" where
  "zero_bytes n = replicate n 0"

definition wg_noise_set_static_identity_private_key :: "crypto \<Rightarrow> bytes \<Rightarrow> wg_device \<Rightarrow> wg_device" where
  "wg_noise_set_static_identity_private_key C private_key wg =
     (let ident = (static_identity wg)\<lparr>static_private := curve25519_clamp_secret C private_key\<rparr> in
      case curve25519_generate_public C private_key of
        Some public \<Rightarrow> wg\<lparr>static_identity := ident\<lparr>static_public := public, has_identity := True\<rparr>\<rparr>
      | None \<Rightarrow> wg\<lparr>static_identity := ident\<lparr>has_identity := False\<rparr>\<rparr>)"

definition precompute_static_static :: "crypto \<Rightarrow> noise_static_identity \<Rightarrow> noise_handshake \<Rightarrow> noise_handshake" where
  "precompute_static_static C ident hs =
     hs\<lparr>precomputed_static_static :=
       (if \<not> has_identity ident then zero_bytes NOISE_PUBLIC_KEY_LEN
        else case curve25519 C (static_private ident) (remote_static hs) of
               None \<Rightarrow> zero_bytes NOISE_PUBLIC_KEY_LEN
             | Some dh \<Rightarrow> dh)\<rparr>"

definition wg_noise_precompute_static_static :: "crypto \<Rightarrow> nat \<Rightarrow> wg_device \<Rightarrow> wg_device" where
  "wg_noise_precompute_static_static C p wg = upd_handshake p (precompute_static_static C (static_identity wg)) wg"

definition wg_noise_handshake_init :: "crypto \<Rightarrow> noise_static_identity \<Rightarrow> bytes \<Rightarrow> bytes option \<Rightarrow> noise_handshake" where
  "wg_noise_handshake_init C ident peer_public_key peer_preshared_key =
     precompute_static_static C ident
       \<lparr>hs_state = HANDSHAKE_ZEROED, last_initiation_consumption = 0,
         ephemeral_private = zero_bytes NOISE_PUBLIC_KEY_LEN, remote_static = peer_public_key,
         remote_ephemeral = zero_bytes NOISE_PUBLIC_KEY_LEN,
         precomputed_static_static = zero_bytes NOISE_PUBLIC_KEY_LEN,
         preshared_key = (case peer_preshared_key of None \<Rightarrow> zero_bytes NOISE_SYMMETRIC_KEY_LEN | Some k \<Rightarrow> k),
         hs_hash = zero_bytes NOISE_HASH_LEN, hs_chaining_key = zero_bytes NOISE_HASH_LEN,
         latest_timestamp = zero_bytes NOISE_TIMESTAMP_LEN, hs_remote_index = 0\<rparr>"

definition handshake_zero :: "noise_handshake \<Rightarrow> noise_handshake" where
  "handshake_zero hs =
     hs\<lparr>ephemeral_private := zero_bytes NOISE_PUBLIC_KEY_LEN, remote_ephemeral := zero_bytes NOISE_PUBLIC_KEY_LEN,
       hs_hash := zero_bytes NOISE_HASH_LEN, hs_chaining_key := zero_bytes NOISE_HASH_LEN,
       hs_remote_index := 0, hs_state := HANDSHAKE_ZEROED\<rparr>"

definition wg_noise_handshake_clear :: "nat \<Rightarrow> wg_device \<Rightarrow> wg_device" where
  "wg_noise_handshake_clear p wg = upd_handshake p handshake_zero (index_remove (HS p) wg)"

definition wg_noise_reset_last_sent_handshake :: "wg_env \<Rightarrow> wg_peer \<Rightarrow> wg_peer" where
  "wg_noise_reset_last_sent_handshake E peer =
     peer\<lparr>last_sent_handshake := boottime_ns E - (REKEY_TIMEOUT + 1) * NSEC_PER_SEC\<rparr>"

definition wg_noise_expire_current_peer_keypairs :: "wg_env \<Rightarrow> nat \<Rightarrow> wg_device \<Rightarrow> wg_device" where
  "wg_noise_expire_current_peer_keypairs E p wg =
     (let wg1 = upd_peer p (wg_noise_reset_last_sent_handshake E) (wg_noise_handshake_clear p wg);
          wg2 = invalidate_sending (next_keypair (slots wg1 p)) wg1
      in invalidate_sending (current_keypair (slots wg2 p)) wg2)"

section \<open>Initiation\<close>

definition no_macs :: message_macs where
  "no_macs = \<lparr>mac1 = zero_bytes COOKIE_LEN, mac2 = zero_bytes COOKIE_LEN\<rparr>"

definition wg_noise_handshake_create_initiation ::
  "crypto \<Rightarrow> wg_env \<Rightarrow> nat \<Rightarrow> wg_device \<Rightarrow> (message_handshake_initiation option \<times> wg_device) option" where
  "wg_noise_handshake_create_initiation C E p wg =
     (let ident = static_identity wg; hs = handshake (peers wg p);
          set = (\<lambda>hs1. upd_handshake p (\<lambda>_. hs1) wg)
      in if \<not> has_identity ident then Some (None, wg)
      else
        let (ck0, h0) = handshake_init C (remote_static hs);
            secret = curve25519_clamp_secret C (rnd_ephemeral E);
            hs1 = hs\<lparr>hs_chaining_key := ck0, hs_hash := h0, ephemeral_private := secret\<rparr>
        in case curve25519_generate_public C secret of
          None \<Rightarrow> Some (None, set hs1)
        | Some ephemeral \<Rightarrow>
            let (ck1, h1) = message_ephemeral C ephemeral ck0 h0;
                hs2 = hs1\<lparr>hs_chaining_key := ck1, hs_hash := h1\<rparr>
            in case mix_dh C ck1 True secret (remote_static hs) of
              None \<Rightarrow> Some (None, set hs2)
            | Some (ck2, key) \<Rightarrow>
                let (enc_static, h2) = message_encrypt C (static_public ident) (the key) h1;
                    hs3 = hs2\<lparr>hs_chaining_key := ck2, hs_hash := h2\<rparr>
                in case mix_precomputed_dh C ck2 (precomputed_static_static hs) of
                  None \<Rightarrow> Some (None, set hs3)
                | Some (ck3, key1) \<Rightarrow>
                    let timestamp = tai64n_now (real_sec E) (real_nsec E);
                        (enc_timestamp, h3) = message_encrypt C timestamp key1 h2;
                        hs4 = hs3\<lparr>hs_chaining_key := ck3, hs_hash := h3\<rparr>
                    in case wg_index_hashtable_insert (rnd_index E) (index_table wg) (HS p) of
                      None \<Rightarrow> None
                    | Some (index, table) \<Rightarrow>
                        Some (Some \<lparr>init_type = MESSAGE_HANDSHAKE_INITIATION, init_sender_index = index,
                            init_unencrypted_ephemeral = ephemeral, init_encrypted_static = enc_static,
                            init_encrypted_timestamp = enc_timestamp, init_macs = no_macs\<rparr>,
                          (set (hs4\<lparr>hs_state := HANDSHAKE_CREATED_INITIATION\<rparr>))\<lparr>index_table := table\<rparr>))"

text \<open>
  The decision on an initiation: the peer, and what the handshake is to remember of it. The lookup
  takes a reference on the peer, and a failure gives it back, so that nothing changes.
\<close>

definition consume_initiation_parse ::
  "crypto \<Rightarrow> message_handshake_initiation \<Rightarrow> wg_device \<Rightarrow> (nat \<times> bytes \<times> bytes \<times> bytes \<times> bytes) option" where
  "consume_initiation_parse C src wg =
     (let ident = static_identity wg in
      if \<not> has_identity ident then None
      else
        let (ck0, h0) = handshake_init C (static_public ident);
            e = init_unencrypted_ephemeral src;
            (ck1, h1) = message_ephemeral C e ck0 h0
        in case mix_dh C ck1 True (static_private ident) e of
          None \<Rightarrow> None
        | Some (ck2, key) \<Rightarrow>
            (case message_decrypt C (init_encrypted_static src) (the key) h1 of
               None \<Rightarrow> None
             | Some (s, h2) \<Rightarrow>
                 (case wg_pubkey_hashtable_lookup (\<lambda>p. remote_static (handshake (peers wg p))) (peer_alive wg)
                         (peer_hashtable wg) s of
                    None \<Rightarrow> None
                  | Some p \<Rightarrow>
                      (case mix_precomputed_dh C ck2 (precomputed_static_static (handshake (peers wg p))) of
                         None \<Rightarrow> None
                       | Some (ck3, key1) \<Rightarrow>
                           (case message_decrypt C (init_encrypted_timestamp src) key1 h2 of
                              None \<Rightarrow> None
                            | Some (t, h3) \<Rightarrow> Some (p, e, t, h3, ck3))))))"

definition replay_attack :: "bytes \<Rightarrow> noise_handshake \<Rightarrow> bool" where
  "replay_attack t hs \<longleftrightarrow> \<not> memcmp_less (latest_timestamp hs) t"

definition flood_attack :: "wg_env \<Rightarrow> noise_handshake \<Rightarrow> bool" where
  "flood_attack E hs \<longleftrightarrow>
     sint (boottime_ns E) < sint (last_initiation_consumption hs + NSEC_PER_SEC div INITIATIONS_PER_SECOND)"

text \<open>
  The handshake is locked for reading to decide, and again for writing to store the result; in
  between other threads may run.
\<close>

definition consume_initiation_check ::
  "crypto \<Rightarrow> wg_env \<Rightarrow> message_handshake_initiation \<Rightarrow> wg_device \<Rightarrow> (nat \<times> bytes \<times> bytes \<times> bytes \<times> bytes) option" where
  "consume_initiation_check C E src wg =
     (case consume_initiation_parse C src wg of
        None \<Rightarrow> None
      | Some (p, e, t, hash, chaining_key) \<Rightarrow>
          let hs = handshake (peers wg p) in
          if replay_attack t hs \<or> flood_attack E hs then None else Some (p, e, t, hash, chaining_key))"

definition consume_initiation_commit ::
  "wg_env \<Rightarrow> message_handshake_initiation \<Rightarrow> nat \<times> bytes \<times> bytes \<times> bytes \<times> bytes \<Rightarrow> wg_device \<Rightarrow> wg_device" where
  "consume_initiation_commit E src r wg =
     (case r of (p, e, t, hash, chaining_key) \<Rightarrow>
        let initiation_consumption = boottime_ns E in
        upd_handshake p (\<lambda>hs. hs\<lparr>remote_ephemeral := e,
          latest_timestamp := (if memcmp_less (latest_timestamp hs) t then t else latest_timestamp hs),
          hs_hash := hash, hs_chaining_key := chaining_key, hs_remote_index := init_sender_index src,
          last_initiation_consumption :=
            (if sint (last_initiation_consumption hs - initiation_consumption) < 0 then initiation_consumption
             else last_initiation_consumption hs),
          hs_state := HANDSHAKE_CONSUMED_INITIATION\<rparr>) wg)"

definition wg_noise_handshake_consume_initiation ::
  "crypto \<Rightarrow> wg_env \<Rightarrow> message_handshake_initiation \<Rightarrow> wg_device \<Rightarrow> nat option \<times> wg_device" where
  "wg_noise_handshake_consume_initiation C E src wg =
     (case consume_initiation_check C E src wg of
        None \<Rightarrow> (None, wg)
      | Some r \<Rightarrow> (Some (fst r), consume_initiation_commit E src r (wg_peer_get (fst r) wg)))"

section \<open>Response\<close>

definition wg_noise_handshake_create_response ::
  "crypto \<Rightarrow> wg_env \<Rightarrow> nat \<Rightarrow> wg_device \<Rightarrow> (message_handshake_response option \<times> wg_device) option" where
  "wg_noise_handshake_create_response C E p wg =
     (let hs = handshake (peers wg p); set = (\<lambda>hs1. upd_handshake p (\<lambda>_. hs1) wg) in
      if hs_state hs \<noteq> HANDSHAKE_CONSUMED_INITIATION then Some (None, wg)
      else
        let secret = curve25519_clamp_secret C (rnd_ephemeral E);
            hs1 = hs\<lparr>ephemeral_private := secret\<rparr>
        in case curve25519_generate_public C secret of
          None \<Rightarrow> Some (None, set hs1)
        | Some ephemeral \<Rightarrow>
            let (ck1, h1) = message_ephemeral C ephemeral (hs_chaining_key hs) (hs_hash hs);
                hs2 = hs1\<lparr>hs_chaining_key := ck1, hs_hash := h1\<rparr>
            in case mix_dh C ck1 False secret (remote_ephemeral hs) of
              None \<Rightarrow> Some (None, set hs2)
            | Some (ck2, _) \<Rightarrow>
                (case mix_dh C ck2 False secret (remote_static hs) of
                   None \<Rightarrow> Some (None, set (hs2\<lparr>hs_chaining_key := ck2\<rparr>))
                 | Some (ck3, _) \<Rightarrow>
                     let (ck4, h2, key) = mix_psk C ck3 h1 (preshared_key hs);
                         (enc_nothing, h3) = message_encrypt C [] key h2;
                         hs3 = hs2\<lparr>hs_chaining_key := ck4, hs_hash := h3\<rparr>
                     in case wg_index_hashtable_insert (rnd_index E) (index_table wg) (HS p) of
                       None \<Rightarrow> None
                     | Some (index, table) \<Rightarrow>
                         Some (Some \<lparr>resp_type = MESSAGE_HANDSHAKE_RESPONSE, resp_sender_index = index,
                             resp_receiver_index = hs_remote_index hs, resp_unencrypted_ephemeral = ephemeral,
                             resp_encrypted_nothing = enc_nothing, resp_macs = no_macs\<rparr>,
                           (set (hs3\<lparr>hs_state := HANDSHAKE_CREATED_RESPONSE\<rparr>))\<lparr>index_table := table\<rparr>)))"

text \<open>The chaining key and hash that a response leads to, from the handshake as it was read.\<close>

definition consume_response_parse ::
  "crypto \<Rightarrow> message_handshake_response \<Rightarrow> bytes \<Rightarrow> noise_handshake \<Rightarrow> (bytes \<times> bytes) option" where
  "consume_response_parse C src static_priv hs =
     (if hs_state hs \<noteq> HANDSHAKE_CREATED_INITIATION then None
      else
        let e = resp_unencrypted_ephemeral src;
            (ck1, h1) = message_ephemeral C e (hs_chaining_key hs) (hs_hash hs)
        in case mix_dh C ck1 False (ephemeral_private hs) e of
          None \<Rightarrow> None
        | Some (ck2, _) \<Rightarrow>
            (case mix_dh C ck2 False static_priv e of
               None \<Rightarrow> None
             | Some (ck3, _) \<Rightarrow>
                 let (ck4, h2, key) = mix_psk C ck3 h1 (preshared_key hs) in
                 case message_decrypt C (resp_encrypted_nothing src) key h2 of
                   None \<Rightarrow> None
                 | Some (_, h3) \<Rightarrow> Some (ck4, h3)))"

text \<open>
  The table is the one after the lookup, which writes to the entry that it finds. Here too the result is
  stored under a second lock, and only if the state is still the one that was read.
\<close>

definition consume_response_check ::
  "crypto \<Rightarrow> message_handshake_response \<Rightarrow> wg_device \<Rightarrow> (nat \<times> bytes \<times> bytes) option \<times> wg_device" where
  "consume_response_check C src wg =
     (if \<not> has_identity (static_identity wg) then (None, wg)
      else
        let (found, table) = wg_index_hashtable_lookup (peer_alive wg) (index_table wg) INDEX_HASHTABLE_HANDSHAKE
              (resp_receiver_index src);
            wg1 = wg\<lparr>index_table := table\<rparr>
        in case found of
          None \<Rightarrow> (None, wg1)
        | Some (_, p) \<Rightarrow>
            (case consume_response_parse C src (static_private (static_identity wg)) (handshake (peers wg1 p)) of
               None \<Rightarrow> (None, wg1)
             | Some (chaining_key, hash) \<Rightarrow> (Some (p, chaining_key, hash), wg_peer_get p wg1)))"

definition consume_response_commit ::
  "message_handshake_response \<Rightarrow> nat \<times> bytes \<times> bytes \<Rightarrow> wg_device \<Rightarrow> nat option \<times> wg_device" where
  "consume_response_commit src r wg =
     (case r of (p, chaining_key, hash) \<Rightarrow>
        if hs_state (handshake (peers wg p)) \<noteq> HANDSHAKE_CREATED_INITIATION then (None, wg_peer_put (Some p) wg)
        else (Some p, upd_handshake p (\<lambda>hs. hs\<lparr>remote_ephemeral := resp_unencrypted_ephemeral src, hs_hash := hash,
               hs_chaining_key := chaining_key, hs_remote_index := resp_sender_index src,
               hs_state := HANDSHAKE_CONSUMED_RESPONSE\<rparr>) wg))"

definition wg_noise_handshake_consume_response ::
  "crypto \<Rightarrow> message_handshake_response \<Rightarrow> wg_device \<Rightarrow> nat option \<times> wg_device" where
  "wg_noise_handshake_consume_response C src wg =
     (case consume_response_check C src wg of
        (None, wg1) \<Rightarrow> (None, wg1)
      | (Some r, wg1) \<Rightarrow> consume_response_commit src r wg1)"

section \<open>Session\<close>

definition fresh_key :: "wg_env \<Rightarrow> bytes \<Rightarrow> noise_symmetric_key" where
  "fresh_key E key = \<lparr>sk_key = key, sk_birthdate = boottime_ns E, sk_is_valid = True\<rparr>"

definition session_keys :: "crypto \<Rightarrow> wg_env \<Rightarrow> noise_handshake \<Rightarrow> noise_keypair \<Rightarrow> noise_keypair" where
  "session_keys C E hs kp =
     (let initiator = (hs_state hs = HANDSHAKE_CONSUMED_RESPONSE);
          (first, second) = derive_keys C (hs_chaining_key hs);
          kp1 = kp\<lparr>i_am_the_initiator := initiator, kp_remote_index := hs_remote_index hs\<rparr>
      in if initiator then kp1\<lparr>sending := fresh_key E first, receiving := fresh_key E second\<rparr>
         else kp1\<lparr>receiving := fresh_key E first, sending := fresh_key E second\<rparr>)"

definition wg_noise_handshake_begin_session :: "crypto \<Rightarrow> wg_env \<Rightarrow> nat \<Rightarrow> wg_device \<Rightarrow> bool \<times> wg_device" where
  "wg_noise_handshake_begin_session C E p wg =
     (let hs = handshake (peers wg p) in
      if hs_state hs \<noteq> HANDSHAKE_CREATED_RESPONSE \<and> hs_state hs \<noteq> HANDSHAKE_CONSUMED_RESPONSE then (False, wg)
      else
        case keypair_create E (ih_peer (index_table wg) (HS p)) wg of
          (None, wg1) \<Rightarrow> (False, wg1)
        | (Some k, wg1) \<Rightarrow>
            let wg2 = upd_keypair k (session_keys C E hs) wg1;
                wg3 = upd_handshake p handshake_zero wg2
            in if \<not> is_dead (peers wg3 p) then
                 let wg4 = add_new_keypair p k wg3;
                     (ret, table) = wg_index_hashtable_replace (index_table wg4) (HS p) (KP k)
                 in (ret, wg4\<lparr>index_table := table\<rparr>)
               else (False, upd_keypair k (\<lambda>_. zero_keypair) wg3))"

end
