(* ===== verification/Demo_Devices.thy ===== *)
theory Demo_Devices
  imports Noise_Handshake
begin

text \<open>
  A concrete instance of the primitives and two devices configured for each other, at which the
  theorems are applied. The instance satisfies the laws that the protocol relies on; it is not secure.
\<close>

section \<open>Primitives\<close>

definition demo_crypto :: crypto where
  "demo_crypto =
     \<lparr>blake2s = (\<lambda>key data len. take len (data @ key @ replicate len 0)),
       curve25519 = (\<lambda>a B. Some (map2 (+) a B)),
       curve25519_generate_public = (\<lambda>a. if length a = 32 then Some a else None),
       curve25519_clamp_secret = (\<lambda>a. a),
       chacha20poly1305_encrypt = (\<lambda>plain ad nonce key. plain @ replicate 16 0),
       chacha20poly1305_decrypt = (\<lambda>cipher ad nonce key. if length cipher < 16 then None else Some (take (length cipher - 16) cipher)),
       xchacha20poly1305_encrypt = (\<lambda>plain ad nonce key. plain @ replicate 16 0),
       xchacha20poly1305_decrypt = (\<lambda>cipher ad nonce key. if length cipher < 16 then None else Some (take (length cipher - 16) cipher))\<rparr>"

lemma map2_add_commute: "map2 (+) xs ys = map2 (+) ys (xs :: 'a :: comm_monoid_add list)"
proof (induction xs arbitrary: ys)
  case Nil
  then show ?case by simp
next
  case (Cons x xs)
  then show ?case by (cases ys) (simp_all add: add.commute)
qed

lemma demo_crypto_ok: "crypto_ok demo_crypto" "xaead_ok demo_crypto"
  by (auto simp: crypto_ok_def xaead_ok_def blake2s_ok_def aead_ok_def dh_ok_def demo_crypto_def map2_add_commute split: if_splits)

section \<open>Devices\<close>

definition demo_key :: "u8 \<Rightarrow> bytes" where
  "demo_key b = replicate 32 b"

text \<open>The stack knows one route, on interface 2; a packet is IPv4 or IPv6 by its first half byte.\<close>

definition demo_protocol :: "bytes \<Rightarrow> u16" where
  "demo_protocol h =
     (if length h \<ge> 20 \<and> drop_bit 4 (h ! 0) = 4 then ETH_P_IP
      else if length h \<ge> 40 \<and> drop_bit 4 (h ! 0) = 6 then ETH_P_IPV6 else 0)"

definition demo_env :: "u64 \<Rightarrow> wg_env" where
  "demo_env now = \<lparr>boottime_ns = now * NSEC_PER_SEC, jiffies = now * 1000, real_sec = now, real_nsec = 0, hz = 1000,
     rnd_ephemeral = demo_key 7, rnd_index = [5], rnd_jitter = 0, rnd_secret = demo_key 8, rnd_nonce = replicate 24 9,
     rng_is_initialized = True, alloc_ok = True, skb_cow_ok = (\<lambda>_. True), trylock_ok = True, dev_net = 1,
     dst_valid = (\<lambda>_. True), inet_confirm_addr = (\<lambda>_. True), ip_route_output_flow = (\<lambda>fl. Inr (0, 2, fl4_saddr fl)),
     ipv6_chk_addr = (\<lambda>_. True), ipv6_dst_lookup_flow = (\<lambda>fl. Inr (0, fl6_saddr fl)), ipv6_iface_scope_id = (\<lambda>_ iface. 0),
     ip_tunnel_parse_protocol = demo_protocol, ip_tunnel_ecn_encap = (\<lambda>_. 0), ip_tunnel_get_dsfield = (\<lambda>_. 0),
     ecn_decapsulate = (\<lambda>_ h. h), online_cpus = [0, 1], nr_cpumask_bits = 64\<rparr>"

definition demo_queue :: prev_queue where
  "demo_queue = \<lparr>pq_next = (\<lambda>_. None), pq_head = STUB, pq_tail = STUB, pq_peeked = None, pq_count = 0\<rparr>"

definition demo_cookie :: cookie where
  "demo_cookie = \<lparr>ck_birthdate = 0, ck_is_valid = False, ck_cookie = replicate 16 0, have_sent_mac1 = False,
     last_mac1_sent = replicate 16 0, cookie_decryption_key = demo_key 0, ck_mac1_key = demo_key 0\<rparr>"

definition demo_peer :: "noise_static_identity \<Rightarrow> bytes \<Rightarrow> wg_peer" where
  "demo_peer ident key =
     \<lparr>tx_queue = demo_queue, rx_queue = demo_queue, staged_packet_queue = [], serial_work_cpu = 0, is_dead = False,
       keypairs = \<lparr>current_keypair = None, previous_keypair = None, next_keypair = None\<rparr>,
       endpoint = \<lparr>ep_addr = AF_INET_addr 51820 [10, 0, 0, 1], ep_src = replicate 16 0\<rparr>, endpoint_cache = None,
       handshake = wg_noise_handshake_init demo_crypto ident key None, last_sent_handshake = 0,
       works = \<lparr>transmit_handshake_work = False, clear_peer_work = False, transmit_packet_work = False, napi_scheduled = False\<rparr>,
       latest_cookie = demo_cookie, rx_bytes = 0, tx_bytes = 0,
       timers = \<lparr>timer_retransmit_handshake = None, timer_send_keepalive = None, timer_new_handshake = None,
         timer_zero_key_material = None, timer_persistent_keepalive = None\<rparr>,
       timer_handshake_attempts = 0, persistent_keepalive_interval = 0, timer_need_another_keepalive = False,
       sent_lastminute_handshake = False, walltime_last_handshake = (0, 0), peer_refcount = 1, internal_id = 1\<rparr>"

definition demo_limiter :: ratelimiter where
  "demo_limiter = \<lparr>hsiphash_2u32 = (\<lambda>a b. a + b), hsiphash_3u32 = (\<lambda>a b c. a + b + c), init_refcnt = 1, total_entries = 0,
     max_entries = 8192, table_size = 1024, gc_queued = True, table_v4 = (\<lambda>_. []), table_v6 = (\<lambda>_. []), rcu_pending = 0\<rparr>"

definition demo_identity :: "u8 \<Rightarrow> noise_static_identity" where
  "demo_identity b = \<lparr>static_public = demo_key b, static_private = demo_key b, has_identity = True\<rparr>"

text \<open>The device with the first key, and one peer that has the second.\<close>

definition demo_device :: "u8 \<Rightarrow> u8 \<Rightarrow> wg_device" where
  "demo_device own other =
     \<lparr>netif_running = True, dev_mtu = 1420,
       queues = \<lparr>encrypt_queue = \<lparr>cq_ring = [], cq_size = MAX_QUEUED_PACKETS, cq_last_cpu = - 1, cq_work = {}\<rparr>,
         decrypt_queue = \<lparr>cq_ring = [], cq_size = MAX_QUEUED_PACKETS, cq_last_cpu = - 1, cq_work = {}\<rparr>,
         handshake_queue = \<lparr>cq_ring = [], cq_size = MAX_QUEUED_INCOMING_HANDSHAKES, cq_last_cpu = - 1, cq_work = {}\<rparr>,
         packets = (\<lambda>_. \<lparr>pk_skbs = [], pk_keypair = None, pk_state = PACKET_STATE_UNCRYPTED\<rparr>), next_packet = 0\<rparr>,
       outputs = \<lparr>transmitted = [], delivered = [], icmp_sent = [], rx_stats = 0, rx_errors = 0, rx_frame_errors = 0,
         rx_length_errors = 0, tx_errors = 0, tx_dropped = 0\<rparr>,
       sock4 = Some 51820, sock6 = Some 51820, creating_net = Some 1, static_identity = demo_identity own,
       checker = \<lparr>cc_secret = demo_key 0, cookie_encryption_key = demo_key 0, cc_mac1_key = demo_key 0, secret_birthdate = 0\<rparr>,
       peer_hashtable = \<lparr>pk_hash = (\<lambda>_. 0), pk_table = (\<lambda>b. if b = 0 then [0] else [])\<rparr>,
       index_table = \<lparr>ih_table = (\<lambda>_. []), ih_index = (\<lambda>_. 0), ih_peer = (\<lambda>_. Some 0)\<rparr>,
       peer_allowedips = \<lparr>root4 = Null, root6 = Null, tbl_seq = 1, allowedips_list = (\<lambda>_. [])\<rparr>,
       peer_list = [0], handshake_queue_len = 0, num_peers = 1, device_update_gen = 0, fwmark = 0, incoming_port = 51820,
       limiter = demo_limiter, last_under_load = 0, peers = (\<lambda>_. demo_peer (demo_identity own) (demo_key other)),
       keypair_store = (\<lambda>_. zero_keypair), next_peer = 1, next_keypair_id = 0, peer_counter = 1, keypair_counter = 0\<rparr>"

lemmas demo_defs = demo_device_def demo_peer_def demo_identity_def demo_key_def demo_env_def wg_noise_handshake_init_def
  precompute_static_static_def

section \<open>Messages can be created\<close>

lemma mix_dh_Some: "\<exists>d. curve25519 C a B = Some d \<Longrightarrow> \<exists>ck key. mix_dh C chaining has_key a B = Some (ck, key)"
  by (auto simp: mix_dh_def split: prod.splits)

lemma mix_precomputed_dh_Some: "d \<noteq> replicate NOISE_PUBLIC_KEY_LEN 0 \<Longrightarrow> \<exists>ck key. mix_precomputed_dh C chaining d = Some (ck, key)"
  by (simp add: mix_precomputed_dh_def split: prod.splits)

lemma create_initiation_exists:
  assumes "has_identity (static_identity wg)"
    and "curve25519_generate_public C (curve25519_clamp_secret C (rnd_ephemeral E)) = Some e"
    and "\<And>a B. \<exists>d. curve25519 C a B = Some d"
    and "precomputed_static_static (handshake (peers wg p)) \<noteq> replicate NOISE_PUBLIC_KEY_LEN 0"
    and "wg_index_hashtable_insert (rnd_index E) (index_table wg) (HS p) = Some it"
  shows "\<exists>m wg'. wg_noise_handshake_create_initiation C E p wg = Some (Some m, wg')"
proof -
  let ?hs = "handshake (peers wg p)" and ?secret = "curve25519_clamp_secret C (rnd_ephemeral E)"
  obtain ck0 h0 where h: "handshake_init C (remote_static ?hs) = (ck0, h0)" by fastforce
  obtain ck1 h1 where e: "message_ephemeral C e ck0 h0 = (ck1, h1)" by fastforce
  obtain ck2 key where dh: "mix_dh C ck1 True ?secret (remote_static ?hs) = Some (ck2, key)"
    using mix_dh_Some [OF assms(3)] by blast
  obtain ck3 key1 where pre: "mix_precomputed_dh C ck2 (precomputed_static_static ?hs) = Some (ck3, key1)"
    using mix_precomputed_dh_Some [OF assms(4)] by blast
  show ?thesis
    using assms(1,2,5) by (cases it) (simp add: wg_noise_handshake_create_initiation_def Let_def h e dh pre split: prod.splits)
qed

lemma create_response_exists:
  assumes "hs_state (handshake (peers wg p)) = HANDSHAKE_CONSUMED_INITIATION"
    and "curve25519_generate_public C (curve25519_clamp_secret C (rnd_ephemeral E)) = Some e"
    and "\<And>a B. \<exists>d. curve25519 C a B = Some d"
    and "wg_index_hashtable_insert (rnd_index E) (index_table wg) (HS p) = Some it"
  shows "\<exists>m wg'. wg_noise_handshake_create_response C E p wg = Some (Some m, wg')"
proof -
  let ?hs = "handshake (peers wg p)" and ?secret = "curve25519_clamp_secret C (rnd_ephemeral E)"
  obtain ck1 h1 where e: "message_ephemeral C e (hs_chaining_key ?hs) (hs_hash ?hs) = (ck1, h1)" by fastforce
  obtain ck2 key where dh: "mix_dh C ck1 False ?secret (remote_ephemeral ?hs) = Some (ck2, key)"
    using mix_dh_Some [OF assms(3)] by blast
  obtain ck3 key1 where dh2: "mix_dh C ck2 False ?secret (remote_static ?hs) = Some (ck3, key1)"
    using mix_dh_Some [OF assms(3)] by blast
  show ?thesis
    using assms(1,2,4) by (cases it) (simp add: wg_noise_handshake_create_response_def Let_def e dh dh2 split: prod.splits)
qed

lemma demo_insert: "\<exists>it. wg_index_hashtable_insert (rnd_index (demo_env now)) (index_table (demo_device a b)) (HS 0) = Some it"
  by (simp add: demo_defs wg_index_hashtable_insert_def insert_unhash_def insert_search_def insert_commit_def index_in_use_def
      hlist_del_init_def Let_def)

lemma demo_dh: "curve25519_generate_public demo_crypto (curve25519_clamp_secret demo_crypto (rnd_ephemeral (demo_env now))) = Some (demo_key 7)"
  "\<exists>d. curve25519 demo_crypto x y = Some d"
  by (simp_all add: demo_crypto_def demo_env_def demo_key_def)

lemma zip_replicate_same: "zip (replicate n x) (replicate n y) = replicate n (x, y)"
  by (induction n) simp_all

lemma demo_create_initiation:
  "\<exists>m wg'. wg_noise_handshake_create_initiation demo_crypto (demo_env now) 0 (demo_device 1 2) = Some (Some m, wg')"
proof -
  obtain it where "wg_index_hashtable_insert (rnd_index (demo_env now)) (index_table (demo_device 1 2)) (HS 0) = Some it"
    using demo_insert by blast
  then show ?thesis
    by (intro create_initiation_exists [OF _ demo_dh])
      (simp_all add: demo_defs, simp add: demo_crypto_def wg_defs zip_replicate_same)
qed

end
