(* ===== verification/Noise_Props.thy ===== *)
theory Noise_Props
  imports Demo_Devices
begin

text \<open>
  What the handshake achieves: two honest ends derive the same keys in opposite roles and under each
  other's indices. What holds over all runs of the handshake and of the key rotation is in \<^verbatim>\<open>Noise_Invariants\<close>.
\<close>

section \<open>Successful runs\<close>

lemma upd_handshake_simps [simp]:
  "handshake (peers (upd_handshake p f wg) q) = (if q = p then f (handshake (peers wg p)) else handshake (peers wg q))"
  "keypairs (peers (upd_handshake p f wg) q) = keypairs (peers wg q)"
  "is_dead (peers (upd_handshake p f wg) q) = is_dead (peers wg q)"
  "peer_refcount (peers (upd_handshake p f wg) q) = peer_refcount (peers wg q)"
  "slots (upd_handshake p f wg) = slots wg"
  "keypair_store (upd_handshake p f wg) = keypair_store wg"
  "index_table (upd_handshake p f wg) = index_table wg"
  "static_identity (upd_handshake p f wg) = static_identity wg"
  "peer_hashtable (upd_handshake p f wg) = peer_hashtable wg"
  "next_keypair_id (upd_handshake p f wg) = next_keypair_id wg"
  by (simp_all add: upd_handshake_def slots_def fun_eq_iff)

lemma peer_get_simps [simp]:
  "handshake (peers (wg_peer_get p wg) q) = handshake (peers wg q)"
  "keypairs (peers (wg_peer_get p wg) q) = keypairs (peers wg q)"
  "is_dead (peers (wg_peer_get p wg) q) = is_dead (peers wg q)"
  "keypair_store (wg_peer_get p wg) = keypair_store wg"
  "index_table (wg_peer_get p wg) = index_table wg"
  "static_identity (wg_peer_get p wg) = static_identity wg"
  "peer_hashtable (wg_peer_get p wg) = peer_hashtable wg"
  by (simp_all add: wg_peer_get_def)

lemma create_initiation_success:
  assumes "wg_noise_handshake_create_initiation C E p wg = Some (Some m, wg')"
  obtains eph ck0 h0 ck1 h1 ck2 key encs h2 ck3 key1 enct h3 index table where
    "has_identity (static_identity wg)"
    "handshake_init C (remote_static (handshake (peers wg p))) = (ck0, h0)"
    "curve25519_generate_public C (curve25519_clamp_secret C (rnd_ephemeral E)) = Some eph"
    "message_ephemeral C eph ck0 h0 = (ck1, h1)"
    "mix_dh C ck1 True (curve25519_clamp_secret C (rnd_ephemeral E)) (remote_static (handshake (peers wg p))) = Some (ck2, key)"
    "message_encrypt C (static_public (static_identity wg)) (the key) h1 = (encs, h2)"
    "mix_precomputed_dh C ck2 (precomputed_static_static (handshake (peers wg p))) = Some (ck3, key1)"
    "message_encrypt C (tai64n_now (real_sec E) (real_nsec E)) key1 h2 = (enct, h3)"
    "wg_index_hashtable_insert (rnd_index E) (index_table wg) (HS p) = Some (index, table)"
    "m = \<lparr>init_type = MESSAGE_HANDSHAKE_INITIATION, init_sender_index = index,
       init_unencrypted_ephemeral = eph, init_encrypted_static = encs,
       init_encrypted_timestamp = enct, init_macs = no_macs\<rparr>"
    "wg' = (upd_handshake p (\<lambda>hs. hs\<lparr>ephemeral_private := curve25519_clamp_secret C (rnd_ephemeral E),
       hs_chaining_key := ck3, hs_hash := h3, hs_state := HANDSHAKE_CREATED_INITIATION\<rparr>) wg)
       \<lparr>index_table := table\<rparr>"
  using assms
  by (auto simp: wg_noise_handshake_create_initiation_def Let_def upd_handshake_def upd_peer_def
      split: if_splits option.splits prod.splits)

lemma create_response_success:
  assumes "wg_noise_handshake_create_response C E p wg = Some (Some m, wg')"
  obtains eph ck1 h1 ck2 ck3 ck4 h2 key encn h3 index table where
    "hs_state (handshake (peers wg p)) = HANDSHAKE_CONSUMED_INITIATION"
    "curve25519_generate_public C (curve25519_clamp_secret C (rnd_ephemeral E)) = Some eph"
    "message_ephemeral C eph (hs_chaining_key (handshake (peers wg p))) (hs_hash (handshake (peers wg p))) = (ck1, h1)"
    "\<exists>k. mix_dh C ck1 False (curve25519_clamp_secret C (rnd_ephemeral E)) (remote_ephemeral (handshake (peers wg p))) = Some (ck2, k)"
    "\<exists>k. mix_dh C ck2 False (curve25519_clamp_secret C (rnd_ephemeral E)) (remote_static (handshake (peers wg p))) = Some (ck3, k)"
    "mix_psk C ck3 h1 (preshared_key (handshake (peers wg p))) = (ck4, h2, key)"
    "message_encrypt C [] key h2 = (encn, h3)"
    "wg_index_hashtable_insert (rnd_index E) (index_table wg) (HS p) = Some (index, table)"
    "m = \<lparr>resp_type = MESSAGE_HANDSHAKE_RESPONSE, resp_sender_index = index,
       resp_receiver_index = hs_remote_index (handshake (peers wg p)), resp_unencrypted_ephemeral = eph,
       resp_encrypted_nothing = encn, resp_macs = no_macs\<rparr>"
    "wg' = (upd_handshake p (\<lambda>hs. hs\<lparr>ephemeral_private := curve25519_clamp_secret C (rnd_ephemeral E),
       hs_chaining_key := ck4, hs_hash := h3, hs_state := HANDSHAKE_CREATED_RESPONSE\<rparr>) wg)
       \<lparr>index_table := table\<rparr>"
  using assms
  by (auto simp: wg_noise_handshake_create_response_def Let_def upd_handshake_def upd_peer_def
      split: if_splits option.splits prod.splits)

section \<open>Two honest ends\<close>

text \<open>
  A peer of one device and a peer of another that are configured for each other: each has the other's
  public key, the same preshared key, and the precomputed static secret.
\<close>

definition paired :: "crypto \<Rightarrow> wg_device \<Rightarrow> nat \<Rightarrow> wg_device \<Rightarrow> nat \<Rightarrow> bool" where
  "paired C A p B q \<longleftrightarrow>
     has_identity (static_identity A) \<and> has_identity (static_identity B) \<and>
     curve25519_generate_public C (static_private (static_identity A)) = Some (static_public (static_identity A)) \<and>
     curve25519_generate_public C (static_private (static_identity B)) = Some (static_public (static_identity B)) \<and>
     remote_static (handshake (peers A p)) = static_public (static_identity B) \<and>
     remote_static (handshake (peers B q)) = static_public (static_identity A) \<and>
     preshared_key (handshake (peers A p)) = preshared_key (handshake (peers B q)) \<and>
     handshake (peers A p) = precompute_static_static C (static_identity A) (handshake (peers A p)) \<and>
     handshake (peers B q) = precompute_static_static C (static_identity B) (handshake (peers B q))"

lemma paired_precomputed:
  assumes "dh_ok C" "paired C A p B q"
  shows "precomputed_static_static (handshake (peers A p)) = precomputed_static_static (handshake (peers B q))"
proof -
  let ?a = "static_private (static_identity A)" and ?b = "static_private (static_identity B)"
  have "curve25519 C ?a (static_public (static_identity B)) = curve25519 C ?b (static_public (static_identity A))"
    using assms unfolding dh_ok_def paired_def by blast
  moreover have "precomputed_static_static (handshake (peers A p)) =
      precomputed_static_static (precompute_static_static C (static_identity A) (handshake (peers A p)))"
    "precomputed_static_static (handshake (peers B q)) =
      precomputed_static_static (precompute_static_static C (static_identity B) (handshake (peers B q)))"
    using assms(2) unfolding paired_def by metis+
  ultimately show ?thesis
    using assms(2) by (simp add: paired_def precompute_static_static_def)
qed

definition finds_peer :: "wg_device \<Rightarrow> bytes \<Rightarrow> nat \<Rightarrow> bool" where
  "finds_peer wg key p \<longleftrightarrow>
     wg_pubkey_hashtable_lookup (\<lambda>p. remote_static (handshake (peers wg p))) (peer_alive wg) (peer_hashtable wg) key = Some p"

lemma initiation_ephemeral:
  assumes "wg_noise_handshake_create_initiation C E p A = Some (Some m, A1)"
  shows "curve25519_generate_public C (ephemeral_private (handshake (peers A1 p))) = Some (init_unencrypted_ephemeral m)"
  using assms by (rule create_initiation_success) simp

lemma initiation_agree:
  assumes C: "crypto_ok C" and pair: "paired C A p B q"
    and finds: "finds_peer B (static_public (static_identity A)) q"
    and create: "wg_noise_handshake_create_initiation C E p A = Some (Some m, A1)"
  shows "consume_initiation_parse C m B = Some (q, init_unencrypted_ephemeral m, tai64n_now (real_sec E) (real_nsec E),
      hs_hash (handshake (peers A1 p)), hs_chaining_key (handshake (peers A1 p)))"
proof -
  let ?secret = "curve25519_clamp_secret C (rnd_ephemeral E)"
  let ?a = "static_private (static_identity A)" and ?b = "static_private (static_identity B)"
  have ok: "dh_ok C" "aead_ok C" using C by (simp_all add: crypto_ok_def)
  from create show "consume_initiation_parse C m B = Some (q, init_unencrypted_ephemeral m, tai64n_now (real_sec E) (real_nsec E),
      hs_hash (handshake (peers A1 p)), hs_chaining_key (handshake (peers A1 p)))"
  proof (rule create_initiation_success)
    fix eph ck0 h0 ck1 h1 ck2 key encs h2 ck3 key1 enct h3 index table
    assume r: "has_identity (static_identity A)"
      "handshake_init C (remote_static (handshake (peers A p))) = (ck0, h0)"
      "curve25519_generate_public C ?secret = Some eph" "message_ephemeral C eph ck0 h0 = (ck1, h1)"
      "mix_dh C ck1 True ?secret (remote_static (handshake (peers A p))) = Some (ck2, key)"
      "message_encrypt C (static_public (static_identity A)) (the key) h1 = (encs, h2)"
      "mix_precomputed_dh C ck2 (precomputed_static_static (handshake (peers A p))) = Some (ck3, key1)"
      "message_encrypt C (tai64n_now (real_sec E) (real_nsec E)) key1 h2 = (enct, h3)"
      and m: "m = \<lparr>init_type = MESSAGE_HANDSHAKE_INITIATION, init_sender_index = index,
       init_unencrypted_ephemeral = eph, init_encrypted_static = encs,
       init_encrypted_timestamp = enct, init_macs = no_macs\<rparr>"
      and A1: "A1 = (upd_handshake p (\<lambda>hs. hs\<lparr>ephemeral_private := ?secret,
       hs_chaining_key := ck3, hs_hash := h3, hs_state := HANDSHAKE_CREATED_INITIATION\<rparr>) A)\<lparr>index_table := table\<rparr>"
    have pubs: "remote_static (handshake (peers A p)) = static_public (static_identity B)"
      "curve25519_generate_public C ?b = Some (static_public (static_identity B))" "has_identity (static_identity B)"
      using pair by (simp_all add: paired_def)
    have "mix_dh C ck1 True ?b eph = Some (ck2, key)"
      using mix_dh_agree [OF ok(1) r(3) pubs(2)] r(5) pubs(1) by simp
    moreover have "message_decrypt C encs (the key) h1 = Some (static_public (static_identity A), h2)"
      "message_decrypt C enct key1 h2 = Some (tai64n_now (real_sec E) (real_nsec E), h3)"
      using message_decrypt_encrypt [OF ok(2)] r(6,8) by auto
    moreover have "mix_precomputed_dh C ck2 (precomputed_static_static (handshake (peers B q))) = Some (ck3, key1)"
      using r(7) paired_precomputed [OF ok(1) pair] by simp
    ultimately show ?thesis
      using r(2,4) pubs finds by (simp add: consume_initiation_parse_def m A1 finds_peer_def)
  qed
qed

lemma response_agree:
  assumes C: "crypto_ok C"
    and A: "hs_state hA = HANDSHAKE_CREATED_INITIATION" "curve25519_generate_public C (ephemeral_private hA) = Some eA"
      "curve25519_generate_public C privA = Some SA"
    and B: "remote_ephemeral (handshake (peers B1 q)) = eA" "remote_static (handshake (peers B1 q)) = SA"
      "hs_chaining_key (handshake (peers B1 q)) = hs_chaining_key hA" "hs_hash (handshake (peers B1 q)) = hs_hash hA"
      "preshared_key (handshake (peers B1 q)) = preshared_key hA"
    and create: "wg_noise_handshake_create_response C E q B1 = Some (Some m, B2)"
  shows "consume_response_parse C m privA hA =
      Some (hs_chaining_key (handshake (peers B2 q)), hs_hash (handshake (peers B2 q)))"
  using create
proof (rule create_response_success)
  let ?secret = "curve25519_clamp_secret C (rnd_ephemeral E)"
  fix eph ck1 h1 ck2 ck3 ck4 h2 key encn h3 index table
  assume r: "curve25519_generate_public C ?secret = Some eph"
    "message_ephemeral C eph (hs_chaining_key (handshake (peers B1 q))) (hs_hash (handshake (peers B1 q))) = (ck1, h1)"
    and dh: "\<exists>k. mix_dh C ck1 False ?secret (remote_ephemeral (handshake (peers B1 q))) = Some (ck2, k)"
    "\<exists>k. mix_dh C ck2 False ?secret (remote_static (handshake (peers B1 q))) = Some (ck3, k)"
    and s: "mix_psk C ck3 h1 (preshared_key (handshake (peers B1 q))) = (ck4, h2, key)"
    "message_encrypt C [] key h2 = (encn, h3)"
    and m: "m = \<lparr>resp_type = MESSAGE_HANDSHAKE_RESPONSE, resp_sender_index = index,
       resp_receiver_index = hs_remote_index (handshake (peers B1 q)), resp_unencrypted_ephemeral = eph,
       resp_encrypted_nothing = encn, resp_macs = no_macs\<rparr>"
    and B2: "B2 = (upd_handshake q (\<lambda>hs. hs\<lparr>ephemeral_private := ?secret,
       hs_chaining_key := ck4, hs_hash := h3, hs_state := HANDSHAKE_CREATED_RESPONSE\<rparr>) B1)\<lparr>index_table := table\<rparr>"
  have ok: "dh_ok C" "aead_ok C" using C by (simp_all add: crypto_ok_def)
  obtain k1 where "mix_dh C ck1 False (ephemeral_private hA) eph = Some (ck2, k1)"
    using dh(1) mix_dh_agree [OF ok(1) r(1) A(2)] B(1) by auto
  moreover obtain k2 where "mix_dh C ck2 False privA eph = Some (ck3, k2)"
    using dh(2) mix_dh_agree [OF ok(1) r(1) A(3)] B(2) by auto
  moreover have "message_decrypt C encn key h2 = Some ([], h3)" by (rule message_decrypt_encrypt [OF ok(2) s(2)])
  ultimately show ?thesis
    using A(1) B(3-5) r(2) s by (simp add: consume_response_parse_def m B2)
qed

section \<open>Rotation\<close>

text \<open>The keypairs in the slots of a peer.\<close>

definition slot_set :: "noise_keypairs \<Rightarrow> nat set" where
  "slot_set s = {k. current_keypair s = Some k \<or> previous_keypair s = Some k \<or> next_keypair s = Some k}"

lemma add_new_keypair_slots:
  "slots (add_new_keypair p new wg) q =
     (if q \<noteq> p then slots wg q
      else if i_am_the_initiator (keypair_store wg new) then
        \<lparr>current_keypair = Some new,
          previous_keypair = (if next_keypair (slots wg p) \<noteq> None then next_keypair (slots wg p) else current_keypair (slots wg p)),
          next_keypair = None\<rparr>
      else \<lparr>current_keypair = current_keypair (slots wg p), previous_keypair = None, next_keypair = Some new\<rparr>)"
  by (auto simp: add_new_keypair_def Let_def)

lemma add_new_keypair_store:
  assumes "new \<notin> slot_set (slots wg p)"
  shows "keypair_store (add_new_keypair p new wg) new = keypair_store wg new"
  using assms by (auto simp: add_new_keypair_def Let_def keypair_put_store slot_set_def)

lemma add_new_keypair_index [simp]:
  "ih_index (index_table (add_new_keypair p new wg)) = ih_index (index_table wg)"
  "ih_peer (index_table (add_new_keypair p new wg)) = ih_peer (index_table wg)"
  by (simp_all add: add_new_keypair_def Let_def)

lemma add_new_keypair_peers [simp]:
  "handshake (peers (add_new_keypair p new wg) q) = handshake (peers wg q)"
  by (auto simp: add_new_keypair_def Let_def)

text \<open>A put with immediate unhashing only removes the entry of that keypair.\<close>

lemma add_new_keypair_hashed:
  "entry_hashed (index_table (add_new_keypair p new wg)) (HS q) \<longleftrightarrow> entry_hashed (index_table wg) (HS q)"
  "entry_hashed (index_table (add_new_keypair p new wg)) e \<Longrightarrow> entry_hashed (index_table wg) e"
  by (auto simp: add_new_keypair_def Let_def keypair_put_hashed split: if_splits)

definition session_ready :: "nat \<Rightarrow> wg_device \<Rightarrow> bool" where
  "session_ready p wg \<longleftrightarrow> entry_hashed (index_table wg) (HS p) \<and> \<not> is_dead (peers wg p) \<and>
     (\<forall>k \<in> slot_set (slots wg p). k < next_keypair_id wg)"

lemma begin_session_success:
  assumes "session_ready p wg" "alloc_ok E"
    and "hs_state (handshake (peers wg p)) = HANDSHAKE_CREATED_RESPONSE \<or>
      hs_state (handshake (peers wg p)) = HANDSHAKE_CONSUMED_RESPONSE"
  defines "k \<equiv> next_keypair_id wg"
  obtains wg' where "wg_noise_handshake_begin_session C E p wg = (True, wg')"
    "keypair_store wg' k = session_keys C E (handshake (peers wg p))
       (zero_keypair\<lparr>kp_internal_id := keypair_counter wg + 1, kp_refcount := 1\<rparr>)"
    "ih_index (index_table wg') (KP k) = ih_index (index_table wg) (HS p)"
    "slots wg' p = (if hs_state (handshake (peers wg p)) = HANDSHAKE_CONSUMED_RESPONSE then
        \<lparr>current_keypair = Some k,
          previous_keypair = (if next_keypair (slots wg p) \<noteq> None then next_keypair (slots wg p) else current_keypair (slots wg p)),
          next_keypair = None\<rparr>
      else \<lparr>current_keypair = current_keypair (slots wg p), previous_keypair = None, next_keypair = Some k\<rparr>)"
proof -
  let ?hs = "handshake (peers wg p)"
  let ?kp0 = "zero_keypair\<lparr>kp_internal_id := keypair_counter wg + 1, kp_refcount := 1\<rparr>"
  obtain wg1 where cr: "keypair_create E (ih_peer (index_table wg) (HS p)) wg = (Some k, wg1)"
    using assms(2) by (simp add: keypair_create_def k_def Let_def)
  let ?wg3 = "upd_handshake p handshake_zero (upd_keypair k (session_keys C E ?hs) wg1)"
  let ?wg4 = "add_new_keypair p k ?wg3"
  have w1: "keypair_store wg1 k = ?kp0" "peers wg1 = peers wg" "slots wg1 = slots wg"
    "ih_index (index_table wg1) = ih_index (index_table wg)" "entry_hashed (index_table wg1) = entry_hashed (index_table wg)"
    using assms(2) cr by (auto simp: keypair_create_def k_def Let_def slots_def fun_eq_iff entry_hashed_def)
  have k3: "keypair_store ?wg3 k = session_keys C E ?hs ?kp0" by (simp add: w1)
  have init: "i_am_the_initiator (session_keys C E ?hs ?kp0) \<longleftrightarrow> hs_state ?hs = HANDSHAKE_CONSUMED_RESPONSE"
    by (simp add: session_keys_def Let_def case_prod_beta)
  have slots3: "slots ?wg3 p = slots wg p" by (simp add: w1 slots_def)
  have notin: "k \<notin> slot_set (slots ?wg3 p)" using assms(1) slots3 by (auto simp: session_ready_def k_def)
  have hashed: "hashed (ih_table (index_table ?wg4)) (HS p)"
    using assms(1) add_new_keypair_hashed(1) [of p k ?wg3 p] by (simp add: session_ready_def w1 flip: entry_hashed_def)
  let ?r = "wg_index_hashtable_replace (index_table ?wg4) (HS p) (KP k)"
  let ?wg' = "?wg4\<lparr>index_table := snd ?r\<rparr>"
  have r: "fst ?r" "ih_index (snd ?r) (KP k) = ih_index (index_table ?wg4) (HS p)"
    using hashed by (simp_all add: wg_index_hashtable_replace_def)
  have alive: "\<not> is_dead (peers ?wg3 p)" using assms(1) by (simp add: session_ready_def w1)
  have "wg_noise_handshake_begin_session C E p wg = (True, ?wg')"
    using assms(3) alive r(1) by (auto simp: wg_noise_handshake_begin_session_def cr Let_def case_prod_beta)
  moreover have "keypair_store ?wg' k = session_keys C E ?hs ?kp0"
    using add_new_keypair_store [OF notin] k3 by simp
  moreover have "ih_index (index_table ?wg') (KP k) = ih_index (index_table wg) (HS p)" using r(2) by (simp add: w1)
  moreover have i3: "i_am_the_initiator (keypair_store ?wg3 k) \<longleftrightarrow> hs_state ?hs = HANDSHAKE_CONSUMED_RESPONSE"
    using k3 init by simp
  have "slots ?wg' p = slots ?wg4 p" by (simp add: slots_def)
  then have "slots ?wg' p = (if hs_state ?hs = HANDSHAKE_CONSUMED_RESPONSE then
        \<lparr>current_keypair = Some k,
          previous_keypair = (if next_keypair (slots wg p) \<noteq> None then next_keypair (slots wg p) else current_keypair (slots wg p)),
          next_keypair = None\<rparr>
      else \<lparr>current_keypair = current_keypair (slots wg p), previous_keypair = None, next_keypair = Some k\<rparr>)"
    unfolding add_new_keypair_slots slots3 i3 by simp
  ultimately show thesis by (rule that)
qed

section \<open>Agreement\<close>

text \<open>
  The initiating end can find its handshake again: its index table is in order, and the entry of the
  handshake points to the peer, which is alive.
\<close>

definition reachable_entry :: "wg_device \<Rightarrow> nat \<Rightarrow> bool" where
  "reachable_entry wg p \<longleftrightarrow> index_ok (index_table wg) \<and> ih_peer (index_table wg) (HS p) = Some p \<and> peer_alive wg p"

definition mirrored :: "noise_keypair \<Rightarrow> noise_keypair \<Rightarrow> bool" where
  "mirrored a b \<longleftrightarrow> sk_key (sending a) = sk_key (receiving b) \<and> sk_key (receiving a) = sk_key (sending b) \<and>
     sk_is_valid (sending a) \<and> sk_is_valid (receiving a) \<and> sk_is_valid (sending b) \<and> sk_is_valid (receiving b)"

lemma session_keys_mirrored:
  assumes "hs_chaining_key hA = hs_chaining_key hB" "hs_state hA = HANDSHAKE_CONSUMED_RESPONSE"
    "hs_state hB = HANDSHAKE_CREATED_RESPONSE"
  shows "mirrored (session_keys C E hA kpA) (session_keys C F hB kpB)"
  using assms by (auto simp: mirrored_def session_keys_def fresh_key_def Let_def split: prod.splits)

lemma session_keys_index: "kp_remote_index (session_keys C E hs kp) = hs_remote_index hs"
  by (simp add: session_keys_def Let_def case_prod_beta)

lemma slots_get [simp]: "slots (wg_peer_get p wg) = slots wg"
  by (simp add: slots_def fun_eq_iff)

lemma next_keypair_get [simp]: "next_keypair_id (wg_peer_get p wg) = next_keypair_id wg"
  by (simp add: wg_peer_get_def)

lemma session_ready_handshake:
  "session_ready p ((upd_handshake q f wg)\<lparr>index_table := table\<rparr>) \<longleftrightarrow>
     entry_hashed table (HS p) \<and> \<not> is_dead (peers wg p) \<and> (\<forall>k \<in> slot_set (slots wg p). k < next_keypair_id wg)"
proof -
  have "peers ((upd_handshake q f wg)\<lparr>index_table := table\<rparr>) = peers (upd_handshake q f wg)"
    "slots ((upd_handshake q f wg)\<lparr>index_table := table\<rparr>) = slots (upd_handshake q f wg)"
    "next_keypair_id ((upd_handshake q f wg)\<lparr>index_table := table\<rparr>) = next_keypair_id wg"
    by (simp_all add: slots_def fun_eq_iff)
  then show ?thesis by (simp add: session_ready_def)
qed

text \<open>What a device must be like for a session of the peer: not being removed, and slots in order.\<close>

definition slots_ready :: "nat \<Rightarrow> wg_device \<Rightarrow> bool" where
  "slots_ready p wg \<longleftrightarrow> \<not> is_dead (peers wg p) \<and> (\<forall>k \<in> slot_set (slots wg p). k < next_keypair_id wg)"

text \<open>The first half: the responder accepts the initiation and both ends have the same transcript.\<close>

lemma agreement_initiation:
  assumes C: "crypto_ok C" and pair: "paired C A p B q"
    and finds: "finds_peer B (static_public (static_identity A)) q"
    and init: "wg_noise_handshake_create_initiation C E1 p A = Some (Some m1, A1)"
    and fresh: "memcmp_less (latest_timestamp (handshake (peers B q))) (tai64n_now (real_sec E1) (real_nsec E1))"
    and calm: "\<not> flood_attack E2 (handshake (peers B q))"
  obtains f where
    "wg_noise_handshake_consume_initiation C E2 m1 B = (Some q, upd_handshake q f (wg_peer_get q B))"
    "hs_state (f (handshake (peers B q))) = HANDSHAKE_CONSUMED_INITIATION"
    "remote_ephemeral (f (handshake (peers B q))) = init_unencrypted_ephemeral m1"
    "remote_static (f (handshake (peers B q))) = remote_static (handshake (peers B q))"
    "hs_chaining_key (f (handshake (peers B q))) = hs_chaining_key (handshake (peers A1 p))"
    "hs_hash (f (handshake (peers B q))) = hs_hash (handshake (peers A1 p))"
    "preshared_key (f (handshake (peers B q))) = preshared_key (handshake (peers B q))"
    "hs_remote_index (f (handshake (peers B q))) = init_sender_index m1"
proof -
  have "consume_initiation_parse C m1 B = Some (q, init_unencrypted_ephemeral m1, tai64n_now (real_sec E1) (real_nsec E1),
      hs_hash (handshake (peers A1 p)), hs_chaining_key (handshake (peers A1 p)))"
    by (rule initiation_agree [OF C pair finds init])
  moreover have "\<not> (replay_attack (tai64n_now (real_sec E1) (real_nsec E1)) (handshake (peers B q)) \<or>
      flood_attack E2 (handshake (peers B q)))"
    using fresh calm by (simp add: replay_attack_def)
  ultimately show thesis
    by (intro that [of "\<lambda>hs. hs\<lparr>remote_ephemeral := init_unencrypted_ephemeral m1,
          latest_timestamp := (if memcmp_less (latest_timestamp hs) (tai64n_now (real_sec E1) (real_nsec E1))
            then tai64n_now (real_sec E1) (real_nsec E1) else latest_timestamp hs),
          hs_hash := hs_hash (handshake (peers A1 p)), hs_chaining_key := hs_chaining_key (handshake (peers A1 p)),
          hs_remote_index := init_sender_index m1,
          last_initiation_consumption := (if sint (last_initiation_consumption hs - boottime_ns E2) < 0
            then boottime_ns E2 else last_initiation_consumption hs),
          hs_state := HANDSHAKE_CONSUMED_INITIATION\<rparr>"])
      (simp_all add: wg_noise_handshake_consume_initiation_def consume_initiation_check_def consume_initiation_commit_def Let_def)
qed

text \<open>The second half: the initiator accepts the response, and both ends have the same chaining key.\<close>

lemma agreement_response:
  assumes C: "crypto_ok C" and pair: "paired C A p B q" and entry: "reachable_entry A p"
    and init: "wg_noise_handshake_create_initiation C E1 p A = Some (Some m1, A1)"
    and B1: "remote_ephemeral (handshake (peers B1 q)) = init_unencrypted_ephemeral m1"
      "remote_static (handshake (peers B1 q)) = remote_static (handshake (peers B q))"
      "hs_chaining_key (handshake (peers B1 q)) = hs_chaining_key (handshake (peers A1 p))"
      "hs_hash (handshake (peers B1 q)) = hs_hash (handshake (peers A1 p))"
      "preshared_key (handshake (peers B1 q)) = preshared_key (handshake (peers B q))"
      "hs_remote_index (handshake (peers B1 q)) = init_sender_index m1"
    and resp: "wg_noise_handshake_create_response C E3 q B1 = Some (Some m2, B2)"
  obtains A2 where "wg_noise_handshake_consume_response C m2 A1 = (Some p, A2)"
    "hs_state (handshake (peers A2 p)) = HANDSHAKE_CONSUMED_RESPONSE"
    "hs_chaining_key (handshake (peers A2 p)) = hs_chaining_key (handshake (peers B2 q))"
    "hs_remote_index (handshake (peers A2 p)) = resp_sender_index m2"
    "index_table A2 = index_table A1" "ih_index (index_table A1) (HS p) = init_sender_index m1"
    "slots_ready p A \<Longrightarrow> session_ready p A2"
proof -
  from init obtain index table f where
    ins: "wg_index_hashtable_insert (rnd_index E1) (index_table A) (HS p) = Some (index, table)"
    and m1: "init_sender_index m1 = index"
    and A1: "A1 = (upd_handshake p f A)\<lparr>index_table := table\<rparr>"
      "hs_state (f (handshake (peers A p))) = HANDSHAKE_CREATED_INITIATION"
      "preshared_key (f (handshake (peers A p))) = preshared_key (handshake (peers A p))"
      "has_identity (static_identity A)"
    by (rule create_initiation_success) auto
  have hA: "handshake (peers A1 p) = f (handshake (peers A p))" "static_identity A1 = static_identity A"
    "peer_alive A1 = peer_alive A" "index_table A1 = table"
    by (simp_all add: A1 peer_alive_def fun_eq_iff)
  have tab: "index_ok table" "entry_hashed table (HS p)" "ih_index table (HS p) = index" "ih_peer table (HS p) = Some p"
    using insert_ok [OF _ ins] entry by (simp_all add: reachable_entry_def)
  from resp have m2: "resp_receiver_index m2 = index"
    by (rule create_response_success) (simp add: B1 m1)
  let ?lk = "wg_index_hashtable_lookup (peer_alive A1) table INDEX_HASHTABLE_HANDSHAKE index"
  have "fst ?lk = Some (HS p, p)"
    unfolding index_lookup_iff [OF tab(1)] using tab entry by (simp add: hA reachable_entry_def)
  then have lk: "?lk = (Some (HS p, p), table)" using index_lookup_same [of "peer_alive A1" table _ index "HS p" p]
    by (metis prod.collapse)
  have parse: "consume_response_parse C m2 (static_private (static_identity A)) (handshake (peers A1 p)) =
      Some (hs_chaining_key (handshake (peers B2 q)), hs_hash (handshake (peers B2 q)))"
    using pair A1(2,3) B1(1,2,5)
    by (intro response_agree [OF C _ initiation_ephemeral [OF init] _ _ _ B1(3,4) _ resp]) (simp_all add: hA paired_def)
  let ?f = "\<lambda>hs. hs\<lparr>remote_ephemeral := resp_unencrypted_ephemeral m2,
    hs_hash := hs_hash (handshake (peers B2 q)), hs_chaining_key := hs_chaining_key (handshake (peers B2 q)),
    hs_remote_index := resp_sender_index m2, hs_state := HANDSHAKE_CONSUMED_RESPONSE\<rparr>"
  let ?A2 = "upd_handshake p ?f (wg_peer_get p A1)"
  have same: "A1\<lparr>index_table := table\<rparr> = A1" by (simp add: A1)
  have "wg_noise_handshake_consume_response C m2 A1 = (Some p, ?A2)"
    using A1(4) lk parse 
    by (simp add: wg_noise_handshake_consume_response_def consume_response_check_def consume_response_commit_def hA(1,2,4) A1(2) m2 same)
  moreover have "session_ready p ?A2" if "slots_ready p A"
  proof -
    have "session_ready p ?A2 \<longleftrightarrow> session_ready p A1"
      by (simp add: session_ready_def)
    also have "\<dots>" using that tab(2) by (simp add: A1(1) session_ready_handshake slots_ready_def)
    finally show ?thesis .
  qed
  ultimately show thesis using that [of ?A2] tab(3) m1 by (simp add: hA(4))
qed

text \<open>
  C2. Two honest ends agree. When a device has created an initiation for a peer that is configured for it,
  and the time stamp is newer than the last and the peer not flooded, then the other device accepts it;
  the response that it creates is accepted in turn; both then establish a session, with the sending
  key of each being the receiving key of the other, and the index that each sends to being the one
  under which the other has hashed its keypair. The initiator's keypair is current at once, the
  responder's waits in the next slot.
\<close>

theorem handshake_agreement:
  assumes "crypto_ok C" "paired C A p B q" "finds_peer B (static_public (static_identity A)) q"
    and "reachable_entry A p" "index_ok (index_table B)" "slots_ready p A" "slots_ready q B"
    and "wg_noise_handshake_create_initiation C E1 p A = Some (Some m1, A1)"
    and "memcmp_less (latest_timestamp (handshake (peers B q))) (tai64n_now (real_sec E1) (real_nsec E1))"
    and "\<not> flood_attack E2 (handshake (peers B q))"
    and "wg_noise_handshake_create_response C E3 q (snd (wg_noise_handshake_consume_initiation C E2 m1 B)) = Some (Some m2, B2)"
    and "alloc_ok E4" "alloc_ok E5"
  shows "fst (wg_noise_handshake_consume_initiation C E2 m1 B) = Some q \<and>
    fst (wg_noise_handshake_consume_response C m2 A1) = Some p \<and>
    (\<exists>A3 B3 kA kB.
      wg_noise_handshake_begin_session C E4 p (snd (wg_noise_handshake_consume_response C m2 A1)) = (True, A3) \<and>
      wg_noise_handshake_begin_session C E5 q B2 = (True, B3) \<and>
      current_keypair (slots A3 p) = Some kA \<and> next_keypair (slots B3 q) = Some kB \<and>
      mirrored (keypair_store A3 kA) (keypair_store B3 kB) \<and>
      kp_remote_index (keypair_store A3 kA) = ih_index (index_table B3) (KP kB) \<and>
      kp_remote_index (keypair_store B3 kB) = ih_index (index_table A3) (KP kA))"
proof -
  obtain f where f: "wg_noise_handshake_consume_initiation C E2 m1 B = (Some q, upd_handshake q f (wg_peer_get q B))"
    "remote_ephemeral (f (handshake (peers B q))) = init_unencrypted_ephemeral m1"
    "remote_static (f (handshake (peers B q))) = remote_static (handshake (peers B q))"
    "hs_chaining_key (f (handshake (peers B q))) = hs_chaining_key (handshake (peers A1 p))"
    "hs_hash (f (handshake (peers B q))) = hs_hash (handshake (peers A1 p))"
    "preshared_key (f (handshake (peers B q))) = preshared_key (handshake (peers B q))"
    "hs_remote_index (f (handshake (peers B q))) = init_sender_index m1"
    by (rule agreement_initiation [OF assms(1-3,8-10)])
  let ?B1 = "upd_handshake q f (wg_peer_get q B)"
  have resp: "wg_noise_handshake_create_response C E3 q ?B1 = Some (Some m2, B2)" using assms(11) f(1) by simp
  obtain A2 where A2: "wg_noise_handshake_consume_response C m2 A1 = (Some p, A2)"
    "hs_state (handshake (peers A2 p)) = HANDSHAKE_CONSUMED_RESPONSE"
    "hs_chaining_key (handshake (peers A2 p)) = hs_chaining_key (handshake (peers B2 q))"
    "hs_remote_index (handshake (peers A2 p)) = resp_sender_index m2"
    "index_table A2 = index_table A1" "ih_index (index_table A1) (HS p) = init_sender_index m1"
    "slots_ready p A \<Longrightarrow> session_ready p A2"
    by (rule agreement_response [OF assms(1,2,4,8) _ _ _ _ _ _ resp]) (simp_all add: f(2-7))
  from resp obtain g index table where
    ins: "wg_index_hashtable_insert (rnd_index E3) (index_table ?B1) (HS q) = Some (index, table)"
    and m2: "resp_sender_index m2 = index"
    and B2: "B2 = (upd_handshake q g ?B1)\<lparr>index_table := table\<rparr>"
      "hs_state (g (handshake (peers ?B1 q))) = HANDSHAKE_CREATED_RESPONSE"
      "hs_remote_index (g (handshake (peers ?B1 q))) = hs_remote_index (handshake (peers ?B1 q))"
    by (rule create_response_success) auto
  have tab: "entry_hashed table (HS q)" "ih_index table (HS q) = index"
    using insert_ok [OF _ ins] assms(5) by simp_all
  have hB: "handshake (peers B2 q) = g (handshake (peers ?B1 q))" "index_table B2 = table" by (simp_all add: B2)
  have sB: "hs_state (handshake (peers B2 q)) = HANDSHAKE_CREATED_RESPONSE" unfolding hB(1) by (rule B2(2))
  have ready: "session_ready q B2"
    using assms(7) tab(1) by (simp add: B2(1) session_ready_handshake slots_ready_def)
  obtain A3 where A3: "wg_noise_handshake_begin_session C E4 p A2 = (True, A3)"
    "keypair_store A3 (next_keypair_id A2) = session_keys C E4 (handshake (peers A2 p))
       (zero_keypair\<lparr>kp_internal_id := keypair_counter A2 + 1, kp_refcount := 1\<rparr>)"
    "ih_index (index_table A3) (KP (next_keypair_id A2)) = ih_index (index_table A2) (HS p)"
    "current_keypair (slots A3 p) = Some (next_keypair_id A2)"
    using A2(2) by (rule begin_session_success [where C = C, OF A2(7) [OF assms(6)] assms(12) disjI2]) (simp add: A2(2))
  obtain B3 where B3: "wg_noise_handshake_begin_session C E5 q B2 = (True, B3)"
    "keypair_store B3 (next_keypair_id B2) = session_keys C E5 (handshake (peers B2 q))
       (zero_keypair\<lparr>kp_internal_id := keypair_counter B2 + 1, kp_refcount := 1\<rparr>)"
    "ih_index (index_table B3) (KP (next_keypair_id B2)) = ih_index (index_table B2) (HS q)"
    "next_keypair (slots B3 q) = Some (next_keypair_id B2)"
    using sB by (rule begin_session_success [where C = C, OF ready assms(13) disjI1]) (simp add: sB)
  have "mirrored (keypair_store A3 (next_keypair_id A2)) (keypair_store B3 (next_keypair_id B2))"
    unfolding A3(2) B3(2) by (rule session_keys_mirrored [OF A2(3,2) sB])
  moreover have "kp_remote_index (keypair_store A3 (next_keypair_id A2)) = ih_index (index_table B3) (KP (next_keypair_id B2))"
    unfolding A3(2) B3(3) session_keys_index using A2(4) m2 tab(2) hB(2) by simp
  moreover have "kp_remote_index (keypair_store B3 (next_keypair_id B2)) = ih_index (index_table A3) (KP (next_keypair_id A2))"
    unfolding B3(2) A3(3) session_keys_index using A2(5,6) B2(3) f(7) by (simp add: hB)
  ultimately show ?thesis using f(1) A2(1) A3(1,4) B3(1,4) by auto
qed

section \<open>Two devices\<close>

lemma demo_paired: "paired demo_crypto (demo_device 1 2) 0 (demo_device 2 1) 0"
  by (simp add: paired_def demo_defs) (simp add: demo_crypto_def)

lemma demo_finds: "finds_peer (demo_device 2 1) (static_public (static_identity (demo_device 1 2))) 0"
  by (simp add: finds_peer_def wg_pubkey_hashtable_lookup_def pubkey_bucket_def peer_alive_def demo_defs)

lemma demo_ready: "slots_ready 0 (demo_device a b)" "reachable_entry (demo_device a b) 0" "index_ok (index_table (demo_device a b))"
  by (simp_all add: slots_ready_def reachable_entry_def slots_def slot_set_def peer_alive_def demo_defs index_ok_def placed_def unique_keys_def hashed_def)

lemma demo_fresh:
  "memcmp_less (latest_timestamp (handshake (peers (demo_device 2 1) 0))) (tai64n_now (real_sec (demo_env 3)) (real_nsec (demo_env 3)))"
  "\<not> flood_attack (demo_env 4) (handshake (peers (demo_device 2 1) 0))"
  by (simp add: demo_defs zero_bytes_def wg_defs, code_simp) (simp add: flood_attack_def demo_defs wg_defs)

lemma consume_initiation_state:
  assumes "wg_noise_handshake_consume_initiation C E src wg = (Some p, wg')"
  shows "hs_state (handshake (peers wg' p)) = HANDSHAKE_CONSUMED_INITIATION" "index_table wg' = index_table wg"
  using assms by (auto simp: wg_noise_handshake_consume_initiation_def consume_initiation_commit_def Let_def split: option.splits prod.splits)

lemma demo_consume_initiation:
  assumes "wg_noise_handshake_create_initiation demo_crypto (demo_env 3) 0 (demo_device 1 2) = Some (Some m1, A1)"
  shows "\<exists>B1. wg_noise_handshake_consume_initiation demo_crypto (demo_env 4) m1 (demo_device 2 1) = (Some 0, B1)"
  using agreement_initiation [OF demo_crypto_ok(1) demo_paired demo_finds assms demo_fresh] by metis

lemma demo_create_response:
  assumes "wg_noise_handshake_consume_initiation demo_crypto (demo_env 4) m1 (demo_device 2 1) = (Some 0, B1)"
  shows "\<exists>m wg'. wg_noise_handshake_create_response demo_crypto (demo_env now) 0 B1 = Some (Some m, wg')"
proof -
  obtain it where "wg_index_hashtable_insert (rnd_index (demo_env now)) (index_table B1) (HS 0) = Some it"
    using demo_insert consume_initiation_state(2) [OF assms] by metis
  then show ?thesis using create_response_exists [OF consume_initiation_state(1) [OF assms] demo_dh] by blast
qed

theorem handshake_agreement_witness:
  "\<exists>m1 A1 m2 B2.
     wg_noise_handshake_create_initiation demo_crypto (demo_env 3) 0 (demo_device 1 2) = Some (Some m1, A1) \<and>
     fst (wg_noise_handshake_consume_initiation demo_crypto (demo_env 4) m1 (demo_device 2 1)) = Some 0 \<and>
     wg_noise_handshake_create_response demo_crypto (demo_env 5) 0
       (snd (wg_noise_handshake_consume_initiation demo_crypto (demo_env 4) m1 (demo_device 2 1))) = Some (Some m2, B2) \<and>
     fst (wg_noise_handshake_consume_response demo_crypto m2 A1) = Some 0 \<and>
     fst (wg_noise_handshake_begin_session demo_crypto (demo_env 6) 0 B2)"
proof -
  obtain m1 A1 where m1: "wg_noise_handshake_create_initiation demo_crypto (demo_env 3) 0 (demo_device 1 2) = Some (Some m1, A1)"
    using demo_create_initiation by blast
  obtain B1 where B1: "wg_noise_handshake_consume_initiation demo_crypto (demo_env 4) m1 (demo_device 2 1) = (Some 0, B1)"
    using demo_consume_initiation [OF m1] by blast
  obtain m2 B2 where m2: "wg_noise_handshake_create_response demo_crypto (demo_env 5) 0 B1 = Some (Some m2, B2)"
    using demo_create_response [OF B1] by blast
  have al: "alloc_ok (demo_env 6)" by (simp add: demo_env_def)
  have m2': "wg_noise_handshake_create_response demo_crypto (demo_env 5) 0
       (snd (wg_noise_handshake_consume_initiation demo_crypto (demo_env 4) m1 (demo_device 2 1))) = Some (Some m2, B2)"
    using m2 B1 by simp
  note agree = handshake_agreement [OF demo_crypto_ok(1) demo_paired demo_finds demo_ready(2,3) demo_ready(1) demo_ready(1) m1
      demo_fresh m2' al al]
  then show ?thesis using m1 m2' by fastforce
qed

end
