(* ===== verification/Noise_Invariants.thy ===== *)
theory Noise_Invariants
  imports Noise_Props
begin

text \<open>
  The handshake and key rotation as a transition system: every operation of \<^verbatim>\<open>noise.c\<close> on any peer in any
  order, together with the packets in flight that hold references on keypairs. Ghost state records the
  initiations that were accepted and the keypairs that an authenticated packet has come in with.
\<close>

section \<open>The system\<close>




section \<open>Keypairs are accounted for\<close>






lemma slot_set_simps [simp]:
  "k \<in> slot_set \<lparr>current_keypair = a, previous_keypair = b, next_keypair = c\<rparr> \<longleftrightarrow> a = Some k \<or> b = Some k \<or> c = Some k"
  by (simp add: slot_set_def)






lemma next_id_put [simp]: "next_keypair_id (wg_noise_keypair_put k now wg) = next_keypair_id wg"
  by (simp add: wg_noise_keypair_put_def keypair_free_kref_def Let_def split: option.splits)








section \<open>Steps that leave the keypairs alone\<close>














section \<open>A new session\<close>









section \<open>The invariant\<close>





















section \<open>What the invariant gives\<close>

lemma next_id_add [simp]: "next_keypair_id (add_new_keypair p n wg) = next_keypair_id wg"
  by (simp add: add_new_keypair_def Let_def upd_keypairs_def upd_peer_def)















end
