(* ===== verification/Cookie.thy ===== *)
theory Cookie
  imports Demo_Devices
begin

text \<open>
  The message authentication codes and cookies of handshake messages (\<^verbatim>\<open>cookie.c\<close>): a first code that
  proves knowledge of the receiver's public key, and a second one, under load, that proves ownership
  of the source address through a cookie obtained before.
\<close>

section \<open>Keys\<close>

definition mac1_key_label :: bytes where
  "mac1_key_label = bytes_of_string ''mac1----''"

definition cookie_key_label :: bytes where
  "cookie_key_label = bytes_of_string ''cookie--''"

definition precompute_key :: "crypto \<Rightarrow> bytes \<Rightarrow> bytes \<Rightarrow> bytes" where
  "precompute_key C pubkey label = blake2s C [] (label @ pubkey) NOISE_SYMMETRIC_KEY_LEN"

definition wg_cookie_checker_init :: "wg_env \<Rightarrow> cookie_checker \<Rightarrow> cookie_checker" where
  "wg_cookie_checker_init E cc = cc\<lparr>secret_birthdate := boottime_ns E, cc_secret := rnd_secret E\<rparr>"

definition wg_cookie_checker_precompute_device_keys ::
  "crypto \<Rightarrow> noise_static_identity \<Rightarrow> cookie_checker \<Rightarrow> cookie_checker" where
  "wg_cookie_checker_precompute_device_keys C ident cc =
     (if has_identity ident then
        cc\<lparr>cookie_encryption_key := precompute_key C (static_public ident) cookie_key_label,
          cc_mac1_key := precompute_key C (static_public ident) mac1_key_label\<rparr>
      else cc\<lparr>cookie_encryption_key := zero_bytes NOISE_SYMMETRIC_KEY_LEN, cc_mac1_key := zero_bytes NOISE_SYMMETRIC_KEY_LEN\<rparr>)"

definition wg_cookie_checker_precompute_peer_keys :: "crypto \<Rightarrow> wg_peer \<Rightarrow> wg_peer" where
  "wg_cookie_checker_precompute_peer_keys C peer =
     peer\<lparr>latest_cookie := (latest_cookie peer)
       \<lparr>cookie_decryption_key := precompute_key C (remote_static (handshake peer)) cookie_key_label,
         ck_mac1_key := precompute_key C (remote_static (handshake peer)) mac1_key_label\<rparr>\<rparr>"

definition wg_cookie_init :: cookie where
  "wg_cookie_init = \<lparr>ck_birthdate = 0, ck_is_valid = False, ck_cookie = zero_bytes COOKIE_LEN, have_sent_mac1 = False,
     last_mac1_sent = zero_bytes COOKIE_LEN, cookie_decryption_key = zero_bytes NOISE_SYMMETRIC_KEY_LEN,
     ck_mac1_key = zero_bytes NOISE_SYMMETRIC_KEY_LEN\<rparr>"

section \<open>Codes\<close>

text \<open>The two codes are the last two fields of a message; each covers what is before it.\<close>

definition compute_mac1 :: "crypto \<Rightarrow> bytes \<Rightarrow> bytes \<Rightarrow> bytes" where
  "compute_mac1 C message key = blake2s C key (take (length message - sizeof_message_macs) message) COOKIE_LEN"

definition compute_mac2 :: "crypto \<Rightarrow> bytes \<Rightarrow> bytes \<Rightarrow> bytes" where
  "compute_mac2 C message cookie = blake2s C cookie (take (length message - sizeof_message_macs + COOKIE_LEN) message) COOKIE_LEN"

definition packet_macs :: "bytes \<Rightarrow> message_macs" where
  "packet_macs message = macs_of (drop (length message - sizeof_message_macs) message)"

text \<open>The source of a packet, as it enters the cookie: its address, if it is an IP packet, and its port.\<close>

definition source_address :: "skb \<Rightarrow> bytes" where
  "source_address skb =
     (if skb_protocol skb = ETH_P_IP then ip_saddr (network_header skb)
      else if skb_protocol skb = ETH_P_IPV6 then ipv6_saddr (network_header skb) else [])"

definition make_cookie :: "crypto \<Rightarrow> wg_env \<Rightarrow> skb \<Rightarrow> cookie_checker \<Rightarrow> bytes \<times> cookie_checker" where
  "make_cookie C E skb cc =
     (let cc1 = (if wg_birthdate_has_expired E (secret_birthdate cc) COOKIE_SECRET_MAX_AGE
                 then cc\<lparr>secret_birthdate := boottime_ns E, cc_secret := rnd_secret E\<rparr> else cc)
      in (blake2s C (cc_secret cc1) (source_address skb @ rev (le_bytes 2 (udp_source skb))) COOKIE_LEN, cc1))"

datatype cookie_mac_state =
    INVALID_MAC
  | VALID_MAC_BUT_NO_COOKIE
  | VALID_MAC_WITH_COOKIE_BUT_RATELIMITED
  | VALID_MAC_WITH_COOKIE

text \<open>The source of a packet as the rate limiter reads it.\<close>

definition skb_source :: "skb \<Rightarrow> ip_source" where
  "skb_source skb =
     (if skb_protocol skb = ETH_P_IP then Source4 (le_word (ip_saddr (network_header skb)))
      else if skb_protocol skb = ETH_P_IPV6 then Source6 (ipv6_saddr (network_header skb)) else Source_other)"

definition wg_cookie_validate_packet ::
  "crypto \<Rightarrow> wg_env \<Rightarrow> skb \<Rightarrow> bool \<Rightarrow> wg_device \<Rightarrow> cookie_mac_state \<times> wg_device" where
  "wg_cookie_validate_packet C E skb check_cookie wg =
     (let macs = packet_macs (skb_data skb) in
      if compute_mac1 C (skb_data skb) (cc_mac1_key (checker wg)) \<noteq> mac1 macs then (INVALID_MAC, wg)
      else if \<not> check_cookie then (VALID_MAC_BUT_NO_COOKIE, wg)
      else
        let (cookie, cc) = make_cookie C E skb (checker wg);
            wg1 = wg\<lparr>checker := cc\<rparr>
        in if compute_mac2 C (skb_data skb) cookie \<noteq> mac2 macs then (VALID_MAC_BUT_NO_COOKIE, wg1)
           else
             let (allowed, rl) = wg_ratelimiter_allow (boottime_ns E) (alloc_ok E) (dev_net E) (skb_source skb) (limiter wg1);
                 wg2 = wg1\<lparr>limiter := rl\<rparr>
             in if \<not> allowed then (VALID_MAC_WITH_COOKIE_BUT_RATELIMITED, wg2) else (VALID_MAC_WITH_COOKIE, wg2))"

section \<open>Messages\<close>

definition put_macs :: "bytes \<Rightarrow> bytes \<Rightarrow> bytes \<Rightarrow> bytes" where
  "put_macs message m1 m2 = take (length message - sizeof_message_macs) message @ m1 @ m2"

definition wg_cookie_add_mac_to_packet :: "crypto \<Rightarrow> wg_env \<Rightarrow> bytes \<Rightarrow> wg_peer \<Rightarrow> bytes \<times> wg_peer" where
  "wg_cookie_add_mac_to_packet C E message peer =
     (let ck = latest_cookie peer;
          m1 = compute_mac1 C message (ck_mac1_key ck);
          ck1 = ck\<lparr>last_mac1_sent := m1, have_sent_mac1 := True\<rparr>;
          message1 = put_macs message m1 (mac2 (packet_macs message));
          m2 = (if ck_is_valid ck1 \<and>
                   \<not> wg_birthdate_has_expired E (ck_birthdate ck1) (COOKIE_SECRET_MAX_AGE - COOKIE_SECRET_LATENCY)
                then compute_mac2 C message1 (ck_cookie ck1) else zero_bytes COOKIE_LEN)
      in (put_macs message m1 m2, peer\<lparr>latest_cookie := ck1\<rparr>))"

definition wg_cookie_message_create ::
  "crypto \<Rightarrow> wg_env \<Rightarrow> skb \<Rightarrow> u32 \<Rightarrow> cookie_checker \<Rightarrow> message_handshake_cookie \<times> cookie_checker" where
  "wg_cookie_message_create C E skb index cc =
     (let (cookie, cc1) = make_cookie C E skb cc
      in (\<lparr>cook_type = MESSAGE_HANDSHAKE_COOKIE, cook_receiver_index = index, cook_nonce = rnd_nonce E,
           cook_encrypted_cookie = xchacha20poly1305_encrypt C cookie (mac1 (packet_macs (skb_data skb))) (rnd_nonce E)
             (cookie_encryption_key cc1)\<rparr>, cc1))"

definition cookie_store :: "crypto \<Rightarrow> wg_env \<Rightarrow> message_handshake_cookie \<Rightarrow> cookie \<Rightarrow> cookie" where
  "cookie_store C E src ck =
     (if \<not> have_sent_mac1 ck then ck
      else
        case xchacha20poly1305_decrypt C (cook_encrypted_cookie src) (last_mac1_sent ck) (cook_nonce src)
               (cookie_decryption_key ck) of
          None \<Rightarrow> ck
        | Some c \<Rightarrow> ck\<lparr>ck_cookie := c, ck_birthdate := boottime_ns E, ck_is_valid := True, have_sent_mac1 := False\<rparr>)"

definition wg_cookie_message_consume :: "crypto \<Rightarrow> wg_env \<Rightarrow> message_handshake_cookie \<Rightarrow> wg_device \<Rightarrow> wg_device" where
  "wg_cookie_message_consume C E src wg =
     (let (found, table) = wg_index_hashtable_lookup (peer_alive wg) (index_table wg)
            (INDEX_HASHTABLE_HANDSHAKE OR INDEX_HASHTABLE_KEYPAIR) (cook_receiver_index src);
          wg1 = wg\<lparr>index_table := table\<rparr>
      in case found of
        None \<Rightarrow> wg1
      | Some (_, p) \<Rightarrow>
          wg_peer_put (Some p)
            (upd_peer p (\<lambda>peer. peer\<lparr>latest_cookie := cookie_store C E src (latest_cookie peer)\<rparr>) (wg_peer_get p wg1)))"

end
