(* ===== verification/Cookie_Props.thy ===== *)
theory Cookie_Props
  imports Cookie
begin

text \<open>
  Properties of the codes and cookies: what is added to a message is what the other end checks, and a
  cookie that was asked for makes the next message acceptable under load.
\<close>

section \<open>Codes of a message\<close>

lemma length_put_macs: "length a = 16 \<Longrightarrow> length b = 16 \<Longrightarrow> sizeof_message_macs \<le> length m \<Longrightarrow> length (put_macs m a b) = length m"
  by (simp add: put_macs_def wg_defs)

lemma packet_macs_put:
  assumes "length a = 16" "length b = 16" "sizeof_message_macs \<le> length m"
  shows "packet_macs (put_macs m a b) = \<lparr>mac1 = a, mac2 = b\<rparr>"
  using assms by (simp add: packet_macs_def length_put_macs) (simp add: put_macs_def macs_of_def field_def wg_defs)

lemma compute_mac1_put:
  assumes "length a = 16" "length b = 16" "sizeof_message_macs \<le> length m"
  shows "compute_mac1 C (put_macs m a b) key = compute_mac1 C m key"
  using assms by (simp add: compute_mac1_def length_put_macs) (simp add: put_macs_def)

lemma compute_mac2_put:
  assumes "length a = 16" "length b = 16" "length b' = 16" "sizeof_message_macs \<le> length m"
  shows "compute_mac2 C (put_macs m a b) c = compute_mac2 C (put_macs m a b') c"
  using assms by (simp add: compute_mac2_def length_put_macs) (simp add: put_macs_def wg_defs)

lemma length_macs [simp]:
  assumes "blake2s_ok C"
  shows "length (compute_mac1 C m k) = 16" "length (compute_mac2 C m c) = 16"
  using assms by (simp_all add: compute_mac1_def compute_mac2_def blake2s_ok_def wg_defs)

text \<open>The message as it leaves: the first code is right, and the second is if a cookie is at hand.\<close>

lemma add_mac_message:
  assumes C: "blake2s_ok C" and len: "sizeof_message_macs \<le> length m"
    and run: "wg_cookie_add_mac_to_packet C E m peer = (m', peer')"
  shows "length m' = length m" "mac1 (packet_macs m') = compute_mac1 C m' (ck_mac1_key (latest_cookie peer))"
    "last_mac1_sent (latest_cookie peer') = mac1 (packet_macs m')" "have_sent_mac1 (latest_cookie peer')"
    "ck_is_valid (latest_cookie peer) \<Longrightarrow>
      \<not> wg_birthdate_has_expired E (ck_birthdate (latest_cookie peer)) (COOKIE_SECRET_MAX_AGE - COOKIE_SECRET_LATENCY) \<Longrightarrow>
      mac2 (packet_macs m') = compute_mac2 C m' (ck_cookie (latest_cookie peer))"
    "latest_cookie peer' = (latest_cookie peer)\<lparr>last_mac1_sent := mac1 (packet_macs m'), have_sent_mac1 := True\<rparr>"
    "peer' = peer\<lparr>latest_cookie := latest_cookie peer'\<rparr>"
proof -
  let ?ck = "latest_cookie peer"
  let ?m1 = "compute_mac1 C m (ck_mac1_key ?ck)"
  let ?use = "ck_is_valid ?ck \<and>
    \<not> wg_birthdate_has_expired E (ck_birthdate ?ck) (COOKIE_SECRET_MAX_AGE - COOKIE_SECRET_LATENCY)"
  let ?old = "mac2 (packet_macs m)"
  let ?m2 = "if ?use then compute_mac2 C (put_macs m ?m1 ?old) (ck_cookie ?ck) else zero_bytes COOKIE_LEN"
  have old: "length ?old = 16" using len by (simp add: packet_macs_def macs_of_def field_def wg_defs)
  have z: "length (zero_bytes COOKIE_LEN) = 16" by (simp add: zero_bytes_def wg_defs)
  have l2: "length ?m2 = 16" using C z by simp
  have m': "m' = put_macs m ?m1 ?m2" and p': "peer' = peer\<lparr>latest_cookie := ?ck\<lparr>last_mac1_sent := ?m1, have_sent_mac1 := True\<rparr>\<rparr>"
    using run by (auto simp: wg_cookie_add_mac_to_packet_def Let_def)
  note macs = packet_macs_put [OF length_macs(1) [OF C] l2 len, of m "ck_mac1_key ?ck"]
  show "length m' = length m" unfolding m' using length_put_macs [OF length_macs(1) [OF C] l2 len] .
  show m1: "mac1 (packet_macs m') = compute_mac1 C m' (ck_mac1_key ?ck)"
    unfolding m' macs compute_mac1_put [OF length_macs(1) [OF C] l2 len] by simp
  show "last_mac1_sent (latest_cookie peer') = mac1 (packet_macs m')" "have_sent_mac1 (latest_cookie peer')"
    unfolding p' m' macs by simp_all
  show "mac2 (packet_macs m') = compute_mac2 C m' (ck_cookie ?ck)"
    if "ck_is_valid ?ck" "\<not> wg_birthdate_has_expired E (ck_birthdate ?ck) (COOKIE_SECRET_MAX_AGE - COOKIE_SECRET_LATENCY)"
    unfolding m' macs using that compute_mac2_put [OF length_macs(1) [OF C] l2 old len] by simp
  show "latest_cookie peer' = ?ck\<lparr>last_mac1_sent := mac1 (packet_macs m'), have_sent_mac1 := True\<rparr>"
    unfolding p' m' macs by simp
  show "peer' = peer\<lparr>latest_cookie := latest_cookie peer'\<rparr>" by (simp add: p')
qed

section \<open>The round trip\<close>

text \<open>The keys that the two ends derive from the public key of the receiver.\<close>

definition cookie_keys :: "crypto \<Rightarrow> wg_peer \<Rightarrow> wg_device \<Rightarrow> bool" where
  "cookie_keys C P B \<longleftrightarrow>
     has_identity (static_identity B) \<and> remote_static (handshake P) = static_public (static_identity B) \<and>
     checker B = wg_cookie_checker_precompute_device_keys C (static_identity B) (checker B) \<and>
     P = wg_cookie_checker_precompute_peer_keys C P"

lemma cookie_keys_agree:
  assumes "cookie_keys C P B"
  shows "cookie_decryption_key (latest_cookie P) = cookie_encryption_key (checker B)"
    "ck_mac1_key (latest_cookie P) = cc_mac1_key (checker B)"
proof -
  let ?pk = "static_public (static_identity B)"
  have P: "P = wg_cookie_checker_precompute_peer_keys C P" and rs: "remote_static (handshake P) = ?pk"
    and B: "checker B = wg_cookie_checker_precompute_device_keys C (static_identity B) (checker B)" "has_identity (static_identity B)"
    using assms by (simp_all add: cookie_keys_def)
  have "latest_cookie (wg_cookie_checker_precompute_peer_keys C P) =
      (latest_cookie P)\<lparr>cookie_decryption_key := precompute_key C ?pk cookie_key_label, ck_mac1_key := precompute_key C ?pk mac1_key_label\<rparr>"
    by (simp add: wg_cookie_checker_precompute_peer_keys_def rs)
  then have P': "latest_cookie P =
      (latest_cookie P)\<lparr>cookie_decryption_key := precompute_key C ?pk cookie_key_label, ck_mac1_key := precompute_key C ?pk mac1_key_label\<rparr>"
    unfolding P [symmetric] .
  have B': "checker B = (checker B)\<lparr>cookie_encryption_key := precompute_key C ?pk cookie_key_label,
      cc_mac1_key := precompute_key C ?pk mac1_key_label\<rparr>"
    using B(2) by (subst B(1)) (simp add: wg_cookie_checker_precompute_device_keys_def)
  show "cookie_decryption_key (latest_cookie P) = cookie_encryption_key (checker B)"
    using arg_cong [OF P', of cookie_decryption_key] arg_cong [OF B', of cookie_encryption_key] by simp
  show "ck_mac1_key (latest_cookie P) = cc_mac1_key (checker B)"
    using arg_cong [OF P', of ck_mac1_key] arg_cong [OF B', of cc_mac1_key] by simp
qed

lemma make_cookie_keys:
  assumes "make_cookie C E skb cc = (c, cc')"
  shows "cookie_encryption_key cc' = cookie_encryption_key cc" "cc_mac1_key cc' = cc_mac1_key cc"
  using assms by (auto simp: make_cookie_def Let_def)

definition same_source :: "skb \<Rightarrow> skb \<Rightarrow> bool" where
  "same_source a b \<longleftrightarrow> source_address a = source_address b \<and> udp_source a = udp_source b"

lemma make_cookie_again:
  assumes "make_cookie C E skb cc = (c, cc')" "same_source skb skb'"
    "\<not> wg_birthdate_has_expired E' (secret_birthdate cc') COOKIE_SECRET_MAX_AGE"
  shows "make_cookie C E' skb' cc' = (c, cc')"
  using assms by (auto simp: make_cookie_def Let_def same_source_def)

text \<open>What the initiator stores of a cookie message that answers its last message.\<close>

lemma cookie_store_reply:
  assumes C: "xaead_ok C" and create: "wg_cookie_message_create C E2 skb index cc = (reply, cc')"
    and ck: "have_sent_mac1 ck" "last_mac1_sent ck = mac1 (packet_macs (skb_data skb))"
      "cookie_decryption_key ck = cookie_encryption_key cc"
  obtains c where "make_cookie C E2 skb cc = (c, cc')" "cook_receiver_index reply = index"
    "cookie_store C E3 reply ck = ck\<lparr>ck_cookie := c, ck_birthdate := boottime_ns E3, ck_is_valid := True, have_sent_mac1 := False\<rparr>"
proof -
  obtain c where c: "make_cookie C E2 skb cc = (c, cc')"
    using create by (auto simp: wg_cookie_message_create_def split: prod.splits)
  then have r: "cook_receiver_index reply = index" "cook_nonce reply = rnd_nonce E2"
    "cook_encrypted_cookie reply = xchacha20poly1305_encrypt C c (mac1 (packet_macs (skb_data skb))) (rnd_nonce E2) (cookie_encryption_key cc)"
    using create make_cookie_keys [OF c] by (auto simp: wg_cookie_message_create_def)
  then have "xchacha20poly1305_decrypt C (cook_encrypted_cookie reply) (last_mac1_sent ck) (cook_nonce reply) (cookie_decryption_key ck) = Some c"
    using C ck(2,3) by (simp add: xaead_ok_def)
  then show thesis using that [OF c r(1)] ck(1) by (simp add: cookie_store_def)
qed

lemma consume_cookie:
  assumes "fst (wg_index_hashtable_lookup (peer_alive A) (index_table A) (INDEX_HASHTABLE_HANDSHAKE OR INDEX_HASHTABLE_KEYPAIR)
      (cook_receiver_index reply)) = Some (e, p)"
  shows "latest_cookie (peers (wg_cookie_message_consume C E reply A) p) = cookie_store C E reply (latest_cookie (peers A p))"
  using assms
  by (simp add: wg_cookie_message_consume_def case_prod_beta Let_def) (simp add: upd_peer_def wg_peer_get_def)

text \<open>
  C4. The cookie round trip. A message that the initiator has added its codes to passes the first check of
  the receiver that it is meant for. If the receiver, under load, answers it with a cookie, then the
  initiator can store that cookie, and its next message from the same address and port is accepted
  while the secret behind the cookie lasts, subject only to the rate limit; the message before it was
  not, since it had no cookie.
\<close>

theorem cookie_roundtrip:
  assumes C: "xaead_ok C" "blake2s_ok C" and keys: "cookie_keys C (peers A p) B"
    and len: "sizeof_message_macs \<le> length m" "sizeof_message_macs \<le> length m'"
    and first: "wg_cookie_add_mac_to_packet C E1 m (peers A p) = (skb_data s1, P1)"
    and reply: "wg_cookie_message_create C E2 s1 index (checker B) = (reply, cc)"
    and found: "fst (wg_index_hashtable_lookup (peer_alive A) (index_table A) (INDEX_HASHTABLE_HANDSHAKE OR INDEX_HASHTABLE_KEYPAIR) index) = Some (e, p)"
    and second: "wg_cookie_add_mac_to_packet C E4 m' (peers (wg_cookie_message_consume C E3 reply (upd_peer p (\<lambda>_. P1) A)) p) = (skb_data s2, P2)"
    and source: "same_source s1 s2"
    and fresh: "\<not> wg_birthdate_has_expired E4 (boottime_ns E3) (COOKIE_SECRET_MAX_AGE - COOKIE_SECRET_LATENCY)"
    and secret: "\<not> wg_birthdate_has_expired E5 (secret_birthdate cc) COOKIE_SECRET_MAX_AGE"
  shows "wg_cookie_validate_packet C E5 s1 False B = (VALID_MAC_BUT_NO_COOKIE, B) \<and>
    fst (wg_cookie_validate_packet C E5 s2 True (B\<lparr>checker := cc\<rparr>)) =
      (if fst (wg_ratelimiter_allow (boottime_ns E5) (alloc_ok E5) (dev_net E5) (skb_source s2) (limiter B))
       then VALID_MAC_WITH_COOKIE else VALID_MAC_WITH_COOKIE_BUT_RATELIMITED)"
proof -
  note agree = cookie_keys_agree [OF keys]
  note a1 = add_mac_message [OF C(2) len(1) first]
  let ?A1 = "upd_peer p (\<lambda>_. P1) A"
  have P1: "peers ?A1 p = P1" by (simp add: upd_peer_def)
  have "peer_alive ?A1 = peer_alive A"
    using a1(7) by (simp add: peer_alive_def upd_peer_def fun_eq_iff) (metis wg_peer.surjective wg_peer.update_convs(12) wg_peer.select_convs(21))
  moreover have "index_table ?A1 = index_table A" by (simp add: upd_peer_def)
  moreover have k1: "cookie_decryption_key (latest_cookie P1) = cookie_encryption_key (checker B)" using a1(6) agree(1) by simp
  then obtain c where c: "make_cookie C E2 s1 (checker B) = (c, cc)" "cook_receiver_index reply = index"
    "cookie_store C E3 reply (latest_cookie P1) =
       (latest_cookie P1)\<lparr>ck_cookie := c, ck_birthdate := boottime_ns E3, ck_is_valid := True, have_sent_mac1 := False\<rparr>"
    by (rule cookie_store_reply [OF C(1) reply a1(4,3)])
  ultimately have ck: "latest_cookie (peers (wg_cookie_message_consume C E3 reply ?A1) p) =
      (latest_cookie P1)\<lparr>ck_cookie := c, ck_birthdate := boottime_ns E3, ck_is_valid := True, have_sent_mac1 := False\<rparr>"
    using consume_cookie [of ?A1 reply e p C E3] found by (simp add: P1)
  note a2 = add_mac_message [OF C(2) len(2) second, unfolded ck]
  have "wg_cookie_validate_packet C E5 s1 False B = (VALID_MAC_BUT_NO_COOKIE, B)"
    using a1(2) agree(2) by (simp add: wg_cookie_validate_packet_def)
  moreover have "make_cookie C E5 s2 cc = (c, cc)" by (rule make_cookie_again [OF c(1) source secret])
  then have "fst (wg_cookie_validate_packet C E5 s2 True (B\<lparr>checker := cc\<rparr>)) =
      (if fst (wg_ratelimiter_allow (boottime_ns E5) (alloc_ok E5) (dev_net E5) (skb_source s2) (limiter B))
       then VALID_MAC_WITH_COOKIE else VALID_MAC_WITH_COOKIE_BUT_RATELIMITED)"
    using a2(2,5) a1(6) agree(2) make_cookie_keys(2) [OF c(1)] fresh
    by (simp add: wg_cookie_validate_packet_def case_prod_beta Let_def)
  ultimately show ?thesis by blast
qed

section \<open>A round trip between two devices\<close>

definition demo_skb :: "bytes \<Rightarrow> skb" where
  "demo_skb bs = \<lparr>skb_data = bs, skb_protocol = ETH_P_IP,
     network_header = [0x45, 0, 0, 0, 0, 0, 0, 0, 64, 17, 0, 0, 10, 0, 0, 1, 10, 0, 0, 2], udp_source = 51820, skb_iif = 2,
     cb_nonce = 0, cb_mtu = 1420, cb_ds = 0\<rparr>"

definition cookie_demo_A :: wg_device where
  "cookie_demo_A = (upd_peer 0 (wg_cookie_checker_precompute_peer_keys demo_crypto) (demo_device 1 2))
     \<lparr>index_table := \<lparr>ih_table = (\<lambda>b. if b = 5 then [HS 0] else []), ih_index = (\<lambda>_. 5), ih_peer = (\<lambda>_. Some 0)\<rparr>\<rparr>"

definition cookie_demo_B :: wg_device where
  "cookie_demo_B = (demo_device 2 1)
     \<lparr>checker := wg_cookie_checker_precompute_device_keys demo_crypto (demo_identity 2) (checker (demo_device 2 1))\<rparr>"

definition cookie_demo_first :: "bytes \<times> wg_peer" where
  "cookie_demo_first = wg_cookie_add_mac_to_packet demo_crypto (demo_env 3) (replicate 60 1) (peers cookie_demo_A 0)"

definition cookie_demo_reply :: "message_handshake_cookie \<times> cookie_checker" where
  "cookie_demo_reply = wg_cookie_message_create demo_crypto (demo_env 4) (demo_skb (fst cookie_demo_first)) 5 (checker cookie_demo_B)"

definition cookie_demo_second :: "bytes \<times> wg_peer" where
  "cookie_demo_second = wg_cookie_add_mac_to_packet demo_crypto (demo_env 6) (replicate 60 2)
     (peers (wg_cookie_message_consume demo_crypto (demo_env 5) (fst cookie_demo_reply)
       (upd_peer 0 (\<lambda>_. snd cookie_demo_first) cookie_demo_A)) 0)"

lemma cookie_demo_keys: "cookie_keys demo_crypto (peers cookie_demo_A 0) cookie_demo_B"
  by (simp add: cookie_keys_def cookie_demo_A_def cookie_demo_B_def demo_device_def demo_identity_def upd_peer_def
      wg_cookie_checker_precompute_peer_keys_def wg_cookie_checker_precompute_device_keys_def demo_peer_def wg_noise_handshake_init_def
      precompute_static_static_def)

lemma cookie_demo_found:
  "fst (wg_index_hashtable_lookup (peer_alive cookie_demo_A) (index_table cookie_demo_A)
     (INDEX_HASHTABLE_HANDSHAKE OR INDEX_HASHTABLE_KEYPAIR) 5) = Some (HS 0, 0)"
proof -
  have ok: "index_ok (index_table cookie_demo_A)"
    by (auto simp: index_ok_def cookie_demo_A_def placed_def unique_keys_def hashed_def index_bucket_def split: if_splits)
  show ?thesis
    unfolding index_lookup_iff [OF ok] by (simp add: cookie_demo_A_def entry_hashed_def hashed_def peer_alive_def upd_peer_def
        wg_cookie_checker_precompute_peer_keys_def demo_device_def demo_peer_def)
qed

lemma cookie_demo_secret:
  "\<not> wg_birthdate_has_expired (demo_env 7) (secret_birthdate (snd cookie_demo_reply)) COOKIE_SECRET_MAX_AGE"
proof -
  have "secret_birthdate (snd (wg_cookie_message_create demo_crypto (demo_env 4) skb index cc)) = secret_birthdate cc"
    if "\<not> wg_birthdate_has_expired (demo_env 4) (secret_birthdate cc) COOKIE_SECRET_MAX_AGE" for skb index cc
    using that by (simp add: wg_cookie_message_create_def make_cookie_def)
  moreover have z: "secret_birthdate (checker cookie_demo_B) = 0"
    by (simp add: cookie_demo_B_def wg_cookie_checker_precompute_device_keys_def demo_identity_def demo_device_def)
  moreover have "\<not> wg_birthdate_has_expired (demo_env now) 0 COOKIE_SECRET_MAX_AGE" if "now = 4 \<or> now = 7" for now
    using that by (auto simp: wg_birthdate_has_expired_def demo_env_def wg_defs)
  ultimately show ?thesis by (simp add: cookie_demo_reply_def)
qed

theorem cookie_roundtrip_witness:
  "fst (wg_cookie_validate_packet demo_crypto (demo_env 7) (demo_skb (fst cookie_demo_second)) True
     (cookie_demo_B\<lparr>checker := snd cookie_demo_reply\<rparr>)) = VALID_MAC_WITH_COOKIE"
proof -
  have len: "sizeof_message_macs \<le> length (replicate 60 x)" for x :: u8 by (simp add: wg_defs)
  have first: "wg_cookie_add_mac_to_packet demo_crypto (demo_env 3) (replicate 60 1) (peers cookie_demo_A 0) =
      (skb_data (demo_skb (fst cookie_demo_first)), snd cookie_demo_first)"
    by (simp add: demo_skb_def cookie_demo_first_def)
  have reply: "wg_cookie_message_create demo_crypto (demo_env 4) (demo_skb (fst cookie_demo_first)) 5 (checker cookie_demo_B) =
      (fst cookie_demo_reply, snd cookie_demo_reply)" by (simp add: cookie_demo_reply_def)
  have second: "wg_cookie_add_mac_to_packet demo_crypto (demo_env 6) (replicate 60 2)
      (peers (wg_cookie_message_consume demo_crypto (demo_env 5) (fst cookie_demo_reply)
        (upd_peer 0 (\<lambda>_. snd cookie_demo_first) cookie_demo_A)) 0) = (skb_data (demo_skb (fst cookie_demo_second)), snd cookie_demo_second)"
    by (simp add: demo_skb_def cookie_demo_second_def)
  have source: "same_source (demo_skb a) (demo_skb b)" for a b by (simp add: same_source_def demo_skb_def source_address_def)
  have fresh: "\<not> wg_birthdate_has_expired (demo_env 6) (boottime_ns (demo_env 5)) (COOKIE_SECRET_MAX_AGE - COOKIE_SECRET_LATENCY)"
    by (simp add: wg_birthdate_has_expired_def demo_env_def wg_defs)
  have allowed: "fst (wg_ratelimiter_allow (boottime_ns (demo_env 7)) (alloc_ok (demo_env 7)) (dev_net (demo_env 7))
      (skb_source (demo_skb (fst cookie_demo_second))) (limiter cookie_demo_B))"
    by (simp add: wg_ratelimiter_allow_def skb_source_def demo_skb_def cookie_demo_B_def demo_device_def demo_limiter_def demo_env_def
        source_bucket_def Let_def table_of_def split: option.splits prod.splits)
  show ?thesis
    using cookie_roundtrip [OF demo_crypto_ok(2) _ cookie_demo_keys len len first reply cookie_demo_found second source fresh
        cookie_demo_secret] demo_crypto_ok(1) allowed
    by (simp add: crypto_ok_def)
qed

end
