(* ===== verification/Timers.thy ===== *)
theory Timers
  imports Cookie
begin

text \<open>
  The arming and disarming of the timers of a peer, and the erasure of its key material
  (\<^verbatim>\<open>timers.c\<close>). The handlers of the other timers send packets, and follow those functions.
\<close>

section \<open>Timers\<close>

text \<open>A timer is named by the update function of its field.\<close>

type_synonym timer = "(u64 option \<Rightarrow> u64 option) \<Rightarrow> peer_timers \<Rightarrow> peer_timers"

definition upd_timers :: "nat \<Rightarrow> (peer_timers \<Rightarrow> peer_timers) \<Rightarrow> wg_device \<Rightarrow> wg_device" where
  "upd_timers p f wg = upd_peer p (\<lambda>peer. peer\<lparr>timers := f (timers peer)\<rparr>) wg"

definition timer_delete :: "timer \<Rightarrow> nat \<Rightarrow> wg_device \<Rightarrow> wg_device" where
  "timer_delete timer p wg = upd_timers p (timer (\<lambda>_. None)) wg"

definition mod_peer_timer :: "timer \<Rightarrow> nat \<Rightarrow> u64 \<Rightarrow> wg_device \<Rightarrow> wg_device" where
  "mod_peer_timer timer p expires wg =
     (if netif_running wg \<and> \<not> is_dead (peers wg p) then upd_timers p (timer (\<lambda>_. Some expires)) wg else wg)"

definition REKEY_TIMEOUT_JITTER_MAX_JIFFIES :: "wg_env \<Rightarrow> u64" where
  "REKEY_TIMEOUT_JITTER_MAX_JIFFIES E = hz E div 3"

text \<open>What \<open>get_random_u32_below\<close> promises of the jitter.\<close>

definition jitter_ok :: "wg_env \<Rightarrow> bool" where
  "jitter_ok E \<longleftrightarrow> ucast (rnd_jitter E) < REKEY_TIMEOUT_JITTER_MAX_JIFFIES E"

section \<open>Events\<close>

definition wg_timers_data_sent :: "wg_env \<Rightarrow> nat \<Rightarrow> wg_device \<Rightarrow> wg_device" where
  "wg_timers_data_sent E p wg =
     (if timer_new_handshake (timers (peers wg p)) = None then
        mod_peer_timer timer_new_handshake_update p
          (jiffies E + (KEEPALIVE_TIMEOUT + REKEY_TIMEOUT) * hz E + ucast (rnd_jitter E)) wg
      else wg)"

definition wg_timers_data_received :: "wg_env \<Rightarrow> nat \<Rightarrow> wg_device \<Rightarrow> wg_device" where
  "wg_timers_data_received E p wg =
     (if netif_running wg then
        if timer_send_keepalive (timers (peers wg p)) = None then
          mod_peer_timer timer_send_keepalive_update p (jiffies E + KEEPALIVE_TIMEOUT * hz E) wg
        else upd_peer p (\<lambda>peer. peer\<lparr>timer_need_another_keepalive := True\<rparr>) wg
      else wg)"

definition wg_timers_any_authenticated_packet_sent :: "nat \<Rightarrow> wg_device \<Rightarrow> wg_device" where
  "wg_timers_any_authenticated_packet_sent p wg = timer_delete timer_send_keepalive_update p wg"

definition wg_timers_any_authenticated_packet_received :: "nat \<Rightarrow> wg_device \<Rightarrow> wg_device" where
  "wg_timers_any_authenticated_packet_received p wg = timer_delete timer_new_handshake_update p wg"

definition wg_timers_handshake_initiated :: "wg_env \<Rightarrow> nat \<Rightarrow> wg_device \<Rightarrow> wg_device" where
  "wg_timers_handshake_initiated E p wg =
     mod_peer_timer timer_retransmit_handshake_update p (jiffies E + REKEY_TIMEOUT * hz E + ucast (rnd_jitter E)) wg"

definition wg_timers_handshake_complete :: "wg_env \<Rightarrow> nat \<Rightarrow> wg_device \<Rightarrow> wg_device" where
  "wg_timers_handshake_complete E p wg =
     upd_peer p (\<lambda>peer. peer\<lparr>timer_handshake_attempts := 0, sent_lastminute_handshake := False,
         walltime_last_handshake := (real_sec E, real_nsec E)\<rparr>)
       (timer_delete timer_retransmit_handshake_update p wg)"

definition wg_timers_session_derived :: "wg_env \<Rightarrow> nat \<Rightarrow> wg_device \<Rightarrow> wg_device" where
  "wg_timers_session_derived E p wg =
     mod_peer_timer timer_zero_key_material_update p (jiffies E + REJECT_AFTER_TIME * 3 * hz E) wg"

definition wg_timers_any_authenticated_packet_traversal :: "wg_env \<Rightarrow> nat \<Rightarrow> wg_device \<Rightarrow> wg_device" where
  "wg_timers_any_authenticated_packet_traversal E p wg =
     (let interval = persistent_keepalive_interval (peers wg p) in
      if interval \<noteq> 0 then mod_peer_timer timer_persistent_keepalive_update p (jiffies E + ucast interval * hz E) wg
      else wg)"

section \<open>Erasing key material\<close>

text \<open>The work takes a reference, which is given back if it was queued before.\<close>

definition wg_expired_zero_key_material :: "nat \<Rightarrow> wg_device \<Rightarrow> wg_device" where
  "wg_expired_zero_key_material p wg =
     (if is_dead (peers wg p) then wg
      else
        let wg1 = wg_peer_get p wg in
        if clear_peer_work (works (peers wg1 p)) then wg_peer_put (Some p) wg1
        else upd_peer p (\<lambda>peer. peer\<lparr>works := (works peer)\<lparr>clear_peer_work := True\<rparr>\<rparr>) wg1)"

definition wg_queued_expired_zero_key_material :: "nat \<Rightarrow> wg_device \<Rightarrow> wg_device" where
  "wg_queued_expired_zero_key_material p wg =
     wg_peer_put (Some p) (wg_noise_keypairs_clear p (wg_noise_handshake_clear p wg))"

section \<open>Set up and stop\<close>

definition no_timers :: peer_timers where
  "no_timers = \<lparr>timer_retransmit_handshake = None, timer_send_keepalive = None, timer_new_handshake = None,
     timer_zero_key_material = None, timer_persistent_keepalive = None\<rparr>"

definition wg_timers_init :: "wg_peer \<Rightarrow> wg_peer" where
  "wg_timers_init peer =
     peer\<lparr>timers := no_timers, works := (works peer)\<lparr>clear_peer_work := False\<rparr>, timer_handshake_attempts := 0,
       sent_lastminute_handshake := False, timer_need_another_keepalive := False\<rparr>"

text \<open>Flushing the work runs it if it is queued.\<close>

definition flush_clear_peer_work :: "nat \<Rightarrow> wg_device \<Rightarrow> wg_device" where
  "flush_clear_peer_work p wg =
     (if clear_peer_work (works (peers wg p)) then
        wg_queued_expired_zero_key_material p
          (upd_peer p (\<lambda>peer. peer\<lparr>works := (works peer)\<lparr>clear_peer_work := False\<rparr>\<rparr>) wg)
      else wg)"

definition wg_timers_stop :: "nat \<Rightarrow> wg_device \<Rightarrow> wg_device" where
  "wg_timers_stop p wg = flush_clear_peer_work p (upd_timers p (\<lambda>_. no_timers) wg)"

end
