(* ===== verification/Socket.thy ===== *)
theory Socket
  imports Timers
begin

text \<open>
  The UDP sockets (\<^verbatim>\<open>socket.c\<close>): the endpoint that a packet came from, sending to an endpoint over
  IPv4 or IPv6 with a cached route, and the creation of the pair of sockets. What the network stack
  answers is in the environment of the call.
\<close>

section \<open>Endpoints\<close>

definition zero_endpoint :: endpoint where
  "zero_endpoint = \<lparr>ep_addr = AF_UNSPEC_addr, ep_src = zero_bytes 16\<rparr>"

definition wg_socket_endpoint_from_skb :: "wg_env \<Rightarrow> skb \<Rightarrow> errno + endpoint" where
  "wg_socket_endpoint_from_skb E skb =
     (let h = network_header skb in
      if skb_protocol skb = ETH_P_IP then
        Inr (set_src4 (ip_daddr h) (le_bytes 4 (skb_iif skb))
               (zero_endpoint\<lparr>ep_addr := AF_INET_addr (udp_source skb) (ip_saddr h)\<rparr>))
      else if skb_protocol skb = ETH_P_IPV6 then
        Inr \<lparr>ep_addr = AF_INET6_addr (udp_source skb) 0 (ipv6_saddr h) (ipv6_iface_scope_id E (ipv6_saddr h) (skb_iif skb)),
              ep_src = ipv6_daddr h\<rparr>
      else Inl EINVAL)"

definition endpoint_eq :: "endpoint \<Rightarrow> endpoint \<Rightarrow> bool" where
  "endpoint_eq a b \<longleftrightarrow>
     (case (ep_addr a, ep_addr b) of
        (AF_INET_addr pa aa, AF_INET_addr pb ab) \<Rightarrow>
          pa = pb \<and> aa = ab \<and> ep_src4 a = ep_src4 b \<and> ep_src_if4 a = ep_src_if4 b
      | (AF_INET6_addr pa fa aa sa, AF_INET6_addr pb fb ab sb) \<Rightarrow>
          pa = pb \<and> aa = ab \<and> sa = sb \<and> ep_src a = ep_src b
      | (AF_UNSPEC_addr, AF_UNSPEC_addr) \<Rightarrow> True
      | _ \<Rightarrow> False)"

definition wg_socket_set_peer_endpoint :: "nat \<Rightarrow> endpoint \<Rightarrow> wg_device \<Rightarrow> wg_device" where
  "wg_socket_set_peer_endpoint p ep wg =
     (if endpoint_eq ep (endpoint (peers wg p)) then wg
      else
        case ep_addr ep of
          AF_INET_addr _ _ \<Rightarrow>
            upd_peer p (\<lambda>peer. peer\<lparr>endpoint := set_src4 (ep_src4 ep) (ep_src_if4 ep) ((endpoint peer)\<lparr>ep_addr := ep_addr ep\<rparr>),
              endpoint_cache := None\<rparr>) wg
        | AF_INET6_addr _ _ _ _ \<Rightarrow>
            upd_peer p (\<lambda>peer. peer\<lparr>endpoint := (endpoint peer)\<lparr>ep_addr := ep_addr ep, ep_src := ep_src ep\<rparr>,
              endpoint_cache := None\<rparr>) wg
        | AF_UNSPEC_addr \<Rightarrow> wg)"

definition wg_socket_set_peer_endpoint_from_skb :: "wg_env \<Rightarrow> nat \<Rightarrow> skb \<Rightarrow> wg_device \<Rightarrow> wg_device" where
  "wg_socket_set_peer_endpoint_from_skb E p skb wg =
     (case wg_socket_endpoint_from_skb E skb of
        Inl _ \<Rightarrow> wg
      | Inr ep \<Rightarrow> wg_socket_set_peer_endpoint p ep wg)"

definition wg_socket_clear_peer_endpoint_src :: "nat \<Rightarrow> wg_device \<Rightarrow> wg_device" where
  "wg_socket_clear_peer_endpoint_src p wg =
     upd_peer p (\<lambda>peer. peer\<lparr>endpoint := (endpoint peer)\<lparr>ep_src := zero_bytes 16\<rparr>, endpoint_cache := None\<rparr>) wg"

section \<open>Sending\<close>

text \<open>
  The cache of a route, \<open>None\<close> for a call that has none: what is stored counts only while the route is
  valid. The calls return an error or not, the endpoint with a source address that may have been
  cleared, the cache, and the device with the datagram sent.
\<close>

type_synonym dst_cache = "(bytes \<times> nat) option option"

definition dst_cache_get :: "wg_env \<Rightarrow> dst_cache \<Rightarrow> (bytes \<times> nat) option" where
  "dst_cache_get E cache =
     (case cache of
        Some (Some (saddr, rt)) \<Rightarrow> if dst_valid E rt then Some (saddr, rt) else None
      | _ \<Rightarrow> None)"

definition dst_cache_reset :: "dst_cache \<Rightarrow> dst_cache" where
  "dst_cache_reset cache = map_option (\<lambda>_. None) cache"

definition dst_cache_set :: "nat \<Rightarrow> bytes \<Rightarrow> dst_cache \<Rightarrow> dst_cache" where
  "dst_cache_set rt saddr cache = map_option (\<lambda>_. Some (saddr, rt)) cache"

definition udp_xmit :: "xmit \<Rightarrow> wg_device \<Rightarrow> wg_device" where
  "udp_xmit x wg = wg\<lparr>outputs := (outputs wg)\<lparr>transmitted := transmitted (outputs wg) @ [x]\<rparr>\<rparr>"

text \<open>
  The lookup of an IPv4 route: a source address that is not ours is cleared, and it is cleared and
  the lookup repeated if the route is over another interface than the packets came in on.
\<close>

definition route4 :: "wg_env \<Rightarrow> flowi4 \<Rightarrow> endpoint \<Rightarrow> dst_cache \<Rightarrow> (errno + nat \<times> bytes) \<times> endpoint \<times> dst_cache" where
  "route4 E fl ep cache =
     (let clear = set_src4 (zero_bytes 4) (zero_bytes 4);
          (fl1, ep1, cache1) =
            (if \<not> inet_confirm_addr E (fl4_saddr fl) then (fl\<lparr>fl4_saddr := zero_bytes 4\<rparr>, clear ep, dst_cache_reset cache)
             else (fl, ep, cache));
          rt1 = ip_route_output_flow E fl1;
          again = (ep_src_if4 ep1 \<noteq> zero_bytes 4 \<and>
            (case rt1 of Inl e \<Rightarrow> e = EINVAL | Inr (_, ifindex, _) \<Rightarrow> le_bytes 4 ifindex \<noteq> ep_src_if4 ep1));
          (rt2, ep2, cache2) =
            (if again then (ip_route_output_flow E (fl1\<lparr>fl4_saddr := zero_bytes 4\<rparr>), clear ep1, dst_cache_reset cache1)
             else (rt1, ep1, cache1))
      in case rt2 of
           Inl e \<Rightarrow> (Inl e, ep2, cache2)
         | Inr (rt, _, saddr) \<Rightarrow> (Inr (rt, saddr), ep2, dst_cache_set rt saddr cache2))"

definition send4 :: "wg_env \<Rightarrow> bytes \<Rightarrow> endpoint \<Rightarrow> u8 \<Rightarrow> dst_cache \<Rightarrow> wg_device \<Rightarrow>
    errno option \<times> endpoint \<times> dst_cache \<times> wg_device" where
  "send4 E data ep ds cache wg =
     (case sock4 wg of
        None \<Rightarrow> (Some ENONET, ep, cache, wg)
      | Some sport \<Rightarrow>
          let fl = \<lparr>fl4_saddr = ep_src4 ep, fl4_daddr = sin_addr (ep_addr ep), fl4_sport = sport,
                fl4_dport = sin_port (ep_addr ep), fl4_mark = fwmark wg\<rparr>;
              xmit = (\<lambda>rt saddr. udp_xmit (Xmit4 rt saddr (fl4_daddr fl) ds sport (fl4_dport fl) data) wg)
          in case dst_cache_get E cache of
               Some (saddr, rt) \<Rightarrow> (None, ep, cache, xmit rt saddr)
             | None \<Rightarrow>
                 (case route4 E fl ep cache of
                    (Inl e, ep1, cache1) \<Rightarrow> (Some e, ep1, cache1, wg)
                  | (Inr (rt, saddr), ep1, cache1) \<Rightarrow> (None, ep1, cache1, xmit rt saddr)))"

definition route6 :: "wg_env \<Rightarrow> flowi6 \<Rightarrow> endpoint \<Rightarrow> dst_cache \<Rightarrow> (errno + nat \<times> bytes) \<times> endpoint \<times> dst_cache" where
  "route6 E fl ep cache =
     (let (fl1, ep1, cache1) =
            (if fl6_saddr fl \<noteq> zero_bytes 16 \<and> \<not> ipv6_chk_addr E (fl6_saddr fl) then
               (fl\<lparr>fl6_saddr := zero_bytes 16\<rparr>, ep\<lparr>ep_src := zero_bytes 16\<rparr>, dst_cache_reset cache)
             else (fl, ep, cache))
      in case ipv6_dst_lookup_flow E fl1 of
           Inl e \<Rightarrow> (Inl e, ep1, cache1)
         | Inr (dst, saddr) \<Rightarrow> (Inr (dst, saddr), ep1, dst_cache_set dst saddr cache1))"

definition send6 :: "wg_env \<Rightarrow> bytes \<Rightarrow> endpoint \<Rightarrow> u8 \<Rightarrow> dst_cache \<Rightarrow> wg_device \<Rightarrow>
    errno option \<times> endpoint \<times> dst_cache \<times> wg_device" where
  "send6 E data ep ds cache wg =
     (case sock6 wg of
        None \<Rightarrow> (Some ENONET, ep, cache, wg)
      | Some sport \<Rightarrow>
          let fl = \<lparr>fl6_saddr = ep_src ep, fl6_daddr = sin6_addr (ep_addr ep), fl6_sport = sport,
                fl6_dport = sin6_port (ep_addr ep), fl6_mark = fwmark wg, fl6_oif = sin6_scope_id (ep_addr ep)\<rparr>;
              xmit = (\<lambda>dst saddr. udp_xmit (Xmit6 dst saddr (fl6_daddr fl) ds sport (fl6_dport fl) data) wg)
          in case dst_cache_get E cache of
               Some (saddr, dst) \<Rightarrow> (None, ep, cache, xmit dst saddr)
             | None \<Rightarrow>
                 (case route6 E fl ep cache of
                    (Inl e, ep1, cache1) \<Rightarrow> (Some e, ep1, cache1, wg)
                  | (Inr (dst, saddr), ep1, cache1) \<Rightarrow> (None, ep1, cache1, xmit dst saddr)))"

definition wg_socket_send_skb_to_peer :: "wg_env \<Rightarrow> nat \<Rightarrow> bytes \<Rightarrow> u8 \<Rightarrow> wg_device \<Rightarrow> errno option \<times> wg_device" where
  "wg_socket_send_skb_to_peer E p data ds wg =
     (let peer = peers wg p;
          (ret, ep, cache, wg1) =
            (case ep_addr (endpoint peer) of
               AF_INET_addr _ _ \<Rightarrow> send4 E data (endpoint peer) ds (Some (endpoint_cache peer)) wg
             | AF_INET6_addr _ _ _ _ \<Rightarrow> send6 E data (endpoint peer) ds (Some (endpoint_cache peer)) wg
             | AF_UNSPEC_addr \<Rightarrow> (Some EAFNOSUPPORT, endpoint peer, Some (endpoint_cache peer), wg));
          sent = (if ret = None then of_nat (length data) else 0)
      in (ret, upd_peer p (\<lambda>peer. peer\<lparr>endpoint := ep, endpoint_cache := the cache, tx_bytes := tx_bytes peer + sent\<rparr>) wg1))"

definition wg_socket_send_buffer_to_peer :: "wg_env \<Rightarrow> nat \<Rightarrow> bytes \<Rightarrow> u8 \<Rightarrow> wg_device \<Rightarrow> errno option \<times> wg_device" where
  "wg_socket_send_buffer_to_peer E p buffer ds wg =
     (if \<not> alloc_ok E then (Some ENOMEM, wg) else wg_socket_send_skb_to_peer E p buffer ds wg)"

definition wg_socket_send_buffer_as_reply_to_skb ::
  "wg_env \<Rightarrow> skb option \<Rightarrow> bytes \<Rightarrow> wg_device \<Rightarrow> errno option \<times> wg_device" where
  "wg_socket_send_buffer_as_reply_to_skb E in_skb buffer wg =
     (case in_skb of
        None \<Rightarrow> (Some EINVAL, wg)
      | Some skb \<Rightarrow>
          (case wg_socket_endpoint_from_skb E skb of
             Inl e \<Rightarrow> (Some e, wg)
           | Inr ep \<Rightarrow>
               if \<not> alloc_ok E then (Some ENOMEM, wg)
               else
                 (case ep_addr ep of
                    AF_INET_addr _ _ \<Rightarrow> (case send4 E buffer ep 0 None wg of (ret, _, _, wg1) \<Rightarrow> (ret, wg1))
                  | AF_INET6_addr _ _ _ _ \<Rightarrow> (case send6 E buffer ep 0 None wg of (ret, _, _, wg1) \<Rightarrow> (ret, wg1))
                  | AF_UNSPEC_addr \<Rightarrow> (None, wg))))"

section \<open>Creating the sockets\<close>

definition wg_socket_reinit :: "u16 option \<Rightarrow> u16 option \<Rightarrow> wg_device \<Rightarrow> wg_device" where
  "wg_socket_reinit new4 new6 wg =
     wg\<lparr>sock4 := new4, sock6 := new6, incoming_port := (case new4 of None \<Rightarrow> incoming_port wg | Some port \<Rightarrow> port)\<rparr>"

text \<open>
  What the kernel answers to the attempts to create sockets: whether the namespace is still there
  and IPv6 is enabled, and per attempt the port that the IPv4 socket is bound to and the outcome for
  IPv6 on that port, or an error.
\<close>

record sock_env =
  net_alive :: bool
  ipv6_mod_enabled :: bool
  udp_sock_create4 :: "nat \<Rightarrow> u16 \<Rightarrow> errno + u16"
  udp_sock_create6 :: "nat \<Rightarrow> u16 \<Rightarrow> errno option"

text \<open>The attempts from the given number of retries on: an error, or the port and whether there is an IPv6 socket.\<close>

function socket_attempts :: "sock_env \<Rightarrow> u16 \<Rightarrow> nat \<Rightarrow> errno + u16 \<times> bool" where
  "socket_attempts S port retries =
     (case udp_sock_create4 S retries port of
        Inl e \<Rightarrow> Inl e
      | Inr port4 \<Rightarrow>
          if \<not> ipv6_mod_enabled S then Inr (port4, False)
          else
            case udp_sock_create6 S retries port4 of
              None \<Rightarrow> Inr (port4, True)
            | Some e \<Rightarrow> if e = EADDRINUSE \<and> port = 0 \<and> retries < 100 then socket_attempts S port (retries + 1) else Inl e)"
  by pat_completeness auto
termination by (relation "measure (\<lambda>(_, _, retries). 101 - retries)") auto

declare socket_attempts.simps [simp del]

definition wg_socket_init :: "sock_env \<Rightarrow> u16 \<Rightarrow> wg_device \<Rightarrow> errno option \<times> wg_device" where
  "wg_socket_init S port wg =
     (if creating_net wg = None \<or> \<not> net_alive S then (Some ENONET, wg)
      else
        case socket_attempts S port 0 of
          Inl e \<Rightarrow> (Some e, wg)
        | Inr (port4, has6) \<Rightarrow> (None, wg_socket_reinit (Some port4) (if has6 then Some port4 else None) wg))"

end
