(* ===== verification/Queueing.thy ===== *)
theory Queueing
  imports Socket
begin

text \<open>
  Handing packets to the workers (\<^verbatim>\<open>queueing.c\<close>, \<^verbatim>\<open>queueing.h\<close>): the choice of a CPU, the device queues,
  and the publication of a packet's state to the worker of its peer.
\<close>

section \<open>CPUs\<close>

definition wg_cpumask_choose_online :: "wg_env \<Rightarrow> nat \<Rightarrow> u32 \<Rightarrow> nat" where
  "wg_cpumask_choose_online E stored_cpu n =
     (if stored_cpu \<in> set (online_cpus E) then stored_cpu
      else online_cpus E ! (unat n mod length (online_cpus E)))"

definition wg_cpumask_next_online :: "wg_env \<Rightarrow> int \<Rightarrow> nat" where
  "wg_cpumask_next_online E last_cpu =
     (case find (\<lambda>cpu. last_cpu < int cpu) (online_cpus E) of
        Some cpu \<Rightarrow> cpu
      | None \<Rightarrow> hd (online_cpus E))"

section \<open>Device queues\<close>

definition wg_packet_queue_init :: "bool \<Rightarrow> bool \<Rightarrow> nat \<Rightarrow> errno + 'a crypt_queue" where
  "wg_packet_queue_init ring_ok worker_ok len =
     (if \<not> ring_ok \<or> \<not> worker_ok then Inl ENOMEM
      else Inr \<lparr>cq_ring = [], cq_size = len, cq_last_cpu = - 1, cq_work = {}\<rparr>)"

definition ptr_ring_produce :: "'a \<Rightarrow> 'a crypt_queue \<Rightarrow> bool \<times> 'a crypt_queue" where
  "ptr_ring_produce x q =
     (if length (cq_ring q) < cq_size q then (True, q\<lparr>cq_ring := cq_ring q @ [x]\<rparr>) else (False, q))"

definition ptr_ring_consume :: "'a crypt_queue \<Rightarrow> 'a option \<times> 'a crypt_queue" where
  "ptr_ring_consume q =
     (case cq_ring q of
        [] \<Rightarrow> (None, q)
      | x # xs \<Rightarrow> (Some x, q\<lparr>cq_ring := xs\<rparr>))"

definition queue_work_on :: "nat \<Rightarrow> 'a crypt_queue \<Rightarrow> 'a crypt_queue" where
  "queue_work_on cpu q = q\<lparr>cq_work := insert cpu (cq_work q)\<rparr>"

section \<open>Packets\<close>

definition upd_queues :: "(wg_queues \<Rightarrow> wg_queues) \<Rightarrow> wg_device \<Rightarrow> wg_device" where
  "upd_queues f wg = wg\<lparr>queues := f (queues wg)\<rparr>"

definition upd_packet :: "nat \<Rightarrow> (packet \<Rightarrow> packet) \<Rightarrow> wg_device \<Rightarrow> wg_device" where
  "upd_packet n f wg = upd_queues (\<lambda>q. q\<lparr>packets := (packets q)(n := f (packets q n))\<rparr>) wg"

definition new_packet :: "skb list \<Rightarrow> nat option \<Rightarrow> wg_device \<Rightarrow> nat \<times> wg_device" where
  "new_packet ss keypair wg =
     (let n = next_packet (queues wg)
      in (n, upd_queues (\<lambda>q. q\<lparr>packets := (packets q)(n := \<lparr>pk_skbs = ss, pk_keypair = keypair, pk_state = PACKET_STATE_UNCRYPTED\<rparr>),
               next_packet := n + 1\<rparr>) wg))"

definition the_packet :: "wg_device \<Rightarrow> nat \<Rightarrow> packet" where
  "the_packet wg n = packets (queues wg) n"

text \<open>\<open>PACKET_PEER\<close>: the peer that the entry of the packet's keypair points to.\<close>

definition PACKET_PEER :: "wg_device \<Rightarrow> nat \<Rightarrow> nat" where
  "PACKET_PEER wg n = the (ih_peer (index_table wg) (KP (the (pk_keypair (the_packet wg n)))))"

text \<open>The two directions use the same function with different queues.\<close>

definition peer_enqueue :: "bool \<Rightarrow> nat \<Rightarrow> nat \<Rightarrow> wg_device \<Rightarrow> bool \<times> wg_device" where
  "peer_enqueue tx p n wg =
     (if tx then
        let (ok, q) = wg_prev_queue_enqueue n (tx_queue (peers wg p)) in (ok, upd_peer p (\<lambda>peer. peer\<lparr>tx_queue := q\<rparr>) wg)
      else
        let (ok, q) = wg_prev_queue_enqueue n (rx_queue (peers wg p)) in (ok, upd_peer p (\<lambda>peer. peer\<lparr>rx_queue := q\<rparr>) wg))"

definition upd_device_queue :: "bool \<Rightarrow> (nat crypt_queue \<Rightarrow> nat crypt_queue) \<Rightarrow> wg_device \<Rightarrow> wg_device" where
  "upd_device_queue tx f wg =
     upd_queues (\<lambda>q. if tx then q\<lparr>encrypt_queue := f (encrypt_queue q)\<rparr> else q\<lparr>decrypt_queue := f (decrypt_queue q)\<rparr>) wg"

definition device_queue :: "bool \<Rightarrow> wg_device \<Rightarrow> nat crypt_queue" where
  "device_queue tx wg = (if tx then encrypt_queue (queues wg) else decrypt_queue (queues wg))"

definition wg_queue_enqueue_per_device_and_peer :: "wg_env \<Rightarrow> bool \<Rightarrow> nat \<Rightarrow> nat \<Rightarrow> wg_device \<Rightarrow> errno option \<times> wg_device" where
  "wg_queue_enqueue_per_device_and_peer E tx p n wg =
     (let (ok, wg1) = peer_enqueue tx p n (upd_packet n (\<lambda>pk. pk\<lparr>pk_state := PACKET_STATE_UNCRYPTED\<rparr>) wg) in
      if \<not> ok then (Some ENOSPC, wg1)
      else
        let cpu = wg_cpumask_next_online E (cq_last_cpu (device_queue tx wg1));
            wg2 = upd_device_queue tx (\<lambda>q. q\<lparr>cq_last_cpu := int cpu\<rparr>) wg1;
            (room, q) = ptr_ring_produce n (device_queue tx wg2)
        in if \<not> room then (Some EPIPE, wg2)
           else (None, upd_device_queue tx (\<lambda>_. queue_work_on cpu q) wg2))"

text \<open>
  A reference keeps the peer alive around the publication of the state: the worker may run at once and
  give up the packet's own reference.
\<close>

definition wg_queue_enqueue_per_peer_tx :: "wg_env \<Rightarrow> nat \<Rightarrow> packet_state \<Rightarrow> wg_device \<Rightarrow> wg_device" where
  "wg_queue_enqueue_per_peer_tx E n state wg =
     (let p = PACKET_PEER wg n in
      wg_peer_put (Some p)
        (upd_peer p (\<lambda>peer. peer\<lparr>serial_work_cpu := wg_cpumask_choose_online E (serial_work_cpu peer) (ucast (internal_id peer)),
            works := (works peer)\<lparr>transmit_packet_work := True\<rparr>\<rparr>)
          (upd_packet n (\<lambda>pk. pk\<lparr>pk_state := state\<rparr>) (wg_peer_get p wg))))"

definition wg_queue_enqueue_per_peer_rx :: "nat \<Rightarrow> packet_state \<Rightarrow> wg_device \<Rightarrow> wg_device" where
  "wg_queue_enqueue_per_peer_rx n state wg =
     (let p = PACKET_PEER wg n in
      wg_peer_put (Some p)
        (upd_peer p (\<lambda>peer. peer\<lparr>works := (works peer)\<lparr>napi_scheduled := True\<rparr>\<rparr>)
          (upd_packet n (\<lambda>pk. pk\<lparr>pk_state := state\<rparr>) (wg_peer_get p wg))))"

definition wg_check_packet_protocol :: "wg_env \<Rightarrow> skb \<Rightarrow> bool" where
  "wg_check_packet_protocol E skb \<longleftrightarrow>
     (let real_protocol = ip_tunnel_parse_protocol E (network_header skb)
      in real_protocol \<noteq> 0 \<and> skb_protocol skb = real_protocol)"

text \<open>The headers are forgotten: the network header is where the data starts.\<close>

definition wg_reset_packet :: "skb \<Rightarrow> skb" where
  "wg_reset_packet skb = skb\<lparr>network_header := skb_data skb, skb_protocol := 0, skb_iif := 0\<rparr>"

section \<open>Loops\<close>

text \<open>
  A worker repeats a step until the step says that it is done; the step is told how many were made
  before it. The number of steps is bounded by the first argument, and \<open>None\<close> is a loop that was not
  done by then.
\<close>

fun repeat :: "nat \<Rightarrow> (nat \<Rightarrow> 's \<Rightarrow> bool \<times> 's) \<Rightarrow> nat \<Rightarrow> 's \<Rightarrow> 's option" where
  "repeat 0 step i s = None"
| "repeat (Suc n) step i s = (case step i s of (True, s') \<Rightarrow> repeat n step (i + 1) s' | (False, s') \<Rightarrow> Some s')"

text \<open>A step that counts a measure down ends the loop.\<close>

lemma repeat_ends:
  assumes "P s" "m s < n"
    and "\<And>i s s'. P s \<Longrightarrow> step i s = (True, s') \<Longrightarrow> P s' \<and> m s' < m s"
    and "\<And>i s s'. P s \<Longrightarrow> step i s = (False, s') \<Longrightarrow> Q s'"
  shows "\<exists>t. repeat n step i s = Some t \<and> Q t"
  using assms(1,2)
proof (induction n arbitrary: s i)
  case 0
  then show ?case by simp
next
  case (Suc n)
  show ?case
  proof (cases "step i s")
    case (Pair go s')
    then show ?thesis using Suc assms(3,4) [of s i s'] by (cases go) auto
  qed
qed

lemma repeat_inv:
  assumes "repeat n step i s = Some t" "P s" "\<And>i s go s'. P s \<Longrightarrow> step i s = (go, s') \<Longrightarrow> P s'"
  shows "P t"
  using assms(1,2)
proof (induction n arbitrary: s i)
  case 0
  then show ?case by simp
next
  case (Suc n)
  show ?case
  proof (cases "step i s")
    case (Pair go s')
    then show ?thesis using Suc assms(3) [OF Suc.prems(2) Pair] by (cases go) auto
  qed
qed

text \<open>
  The workers that take packets from a ring: a step that goes on has taken one, and a step that ends
  the loop has found the ring empty. One step more than there are packets is then enough.
\<close>

locale ring_worker =
  fixes step :: "wg_env \<Rightarrow> 's \<Rightarrow> bool \<times> 's"
    and ring :: "'s \<Rightarrow> 'a list"
  assumes takes: "step E s = (True, s') \<Longrightarrow> length (ring s') < length (ring s)"
    and ends: "step E s = (False, s') \<Longrightarrow> ring s' = []"
begin

lemma drains: "\<exists>t. repeat (length (ring s) + 1) (\<lambda>i. step (Es i)) 0 s = Some t \<and> ring t = []"
  by (rule repeat_ends [where P = "\<lambda>_. True" and m = "\<lambda>s. length (ring s)"]) (use takes ends in \<open>auto\<close>)

end

section \<open>The chosen CPU is online\<close>

lemma choose_online:
  assumes "online_cpus E \<noteq> []"
  shows "wg_cpumask_choose_online E stored n \<in> set (online_cpus E)"
  using assms by (simp add: wg_cpumask_choose_online_def)

lemma next_online:
  assumes "online_cpus E \<noteq> []"
  shows "wg_cpumask_next_online E last_cpu \<in> set (online_cpus E)"
  using assms by (auto simp: wg_cpumask_next_online_def find_Some_iff split: option.splits)

end
