(* ===== verification/Send.thy ===== *)
theory Send
  imports Queueing
begin

text \<open>
  Sending (\<^verbatim>\<open>send.c\<close>): handshake messages, the staging of packets until there is a key, the assignment
  of nonces, padding and encryption, and the workers that encrypt and transmit. The functions that
  create a handshake message draw random indices until one is free; \<open>None\<close> is the case that the
  numbers provided were all taken.
\<close>

section \<open>Handshake messages\<close>

definition HANDSHAKE_DSCP :: u8 where [wg_defs]: "HANDSHAKE_DSCP = 0x88"

definition set_last_sent :: "wg_env \<Rightarrow> nat \<Rightarrow> wg_device \<Rightarrow> wg_device" where
  "set_last_sent E p wg = upd_peer p (\<lambda>peer. peer\<lparr>last_sent_handshake := boottime_ns E\<rparr>) wg"

text \<open>The codes are added to the message, and the peer remembers the first one.\<close>

definition add_macs :: "crypto \<Rightarrow> wg_env \<Rightarrow> nat \<Rightarrow> bytes \<Rightarrow> wg_device \<Rightarrow> bytes \<times> wg_device" where
  "add_macs C E p message wg =
     (let (message1, peer) = wg_cookie_add_mac_to_packet C E message (peers wg p) in (message1, upd_peer p (\<lambda>_. peer) wg))"

definition wg_packet_send_handshake_initiation :: "crypto \<Rightarrow> wg_env \<Rightarrow> nat \<Rightarrow> wg_device \<Rightarrow> wg_device option" where
  "wg_packet_send_handshake_initiation C E p wg =
     (if \<not> wg_birthdate_has_expired E (last_sent_handshake (peers wg p)) REKEY_TIMEOUT then Some wg
      else
        case wg_noise_handshake_create_initiation C E p (set_last_sent E p wg) of
          None \<Rightarrow> None
        | Some (None, wg1) \<Rightarrow> Some wg1
        | Some (Some packet, wg1) \<Rightarrow>
            let (message, wg2) = add_macs C E p (initiation_bytes packet) wg1;
                wg3 = wg_timers_any_authenticated_packet_traversal E p wg2;
                wg4 = set_last_sent E p (wg_timers_any_authenticated_packet_sent p wg3);
                (_, wg5) = wg_socket_send_buffer_to_peer E p message HANDSHAKE_DSCP wg4
            in Some (wg_timers_handshake_initiated E p wg5))"

definition upd_works :: "nat \<Rightarrow> (peer_works \<Rightarrow> peer_works) \<Rightarrow> wg_device \<Rightarrow> wg_device" where
  "upd_works p f wg = upd_peer p (\<lambda>peer. peer\<lparr>works := f (works peer)\<rparr>) wg"

definition wg_packet_handshake_send_worker :: "crypto \<Rightarrow> wg_env \<Rightarrow> nat \<Rightarrow> wg_device \<Rightarrow> wg_device option" where
  "wg_packet_handshake_send_worker C E p wg =
     map_option (wg_peer_put (Some p))
       (wg_packet_send_handshake_initiation C E p (upd_works p (\<lambda>w. w\<lparr>transmit_handshake_work := False\<rparr>) wg))"

definition wg_packet_send_queued_handshake_initiation :: "wg_env \<Rightarrow> bool \<Rightarrow> nat \<Rightarrow> wg_device \<Rightarrow> wg_device" where
  "wg_packet_send_queued_handshake_initiation E is_retry p wg =
     (let wg1 = (if \<not> is_retry then upd_peer p (\<lambda>peer. peer\<lparr>timer_handshake_attempts := 0\<rparr>) wg else wg) in
      if \<not> wg_birthdate_has_expired E (last_sent_handshake (peers wg1 p)) REKEY_TIMEOUT \<or> is_dead (peers wg1 p) then wg1
      else
        let wg2 = wg_peer_get p wg1 in
        if transmit_handshake_work (works (peers wg2 p)) then wg_peer_put (Some p) wg2
        else upd_works p (\<lambda>w. w\<lparr>transmit_handshake_work := True\<rparr>) wg2)"

definition wg_packet_send_handshake_response :: "crypto \<Rightarrow> wg_env \<Rightarrow> nat \<Rightarrow> wg_device \<Rightarrow> wg_device option" where
  "wg_packet_send_handshake_response C E p wg =
     (case wg_noise_handshake_create_response C E p (set_last_sent E p wg) of
        None \<Rightarrow> None
      | Some (None, wg1) \<Rightarrow> Some wg1
      | Some (Some packet, wg1) \<Rightarrow>
          let (message, wg2) = add_macs C E p (response_bytes packet) wg1;
              (begun, wg3) = wg_noise_handshake_begin_session C E p wg2
          in if \<not> begun then Some wg3
             else
               let wg4 = wg_timers_session_derived E p wg3;
                   wg5 = wg_timers_any_authenticated_packet_traversal E p wg4;
                   wg6 = set_last_sent E p (wg_timers_any_authenticated_packet_sent p wg5)
               in Some (snd (wg_socket_send_buffer_to_peer E p message HANDSHAKE_DSCP wg6)))"

definition wg_packet_send_handshake_cookie :: "crypto \<Rightarrow> wg_env \<Rightarrow> skb \<Rightarrow> u32 \<Rightarrow> wg_device \<Rightarrow> wg_device" where
  "wg_packet_send_handshake_cookie C E initiating_skb sender_index wg =
     (let (packet, cc) = wg_cookie_message_create C E initiating_skb sender_index (checker wg)
      in snd (wg_socket_send_buffer_as_reply_to_skb E (Some initiating_skb) (cookie_bytes packet) (wg\<lparr>checker := cc\<rparr>)))"

definition keep_key_fresh_tx :: "wg_env \<Rightarrow> nat \<Rightarrow> wg_device \<Rightarrow> wg_device" where
  "keep_key_fresh_tx E p wg =
     (case current_keypair (slots wg p) of
        None \<Rightarrow> wg
      | Some k \<Rightarrow>
          let kp = keypair_store wg k;
              send = (sk_is_valid (sending kp) \<and>
                (REKEY_AFTER_MESSAGES < sending_counter kp \<or>
                 i_am_the_initiator kp \<and> wg_birthdate_has_expired E (sk_birthdate (sending kp)) REKEY_AFTER_TIME))
          in if send then wg_packet_send_queued_handshake_initiation E False p wg else wg)"

section \<open>Encryption\<close>

text \<open>\<open>ALIGN (x, 16)\<close>, and lengths as unsigned 32-bit numbers.\<close>

definition align16 :: "u32 \<Rightarrow> u32" where
  "align16 x = (x + 15) AND NOT 15"

definition skb_len :: "skb \<Rightarrow> u32" where
  "skb_len skb = of_nat (length (skb_data skb))"

definition calculate_skb_padding :: "skb \<Rightarrow> u32" where
  "calculate_skb_padding skb =
     (let last_unit = skb_len skb in
      if cb_mtu skb = 0 then align16 last_unit - last_unit
      else
        let last_unit1 = (if cb_mtu skb < last_unit then last_unit mod cb_mtu skb else last_unit);
            padded_size = min (cb_mtu skb) (align16 last_unit1)
        in padded_size - last_unit1)"

definition encrypt_packet :: "crypto \<Rightarrow> wg_env \<Rightarrow> noise_keypair \<Rightarrow> skb \<Rightarrow> skb option" where
  "encrypt_packet C E kp skb =
     (if \<not> skb_cow_ok E (skb_data skb) then None
      else
        let plaintext = skb_data skb @ zero_bytes (unat (calculate_skb_padding skb));
            message = \<lparr>data_type = MESSAGE_DATA, data_key_idx = kp_remote_index kp, data_counter = cb_nonce skb,
              data_encrypted_data = chacha20poly1305_encrypt C plaintext [] (cb_nonce skb) (sk_key (sending kp))\<rparr>
        in Some (skb\<lparr>skb_data := data_bytes message\<rparr>))"

text \<open>The buffers of a packet are encrypted in order, until one fails.\<close>

fun encrypt_list :: "crypto \<Rightarrow> wg_env \<Rightarrow> noise_keypair \<Rightarrow> skb list \<Rightarrow> packet_state \<times> skb list" where
  "encrypt_list C E kp [] = (PACKET_STATE_CRYPTED, [])"
| "encrypt_list C E kp (skb # ss) =
     (case encrypt_packet C E kp skb of
        None \<Rightarrow> (PACKET_STATE_DEAD, skb # ss)
      | Some skb1 \<Rightarrow> (case encrypt_list C E kp ss of (state, ss1) \<Rightarrow> (state, wg_reset_packet skb1 # ss1)))"

text \<open>Each packet of the ring is handled in an environment of its own.\<close>

definition encrypt_worker_step :: "crypto \<Rightarrow> wg_env \<Rightarrow> wg_device \<Rightarrow> bool \<times> wg_device" where
  "encrypt_worker_step C E wg =
     (case ptr_ring_consume (encrypt_queue (queues wg)) of
        (None, _) \<Rightarrow> (False, wg)
      | (Some n, q) \<Rightarrow>
          let wg1 = upd_queues (\<lambda>qs. qs\<lparr>encrypt_queue := q\<rparr>) wg;
              kp = keypair_store wg1 (the (pk_keypair (the_packet wg1 n)));
              (state, ss) = encrypt_list C E kp (pk_skbs (the_packet wg1 n))
          in (True, wg_queue_enqueue_per_peer_tx E n state (upd_packet n (\<lambda>pk. pk\<lparr>pk_skbs := ss\<rparr>) wg1)))"

definition wg_packet_encrypt_worker :: "crypto \<Rightarrow> (nat \<Rightarrow> wg_env) \<Rightarrow> wg_device \<Rightarrow> wg_device option" where
  "wg_packet_encrypt_worker C Es wg =
     repeat (length (cq_ring (encrypt_queue (queues wg))) + 1) (\<lambda>i. encrypt_worker_step C (Es i)) 0 wg"

section \<open>Transmission\<close>

text \<open>Each buffer goes to the peer's endpoint; the result says whether any that is not a keepalive was sent.\<close>

fun send_list :: "wg_env \<Rightarrow> nat \<Rightarrow> skb list \<Rightarrow> wg_device \<Rightarrow> bool \<times> wg_device" where
  "send_list E p [] wg = (False, wg)"
| "send_list E p (skb # ss) wg =
     (let is_keepalive = (length (skb_data skb) = message_data_len 0);
          (ret, wg1) = wg_socket_send_skb_to_peer E p (skb_data skb) (cb_ds skb) wg;
          (data_sent, wg2) = send_list E p ss wg1
      in (ret = None \<and> \<not> is_keepalive \<or> data_sent, wg2))"

definition wg_packet_create_data_done :: "wg_env \<Rightarrow> nat \<Rightarrow> skb list \<Rightarrow> wg_device \<Rightarrow> wg_device" where
  "wg_packet_create_data_done E p ss wg =
     (let wg1 = wg_timers_any_authenticated_packet_sent p (wg_timers_any_authenticated_packet_traversal E p wg);
          (data_sent, wg2) = send_list E p ss wg1;
          wg3 = (if data_sent then wg_timers_data_sent E p wg2 else wg2)
      in keep_key_fresh_tx E p wg3)"

definition tx_worker_step :: "wg_env \<Rightarrow> nat \<Rightarrow> wg_device \<Rightarrow> bool \<times> wg_device" where
  "tx_worker_step E p wg =
     (let (first, q) = wg_prev_queue_peek (tx_queue (peers wg p));
          wg1 = upd_peer p (\<lambda>peer. peer\<lparr>tx_queue := q\<rparr>) wg
      in case first of
           None \<Rightarrow> (False, wg1)
         | Some n \<Rightarrow>
             let pk = the_packet wg1 n in
             if pk_state pk = PACKET_STATE_UNCRYPTED then (False, wg1)
             else
               let wg2 = upd_peer p (\<lambda>peer. peer\<lparr>tx_queue := wg_prev_queue_drop_peeked (tx_queue peer)\<rparr>) wg1;
                   wg3 = (if pk_state pk = PACKET_STATE_CRYPTED then wg_packet_create_data_done E p (pk_skbs pk) wg2 else wg2)
               in (True, wg_peer_put (Some p) (wg_noise_keypair_put (pk_keypair pk) False wg3)))"

text \<open>The queue of a peer has at most \<open>MAX_QUEUED_PACKETS\<close> packets, besides the one that was peeked before.\<close>

definition wg_packet_tx_worker :: "(nat \<Rightarrow> wg_env) \<Rightarrow> nat \<Rightarrow> wg_device \<Rightarrow> wg_device option" where
  "wg_packet_tx_worker Es p wg =
     repeat (MAX_QUEUED_PACKETS + 2) (\<lambda>i. tx_worker_step (Es i) p) 0 (upd_works p (\<lambda>w. w\<lparr>transmit_packet_work := False\<rparr>) wg)"

section \<open>Staged packets\<close>

definition wg_packet_create_data :: "wg_env \<Rightarrow> nat \<Rightarrow> nat \<Rightarrow> wg_device \<Rightarrow> wg_device" where
  "wg_packet_create_data E p n wg =
     (let (ret, wg1) =
            (if is_dead (peers wg p) then (Some EINVAL, wg)
             else
               case wg_queue_enqueue_per_device_and_peer E True p n wg of
                 (ret, wg1) \<Rightarrow>
                   (ret, if ret = Some EPIPE then wg_queue_enqueue_per_peer_tx E n PACKET_STATE_DEAD wg1 else wg1))
      in if ret = None \<or> ret = Some EPIPE then wg1
         else wg_peer_put (Some p) (wg_noise_keypair_put (pk_keypair (the_packet wg1 n)) False wg1))"

text \<open>
  Each packet takes the next number of the counter; the first number that is too large ends the
  assignment, with the counter advanced past it.
\<close>

fun assign_nonces :: "wg_env \<Rightarrow> skb list \<Rightarrow> u64 \<Rightarrow> bool \<times> skb list \<times> u64" where
  "assign_nonces E [] ctr = (True, [], ctr)"
| "assign_nonces E (skb # ss) ctr =
     (let skb1 = skb\<lparr>cb_ds := ip_tunnel_ecn_encap E skb, cb_nonce := ctr\<rparr> in
      if REJECT_AFTER_MESSAGES \<le> ctr then (False, skb1 # ss, ctr + 1)
      else case assign_nonces E ss (ctr + 1) of (ok, ss1, ctr1) \<Rightarrow> (ok, skb1 # ss1, ctr1))"

definition restage :: "wg_env \<Rightarrow> nat \<Rightarrow> nat option \<Rightarrow> skb list \<Rightarrow> wg_device \<Rightarrow> wg_device" where
  "restage E p keypair ss wg =
     wg_packet_send_queued_handshake_initiation E False p
       (upd_peer p (\<lambda>peer. peer\<lparr>staged_packet_queue := ss @ staged_packet_queue peer\<rparr>)
         (wg_noise_keypair_put keypair False wg))"

definition wg_packet_send_staged_packets :: "wg_env \<Rightarrow> nat \<Rightarrow> wg_device \<Rightarrow> wg_device" where
  "wg_packet_send_staged_packets E p wg =
     (let ss = staged_packet_queue (peers wg p);
          wg0 = upd_peer p (\<lambda>peer. peer\<lparr>staged_packet_queue := []\<rparr>) wg
      in if ss = [] then wg0
         else
           case wg_noise_keypair_get (current_keypair (slots wg0 p)) wg0 of
             (None, wg1) \<Rightarrow> restage E p None ss wg1
           | (Some k, wg1) \<Rightarrow>
               let kp = keypair_store wg1 k;
                   invalid = upd_keypair k (\<lambda>kp. kp\<lparr>sending := (sending kp)\<lparr>sk_is_valid := False\<rparr>\<rparr>)
               in if \<not> sk_is_valid (sending kp) then restage E p (Some k) ss wg1
                  else if wg_birthdate_has_expired E (sk_birthdate (sending kp)) REJECT_AFTER_TIME then
                    restage E p (Some k) ss (invalid wg1)
                  else
                    let (ok, ss1, ctr) = assign_nonces E ss (sending_counter kp);
                        wg2 = upd_keypair k (\<lambda>kp. kp\<lparr>sending_counter := ctr\<rparr>) wg1
                    in if \<not> ok then restage E p (Some k) ss1 (invalid wg2)
                       else
                         let (n, wg3) = new_packet ss1 (Some k) (wg_peer_get (the (ih_peer (index_table wg2) (KP k))) wg2)
                         in wg_packet_create_data E p n wg3)"

definition keepalive_skb :: "wg_device \<Rightarrow> skb" where
  "keepalive_skb wg = \<lparr>skb_data = [], skb_protocol = 0, network_header = [], udp_source = 0, skb_iif = 0, cb_nonce = 0,
     cb_mtu = dev_mtu wg, cb_ds = 0\<rparr>"

definition wg_packet_send_keepalive :: "wg_env \<Rightarrow> nat \<Rightarrow> wg_device \<Rightarrow> wg_device" where
  "wg_packet_send_keepalive E p wg =
     (if staged_packet_queue (peers wg p) = [] then
        if \<not> alloc_ok E then wg
        else wg_packet_send_staged_packets E p
          (upd_peer p (\<lambda>peer. peer\<lparr>staged_packet_queue := staged_packet_queue peer @ [keepalive_skb wg]\<rparr>) wg)
      else wg_packet_send_staged_packets E p wg)"

end
