(* ===== verification/Timers_Expired.thy ===== *)
theory Timers_Expired
  imports Send
begin

text \<open>The timers of a peer that send something when they expire (\<^verbatim>\<open>timers.c\<close>).\<close>

text \<open>An expired timer is no longer pending when its function runs.\<close>

definition wg_expired_retransmit_handshake :: "wg_env \<Rightarrow> nat \<Rightarrow> wg_device \<Rightarrow> wg_device" where
  "wg_expired_retransmit_handshake E p wg0 =
     (let wg = timer_delete timer_retransmit_handshake_update p wg0 in
      if MAX_TIMER_HANDSHAKES < timer_handshake_attempts (peers wg p) then
        let wg1 = wg_packet_purge_staged_packets p (timer_delete timer_send_keepalive_update p wg)
        in if timer_zero_key_material (timers (peers wg1 p)) = None then
             mod_peer_timer timer_zero_key_material_update p (jiffies E + REJECT_AFTER_TIME * 3 * hz E) wg1
           else wg1
      else
        wg_packet_send_queued_handshake_initiation E True p
          (wg_socket_clear_peer_endpoint_src p
            (upd_peer p (\<lambda>peer. peer\<lparr>timer_handshake_attempts := timer_handshake_attempts peer + 1\<rparr>) wg)))"

definition wg_expired_send_keepalive :: "wg_env \<Rightarrow> nat \<Rightarrow> wg_device \<Rightarrow> wg_device" where
  "wg_expired_send_keepalive E p wg0 =
     (let wg = wg_packet_send_keepalive E p (timer_delete timer_send_keepalive_update p wg0) in
      if timer_need_another_keepalive (peers wg p) then
        mod_peer_timer timer_send_keepalive_update p (jiffies E + KEEPALIVE_TIMEOUT * hz E)
          (upd_peer p (\<lambda>peer. peer\<lparr>timer_need_another_keepalive := False\<rparr>) wg)
      else wg)"

definition wg_expired_new_handshake :: "wg_env \<Rightarrow> nat \<Rightarrow> wg_device \<Rightarrow> wg_device" where
  "wg_expired_new_handshake E p wg =
     wg_packet_send_queued_handshake_initiation E False p
       (wg_socket_clear_peer_endpoint_src p (timer_delete timer_new_handshake_update p wg))"

definition wg_expired_send_persistent_keepalive :: "wg_env \<Rightarrow> nat \<Rightarrow> wg_device \<Rightarrow> wg_device" where
  "wg_expired_send_persistent_keepalive E p wg0 =
     (let wg = timer_delete timer_persistent_keepalive_update p wg0 in
      if persistent_keepalive_interval (peers wg p) \<noteq> 0 then wg_packet_send_keepalive E p wg else wg)"

end
