(* ===== verification/Receive.thy ===== *)
theory Receive
  imports Timers_Expired
begin

text \<open>
  Receiving (\<^verbatim>\<open>receive.c\<close>): the checks on the headers of a datagram, the handling of handshake messages,
  decryption, and the delivery of the packets of a peer in order, after the replay check and the
  check of the source address. Buffers are linear: what \<open>pskb_may_pull\<close> asks for is there if the
  buffer is long enough, and \<open>pskb_trim\<close> does not fail.
\<close>

definition update_rx_stats :: "nat \<Rightarrow> nat \<Rightarrow> wg_device \<Rightarrow> wg_device" where
  "update_rx_stats p len wg =
     upd_peer p (\<lambda>peer. peer\<lparr>rx_bytes := rx_bytes peer + of_nat len\<rparr>)
       (wg\<lparr>outputs := (outputs wg)\<lparr>rx_stats := rx_stats (outputs wg) + of_nat len\<rparr>\<rparr>)"

section \<open>Headers\<close>

definition SKB_TYPE_LE32 :: "bytes \<Rightarrow> u32" where
  "SKB_TYPE_LE32 data = le_word (field 0 4 data)"

definition validate_header_len :: "bytes \<Rightarrow> nat" where
  "validate_header_len data =
     (if length data < sizeof_message_header then 0
      else if SKB_TYPE_LE32 data = MESSAGE_DATA \<and> MESSAGE_MINIMUM_LENGTH \<le> length data then sizeof_message_data
      else if SKB_TYPE_LE32 data = MESSAGE_HANDSHAKE_INITIATION \<and> length data = sizeof_message_handshake_initiation
        then sizeof_message_handshake_initiation
      else if SKB_TYPE_LE32 data = MESSAGE_HANDSHAKE_RESPONSE \<and> length data = sizeof_message_handshake_response
        then sizeof_message_handshake_response
      else if SKB_TYPE_LE32 data = MESSAGE_HANDSHAKE_COOKIE \<and> length data = sizeof_message_handshake_cookie
        then sizeof_message_handshake_cookie
      else 0)"

text \<open>
  A buffer as the UDP layer hands it over: its bytes from the head to the tail, and in them the
  offsets of the data pointer, of the network header and of the transport header.
\<close>

record raw_skb =
  raw_buffer :: bytes
  raw_data :: nat
  raw_network :: nat
  raw_transport :: nat
  raw_protocol :: u16
  raw_iif :: u32

definition sizeof_udphdr :: nat where [wg_defs]: "sizeof_udphdr = 8"
definition U16_MAX :: u64 where [wg_defs]: "U16_MAX = 0xffff"

definition ntohs :: "bytes \<Rightarrow> u16" where
  "ntohs bs = le_word (rev (take 2 bs))"

text \<open>The buffer from an offset on, as the control block functions see it.\<close>

definition raw_view :: "raw_skb \<Rightarrow> bytes \<Rightarrow> skb" where
  "raw_view r data = \<lparr>skb_data = data, skb_protocol = raw_protocol r, network_header = drop (raw_network r) (raw_buffer r),
     udp_source = ntohs (drop (raw_transport r) (raw_buffer r)), skb_iif = raw_iif r, cb_nonce = 0, cb_mtu = 0, cb_ds = 0\<rparr>"

text \<open>
  Offsets and lengths are unsigned 64-bit numbers: a transport header before the data gives an
  offset that is too large. The trim cuts the end of the buffer off, then the pull moves the data
  pointer past the UDP header.
\<close>

definition prepare_skb_header :: "wg_env \<Rightarrow> raw_skb \<Rightarrow> errno + skb" where
  "prepare_skb_header E r =
     (let buffer = raw_buffer r;
          udp = raw_transport r;
          len = length buffer - raw_data r
      in if \<not> wg_check_packet_protocol E (raw_view r []) \<or> length buffer < udp + sizeof_udphdr then Inl EINVAL
         else
           let data_offset = of_nat udp - of_nat (raw_data r) :: u64 in
           if U16_MAX < data_offset \<or> of_nat len < data_offset + of_nat sizeof_udphdr then Inl EINVAL
           else
             let data_len = unat (ntohs (drop (udp + 4) buffer)) in
             if data_len < sizeof_udphdr \<or> len - unat data_offset < data_len then Inl EINVAL
             else
               let data_len1 = data_len - sizeof_udphdr;
                   data_offset1 = unat data_offset + sizeof_udphdr
               in if len < data_offset1 + sizeof_message_header then Inl EINVAL
                  else
                    let r1 = r\<lparr>raw_buffer := take (raw_data r + data_len1 + data_offset1) buffer\<rparr>;
                        data = drop (raw_data r + data_offset1) (raw_buffer r1)
                    in if length data \<noteq> data_len1 then Inl EINVAL
                       else
                         let header_len = validate_header_len data in
                         if header_len = 0 \<or> length data < header_len then Inl EINVAL
                         else Inr (raw_view r1 data))"

section \<open>Handshake messages\<close>

text \<open>Whether the device is under load: many messages wait now, or did within the last second.\<close>

definition check_under_load :: "wg_env \<Rightarrow> wg_device \<Rightarrow> bool \<times> wg_device" where
  "check_under_load E wg =
     (if int (MAX_QUEUED_INCOMING_HANDSHAKES div 8) \<le> sint (handshake_queue_len wg) then
        (True, wg\<lparr>last_under_load := boottime_ns E\<rparr>)
      else if last_under_load wg \<noteq> 0 then
        let under_load = (\<not> wg_birthdate_has_expired E (last_under_load wg) 1)
        in (under_load, if \<not> under_load then wg\<lparr>last_under_load := 0\<rparr> else wg)
      else (False, wg))"

text \<open>What is done for the peer that sent a valid message.\<close>

definition handshake_received :: "wg_env \<Rightarrow> skb \<Rightarrow> nat \<Rightarrow> wg_device \<Rightarrow> wg_device" where
  "handshake_received E skb p wg =
     (let wg1 = update_rx_stats p (length (skb_data skb)) wg;
          wg2 = wg_timers_any_authenticated_packet_received p wg1
      in wg_peer_put (Some p) (wg_timers_any_authenticated_packet_traversal E p wg2))"

definition receive_initiation :: "crypto \<Rightarrow> wg_env \<Rightarrow> bool \<Rightarrow> skb \<Rightarrow> wg_device \<Rightarrow> wg_device option" where
  "receive_initiation C E packet_needs_cookie skb wg =
     (let message = initiation_of (skb_data skb) in
      if packet_needs_cookie then Some (wg_packet_send_handshake_cookie C E skb (init_sender_index message) wg)
      else
        case wg_noise_handshake_consume_initiation C E message wg of
          (None, wg1) \<Rightarrow> Some wg1
        | (Some p, wg1) \<Rightarrow>
            map_option (handshake_received E skb p)
              (wg_packet_send_handshake_response C E p (wg_socket_set_peer_endpoint_from_skb E p skb wg1)))"

definition receive_response :: "crypto \<Rightarrow> wg_env \<Rightarrow> bool \<Rightarrow> skb \<Rightarrow> wg_device \<Rightarrow> wg_device" where
  "receive_response C E packet_needs_cookie skb wg =
     (let message = response_of (skb_data skb) in
      if packet_needs_cookie then wg_packet_send_handshake_cookie C E skb (resp_sender_index message) wg
      else
        case wg_noise_handshake_consume_response C message wg of
          (None, wg1) \<Rightarrow> wg1
        | (Some p, wg1) \<Rightarrow>
            let wg2 = wg_socket_set_peer_endpoint_from_skb E p skb wg1;
                (begun, wg3) = wg_noise_handshake_begin_session C E p wg2;
                wg4 = (if begun then
                         wg_packet_send_keepalive E p (wg_timers_handshake_complete E p (wg_timers_session_derived E p wg3))
                       else wg3)
            in handshake_received E skb p wg4)"

definition wg_receive_handshake_packet :: "crypto \<Rightarrow> wg_env \<Rightarrow> skb \<Rightarrow> wg_device \<Rightarrow> wg_device option" where
  "wg_receive_handshake_packet C E skb wg =
     (let type = SKB_TYPE_LE32 (skb_data skb) in
      if type = MESSAGE_HANDSHAKE_COOKIE then Some (wg_cookie_message_consume C E (cookie_of (skb_data skb)) wg)
      else
        let (under_load, wg1) = check_under_load E wg;
            (mac_state, wg2) = wg_cookie_validate_packet C E skb under_load wg1
        in if under_load \<and> mac_state = VALID_MAC_WITH_COOKIE \<or> \<not> under_load \<and> mac_state = VALID_MAC_BUT_NO_COOKIE \<or>
              under_load \<and> mac_state = VALID_MAC_BUT_NO_COOKIE then
             let packet_needs_cookie = (under_load \<and> mac_state = VALID_MAC_BUT_NO_COOKIE) in
             if type = MESSAGE_HANDSHAKE_INITIATION then receive_initiation C E packet_needs_cookie skb wg2
             else if type = MESSAGE_HANDSHAKE_RESPONSE then Some (receive_response C E packet_needs_cookie skb wg2)
             else Some wg2
           else Some wg2)"

definition handshake_worker_step :: "crypto \<Rightarrow> wg_env \<Rightarrow> wg_device option \<Rightarrow> bool \<times> wg_device option" where
  "handshake_worker_step C E st =
     (case st of
        None \<Rightarrow> (False, None)
      | Some wg \<Rightarrow>
          (case ptr_ring_consume (handshake_queue (queues wg)) of
             (None, _) \<Rightarrow> (False, Some wg)
           | (Some skb, q) \<Rightarrow>
               (True, map_option (\<lambda>wg. wg\<lparr>handshake_queue_len := handshake_queue_len wg - 1\<rparr>)
                  (wg_receive_handshake_packet C E skb (upd_queues (\<lambda>qs. qs\<lparr>handshake_queue := q\<rparr>) wg)))))"

definition wg_packet_handshake_receive_worker :: "crypto \<Rightarrow> (nat \<Rightarrow> wg_env) \<Rightarrow> wg_device \<Rightarrow> wg_device option option" where
  "wg_packet_handshake_receive_worker C Es wg =
     repeat (length (cq_ring (handshake_queue (queues wg))) + 1) (\<lambda>i. handshake_worker_step C (Es i)) 0 (Some wg)"

section \<open>Decryption\<close>

definition keep_key_fresh_rx :: "wg_env \<Rightarrow> nat \<Rightarrow> wg_device \<Rightarrow> wg_device" where
  "keep_key_fresh_rx E p wg =
     (if sent_lastminute_handshake (peers wg p) then wg
      else
        let send =
          (case current_keypair (slots wg p) of
             None \<Rightarrow> False
           | Some k \<Rightarrow>
               let kp = keypair_store wg k in
               sk_is_valid (sending kp) \<and> i_am_the_initiator kp \<and>
               wg_birthdate_has_expired E (sk_birthdate (sending kp)) (REJECT_AFTER_TIME - KEEPALIVE_TIMEOUT - REKEY_TIMEOUT))
        in if send then
             wg_packet_send_queued_handshake_initiation E False p
               (upd_peer p (\<lambda>peer. peer\<lparr>sent_lastminute_handshake := True\<rparr>) wg)
           else wg)"

text \<open>The key may still be used: it is valid, young enough, and its counter is not used up.\<close>

definition receiving_ok :: "wg_env \<Rightarrow> noise_keypair \<Rightarrow> bool" where
  "receiving_ok E kp \<longleftrightarrow>
     \<not> (\<not> sk_is_valid (receiving kp) \<or> wg_birthdate_has_expired E (sk_birthdate (receiving kp)) REJECT_AFTER_TIME \<or>
        REJECT_AFTER_MESSAGES \<le> counter (receiving_counter kp))"

text \<open>The decryption of the buffer under a key, with its nonce in the control block; the header is pulled off.\<close>

definition decrypt_skb :: "crypto \<Rightarrow> wg_env \<Rightarrow> noise_keypair \<Rightarrow> skb \<Rightarrow> skb option" where
  "decrypt_skb C E kp skb =
     (let message = data_of (skb_data skb) in
      if \<not> skb_cow_ok E (skb_data skb) then None
      else
        map_option (\<lambda>plaintext. skb\<lparr>skb_data := plaintext, cb_nonce := data_counter message\<rparr>)
          (chacha20poly1305_decrypt C (data_encrypted_data message) [] (data_counter message) (sk_key (receiving kp))))"

definition decrypt_packet :: "crypto \<Rightarrow> wg_env \<Rightarrow> skb \<Rightarrow> nat option \<Rightarrow> wg_device \<Rightarrow> skb option \<times> wg_device" where
  "decrypt_packet C E skb keypair wg =
     (case keypair of
        None \<Rightarrow> (None, wg)
      | Some k \<Rightarrow>
          if \<not> receiving_ok E (keypair_store wg k) then
            (None, upd_keypair k (\<lambda>kp. kp\<lparr>receiving := (receiving kp)\<lparr>sk_is_valid := False\<rparr>\<rparr>) wg)
          else (decrypt_skb C E (keypair_store wg k) skb, wg))"

definition decrypt_worker_step :: "crypto \<Rightarrow> wg_env \<Rightarrow> wg_device \<Rightarrow> bool \<times> wg_device" where
  "decrypt_worker_step C E wg =
     (case ptr_ring_consume (decrypt_queue (queues wg)) of
        (None, _) \<Rightarrow> (False, wg)
      | (Some n, q) \<Rightarrow>
          let wg1 = upd_queues (\<lambda>qs. qs\<lparr>decrypt_queue := q\<rparr>) wg;
              (res, wg2) = decrypt_packet C E (hd (pk_skbs (the_packet wg1 n))) (pk_keypair (the_packet wg1 n)) wg1
          in (True, case res of
                None \<Rightarrow> wg_queue_enqueue_per_peer_rx n PACKET_STATE_DEAD wg2
              | Some skb \<Rightarrow> wg_queue_enqueue_per_peer_rx n PACKET_STATE_CRYPTED (upd_packet n (\<lambda>pk. pk\<lparr>pk_skbs := [skb]\<rparr>) wg2)))"

definition wg_packet_decrypt_worker :: "crypto \<Rightarrow> (nat \<Rightarrow> wg_env) \<Rightarrow> wg_device \<Rightarrow> wg_device option" where
  "wg_packet_decrypt_worker C Es wg =
     repeat (length (cq_ring (decrypt_queue (queues wg))) + 1) (\<lambda>i. decrypt_worker_step C (Es i)) 0 wg"

section \<open>Delivery\<close>

datatype packet_error = DISHONEST_PEER | DISHONEST_TYPE | DISHONEST_SIZE

definition dishonest_packet :: "packet_error \<Rightarrow> wg_device \<Rightarrow> wg_device" where
  "dishonest_packet e wg =
     (let out = outputs wg;
          out1 = out\<lparr>rx_errors := rx_errors out + 1\<rparr>
      in wg\<lparr>outputs := (if e = DISHONEST_SIZE then out1\<lparr>rx_length_errors := rx_length_errors out1 + 1\<rparr>
                         else out1\<lparr>rx_frame_errors := rx_frame_errors out1 + 1\<rparr>)\<rparr>)"

definition sizeof_iphdr :: nat where [wg_defs]: "sizeof_iphdr = 20"
definition sizeof_ipv6hdr :: nat where [wg_defs]: "sizeof_ipv6hdr = 40"

definition ip_version :: "bytes \<Rightarrow> u8" where
  "ip_version h = drop_bit 4 (h ! 0)"

text \<open>
  The inner packet after its checks: its protocol and its bytes, with the congestion mark of the outer
  header and without what follows its own length.
\<close>

definition inner_packet :: "wg_env \<Rightarrow> skb \<Rightarrow> packet_error + u16 \<times> bytes" where
  "inner_packet E skb =
     (let data = skb_data skb in
      if \<not> (sizeof_iphdr \<le> length data \<and> (ip_version data = 4 \<or> ip_version data = 6 \<and> sizeof_ipv6hdr \<le> length data))
      then Inl DISHONEST_TYPE
      else
        let protocol = ip_tunnel_parse_protocol E data;
            data1 = ecn_decapsulate E (cb_ds skb) data
        in if protocol = ETH_P_IP then
             let len = unat (ntohs (drop 2 data)) in
             if len < sizeof_iphdr then Inl DISHONEST_SIZE
             else if length data < len then Inl DISHONEST_SIZE
             else Inr (protocol, take len data1)
           else if protocol = ETH_P_IPV6 then
             let len = unat (ntohs (drop 4 data)) + sizeof_ipv6hdr in
             if length data < len then Inl DISHONEST_SIZE
             else Inr (protocol, take len data1)
           else Inl DISHONEST_TYPE)"

text \<open>
  The peer that may send from the source address of the packet. The lookup is repeated while it finds
  a peer that has no references left; such a peer is not in the table, as the table holds peers
  of the list.
\<close>

definition routed_peer :: "u16 \<Rightarrow> bytes \<Rightarrow> wg_device \<Rightarrow> nat option" where
  "routed_peer protocol data wg =
     (case wg_allowedips_lookup_src [(peer_allowedips wg, peer_alive wg)] protocol data of
        None \<Rightarrow> None
      | Some q \<Rightarrow> q)"

definition deliver :: "wg_env \<Rightarrow> nat \<Rightarrow> skb \<Rightarrow> wg_device \<Rightarrow> wg_device" where
  "deliver E p skb wg =
     (case inner_packet E skb of
        Inl e \<Rightarrow> dishonest_packet e wg
      | Inr (protocol, data) \<Rightarrow>
          let q = routed_peer protocol data wg;
              wg1 = (case q of None \<Rightarrow> wg | Some r \<Rightarrow> wg_peer_put (Some r) (wg_peer_get r wg))
          in if q \<noteq> Some p then dishonest_packet DISHONEST_PEER wg1
             else update_rx_stats p (message_data_len (length (skb_data skb)))
               (wg1\<lparr>outputs := (outputs wg1)\<lparr>delivered := delivered (outputs wg1) @ [(p, data)]\<rparr>\<rparr>))"

definition wg_packet_consume_data_done :: "wg_env \<Rightarrow> nat \<Rightarrow> skb \<Rightarrow> nat option \<Rightarrow> endpoint \<Rightarrow> wg_device \<Rightarrow> wg_device" where
  "wg_packet_consume_data_done E p skb keypair ep wg =
     (let wg1 = wg_socket_set_peer_endpoint p ep wg;
          (is_new, wg2) = wg_noise_received_with_keypair p keypair wg1;
          wg3 = (if is_new then wg_packet_send_staged_packets E p (wg_timers_handshake_complete E p wg2) else wg2);
          wg4 = wg_timers_any_authenticated_packet_received p (keep_key_fresh_rx E p wg3);
          wg5 = wg_timers_any_authenticated_packet_traversal E p wg4
      in if skb_data skb = [] then update_rx_stats p (message_data_len 0) wg5
         else deliver E p skb (wg_timers_data_received E p wg5))"

text \<open>A packet at the head of the queue that was decrypted: the replay check and the delivery.\<close>

definition rx_process :: "wg_env \<Rightarrow> nat \<Rightarrow> packet \<Rightarrow> wg_device \<Rightarrow> wg_device" where
  "rx_process E p pk wg =
     (let k = the (pk_keypair pk);
          skb = hd (pk_skbs pk)
      in if pk_state pk \<noteq> PACKET_STATE_CRYPTED then wg
         else
           let (ok, rc) = counter_validate (receiving_counter (keypair_store wg k)) (cb_nonce skb);
               wg1 = upd_keypair k (\<lambda>kp. kp\<lparr>receiving_counter := rc\<rparr>) wg
           in if \<not> ok then wg1
              else
                case wg_socket_endpoint_from_skb E skb of
                  Inl _ \<Rightarrow> wg1
                | Inr ep \<Rightarrow> wg_packet_consume_data_done E p (wg_reset_packet skb) (pk_keypair pk) ep wg1)"

text \<open>The budget that is left counts the loop down.\<close>

fun rx_poll_loop :: "(nat \<Rightarrow> wg_env) \<Rightarrow> nat \<Rightarrow> nat \<Rightarrow> nat \<Rightarrow> wg_device \<Rightarrow> nat \<times> wg_device" where
  "rx_poll_loop Es p 0 work_done wg = (work_done, wg)"
| "rx_poll_loop Es p (Suc budget) work_done wg =
     (let (first, q) = wg_prev_queue_peek (rx_queue (peers wg p));
          wg1 = upd_peer p (\<lambda>peer. peer\<lparr>rx_queue := q\<rparr>) wg
      in case first of
           None \<Rightarrow> (work_done, wg1)
         | Some n \<Rightarrow>
             let pk = the_packet wg1 n in
             if pk_state pk = PACKET_STATE_UNCRYPTED then (work_done, wg1)
             else
               let wg2 = upd_peer p (\<lambda>peer. peer\<lparr>rx_queue := wg_prev_queue_drop_peeked (rx_queue peer)\<rparr>) wg1;
                   wg3 = rx_process (Es work_done) p pk wg2;
                   wg4 = wg_peer_put (Some p) (wg_noise_keypair_put (pk_keypair pk) False wg3)
               in rx_poll_loop Es p budget (work_done + 1) wg4)"

definition wg_packet_rx_poll :: "(nat \<Rightarrow> wg_env) \<Rightarrow> nat \<Rightarrow> int \<Rightarrow> wg_device \<Rightarrow> nat \<times> wg_device" where
  "wg_packet_rx_poll Es p budget wg =
     (if budget \<le> 0 then (0, wg)
      else
        let (work_done, wg1) = rx_poll_loop Es p (nat budget) 0 wg
        in (work_done, if int work_done < budget then
              upd_works p (\<lambda>w. w\<lparr>napi_scheduled := False\<rparr>) wg1 else wg1))"

section \<open>Arrival\<close>

definition wg_packet_consume_data :: "wg_env \<Rightarrow> skb \<Rightarrow> wg_device \<Rightarrow> wg_device" where
  "wg_packet_consume_data E skb wg =
     (let (found, table) = wg_index_hashtable_lookup (peer_alive wg) (index_table wg) INDEX_HASHTABLE_KEYPAIR
            (data_key_idx (data_of (skb_data skb)));
          wg1 = wg\<lparr>index_table := table\<rparr>
      in case found of
           Some (KP k, p) \<Rightarrow>
             let wg2 = wg_peer_get p wg1 in
             (case wg_noise_keypair_get (Some k) wg2 of
                (None, wg3) \<Rightarrow> wg_peer_put (Some p) wg3
              | (Some _, wg3) \<Rightarrow>
                  if is_dead (peers wg3 p) then wg_peer_put (Some p) (wg_noise_keypair_put (Some k) False wg3)
                  else
                    let (n, wg4) = new_packet [skb] (Some k) wg3;
                        (ret, wg5) = wg_queue_enqueue_per_device_and_peer E False p n wg4
                    in if ret = Some EPIPE then wg_queue_enqueue_per_peer_rx n PACKET_STATE_DEAD wg5
                       else if ret = None then wg5
                       else wg_peer_put (Some p) (wg_noise_keypair_put (Some k) False wg5))
         | _ \<Rightarrow> wg1)"

text \<open>When many messages wait, the ring is filled only if nobody else holds its lock.\<close>

definition receive_handshake :: "wg_env \<Rightarrow> skb \<Rightarrow> wg_device \<Rightarrow> wg_device" where
  "receive_handshake E skb wg =
     (let busy = (int (MAX_QUEUED_INCOMING_HANDSHAKES div 2) < sint (handshake_queue_len wg));
          (room, q) = ptr_ring_produce skb (handshake_queue (queues wg))
      in if \<not> rng_is_initialized E \<or> busy \<and> \<not> trylock_ok E \<or> \<not> room then wg
         else
           let cpu = wg_cpumask_next_online E (cq_last_cpu q) in
           upd_queues (\<lambda>qs. qs\<lparr>handshake_queue := queue_work_on cpu (q\<lparr>cq_last_cpu := int cpu\<rparr>)\<rparr>)
             (wg\<lparr>handshake_queue_len := handshake_queue_len wg + 1\<rparr>))"

definition wg_packet_receive :: "wg_env \<Rightarrow> raw_skb \<Rightarrow> wg_device \<Rightarrow> wg_device" where
  "wg_packet_receive E r wg =
     (case prepare_skb_header E r of
        Inl _ \<Rightarrow> wg
      | Inr skb \<Rightarrow>
          let type = SKB_TYPE_LE32 (skb_data skb) in
          if type = MESSAGE_HANDSHAKE_INITIATION \<or> type = MESSAGE_HANDSHAKE_RESPONSE \<or> type = MESSAGE_HANDSHAKE_COOKIE then
            receive_handshake E skb wg
          else if type = MESSAGE_DATA then wg_packet_consume_data E (skb\<lparr>cb_ds := ip_tunnel_get_dsfield E skb\<rparr>) wg
          else wg)"

text \<open>The callback of the socket: the device is what the socket belongs to, if it still belongs to one.\<close>

definition wg_receive :: "wg_env \<Rightarrow> bool \<Rightarrow> bool \<Rightarrow> raw_skb \<Rightarrow> wg_device \<Rightarrow> wg_device" where
  "wg_receive E has_sk has_user_data r wg =
     (if \<not> has_sk then wg else if \<not> has_user_data then wg else wg_packet_receive E r wg)"

end
