(* ===== verification/Peer.thy ===== *)
theory Peer
  imports Receive "HOL-Library.Monad_Syntax"
begin

text \<open>
  The life of a peer (\<^verbatim>\<open>peer.c\<close>): its creation, and its removal, which takes it out of the tables, marks
  it dead, and then waits until nothing works on it any more.
\<close>

section \<open>Creation\<close>

definition zero_queue :: prev_queue where
  "zero_queue = \<lparr>pq_next = (\<lambda>_. None), pq_head = STUB, pq_tail = STUB, pq_peeked = None, pq_count = 0\<rparr>"

text \<open>The fields of a new peer; the memory was zeroed before.\<close>

definition new_peer :: "crypto \<Rightarrow> wg_env \<Rightarrow> bytes \<Rightarrow> bytes option \<Rightarrow> u64 \<Rightarrow> noise_static_identity \<Rightarrow> wg_peer" where
  "new_peer C E public_key psk peer_id ident =
     wg_noise_reset_last_sent_handshake E
       (wg_cookie_checker_precompute_peer_keys C
         (wg_timers_init
           \<lparr>tx_queue = wg_prev_queue_init zero_queue, rx_queue = wg_prev_queue_init zero_queue, staged_packet_queue = [],
             serial_work_cpu = nr_cpumask_bits E, is_dead = False,
             keypairs = \<lparr>current_keypair = None, previous_keypair = None, next_keypair = None\<rparr>,
             endpoint = zero_endpoint, endpoint_cache = None,
             handshake = wg_noise_handshake_init C ident public_key psk, last_sent_handshake = 0,
             works = \<lparr>transmit_handshake_work = False, clear_peer_work = False, transmit_packet_work = False, napi_scheduled = False\<rparr>,
             latest_cookie = wg_cookie_init, rx_bytes = 0, tx_bytes = 0, timers = no_timers, timer_handshake_attempts = 0,
             persistent_keepalive_interval = 0, timer_need_another_keepalive = False, sent_lastminute_handshake = False,
             walltime_last_handshake = (0, 0), peer_refcount = 1, internal_id = peer_id\<rparr>))"

definition peer_keys :: "wg_device \<Rightarrow> nat \<Rightarrow> bytes" where
  "peer_keys wg p = remote_static (handshake (peers wg p))"

definition wg_peer_create ::
  "crypto \<Rightarrow> wg_env \<Rightarrow> bool \<Rightarrow> bytes \<Rightarrow> bytes option \<Rightarrow> wg_device \<Rightarrow> (errno + nat) \<times> wg_device" where
  "wg_peer_create C E dst_cache_ok public_key psk wg =
     (if of_nat MAX_PEERS_PER_DEVICE \<le> num_peers wg then (Inl ENOMEM, wg)
      else if \<not> alloc_ok E then (Inl ENOMEM, wg)
      else if \<not> dst_cache_ok then (Inl ENOMEM, wg)
      else
        let p = next_peer wg;
            peer_id = peer_counter wg + 1;
            wg1 = upd_peer p (\<lambda>_. new_peer C E public_key psk peer_id (static_identity wg))
                    (wg\<lparr>next_peer := p + 1, peer_counter := peer_id,
                       index_table := (index_table wg)\<lparr>ih_peer := (ih_peer (index_table wg))(HS p := Some p)\<rparr>\<rparr>);
            wg2 = wg1\<lparr>peer_list := peer_list wg1 @ [p],
                     peer_allowedips := (peer_allowedips wg1)\<lparr>allowedips_list := (allowedips_list (peer_allowedips wg1))(p := [])\<rparr>,
                     peer_hashtable := wg_pubkey_hashtable_add (peer_keys wg1) (peer_hashtable wg1) p,
                     num_peers := num_peers wg1 + 1\<rparr>
        in (Inr p, wg2))"

section \<open>Waiting for work\<close>

text \<open>
  Flushing a workqueue runs what is queued on it: for the queue of the packet workers the two rings
  and the transmission of the peers that have it queued, for the other one the handshakes to send and
  the keys to erase.
\<close>

fun flush_tx_works :: "(nat \<Rightarrow> wg_env) \<Rightarrow> nat list \<Rightarrow> wg_device \<Rightarrow> wg_device option" where
  "flush_tx_works Es [] wg = Some wg"
| "flush_tx_works Es (p # ps) wg =
     (if transmit_packet_work (works (peers wg p)) then wg_packet_tx_worker Es p wg else Some wg) \<bind> flush_tx_works Es ps"

definition flush_packet_crypt_wq :: "crypto \<Rightarrow> (nat \<Rightarrow> wg_env) \<Rightarrow> wg_device \<Rightarrow> wg_device option" where
  "flush_packet_crypt_wq C Es wg =
     do {
       wg1 \<leftarrow> wg_packet_encrypt_worker C Es wg;
       wg2 \<leftarrow> wg_packet_decrypt_worker C Es wg1;
       flush_tx_works Es [0..<next_peer wg2] wg2
     }"

fun flush_handshake_send_wq :: "crypto \<Rightarrow> (nat \<Rightarrow> wg_env) \<Rightarrow> nat list \<Rightarrow> wg_device \<Rightarrow> wg_device option" where
  "flush_handshake_send_wq C Es [] wg = Some wg"
| "flush_handshake_send_wq C Es (p # ps) wg =
     do {
       wg1 \<leftarrow> (if transmit_handshake_work (works (peers wg p)) then wg_packet_handshake_send_worker C (Es p) p wg else Some wg);
       flush_handshake_send_wq C Es ps (flush_clear_peer_work p wg1)
     }"

definition NAPI_POLL_WEIGHT :: int where [wg_defs]: "NAPI_POLL_WEIGHT = 64"

text \<open>A poll that is scheduled when polling is disabled runs once; afterwards none can be scheduled.\<close>

definition disable_napi :: "(nat \<Rightarrow> wg_env) \<Rightarrow> nat \<Rightarrow> wg_device \<Rightarrow> wg_device" where
  "disable_napi Es p wg =
     upd_works p (\<lambda>w. w\<lparr>napi_scheduled := False\<rparr>)
       (if napi_scheduled (works (peers wg p)) then snd (wg_packet_rx_poll Es p NAPI_POLL_WEIGHT wg) else wg)"

section \<open>Removal\<close>

definition peer_make_dead :: "nat \<Rightarrow> wg_device \<Rightarrow> wg_device" where
  "peer_make_dead p wg =
     upd_peer p (\<lambda>peer. peer\<lparr>is_dead := True\<rparr>)
       (wg\<lparr>peer_list := remove1 p (peer_list wg),
          peer_allowedips := wg_allowedips_remove_by_peer (peer_allowedips wg) p,
          peer_hashtable := wg_pubkey_hashtable_remove (peer_hashtable wg) p\<rparr>)"

text \<open>The first argument of the environments is the number of the wait.\<close>

definition peer_remove_after_dead :: "crypto \<Rightarrow> (nat \<Rightarrow> nat \<Rightarrow> wg_env) \<Rightarrow> nat \<Rightarrow> wg_device \<Rightarrow> wg_device option" where
  "peer_remove_after_dead C Es p wg =
     do {
       wg1 \<leftarrow> flush_packet_crypt_wq C (Es 0) (wg_timers_stop p (wg_noise_keypairs_clear p wg));
       wg2 \<leftarrow> flush_packet_crypt_wq C (Es 1) wg1;
       wg3 \<leftarrow> Some (disable_napi (Es 2) p wg2);
       wg4 \<leftarrow> flush_handshake_send_wq C (Es 3) [0..<next_peer wg3] wg3;
       Some (wg_peer_put (Some p) (wg4\<lparr>num_peers := num_peers wg4 - 1\<rparr>))
     }"

definition wg_peer_remove :: "crypto \<Rightarrow> (nat \<Rightarrow> nat \<Rightarrow> wg_env) \<Rightarrow> nat option \<Rightarrow> wg_device \<Rightarrow> wg_device option" where
  "wg_peer_remove C Es peer wg =
     (case peer of
        None \<Rightarrow> Some wg
      | Some p \<Rightarrow> peer_remove_after_dead C Es p (peer_make_dead p wg))"

fun remove_dead_peers :: "crypto \<Rightarrow> (nat \<Rightarrow> nat \<Rightarrow> nat \<Rightarrow> wg_env) \<Rightarrow> nat list \<Rightarrow> wg_device \<Rightarrow> wg_device option" where
  "remove_dead_peers C Ess [] wg = Some wg"
| "remove_dead_peers C Ess (p # ps) wg = peer_remove_after_dead C (Ess p) p wg \<bind> remove_dead_peers C Ess ps"

definition wg_peer_remove_all :: "crypto \<Rightarrow> (nat \<Rightarrow> nat \<Rightarrow> nat \<Rightarrow> wg_env) \<Rightarrow> wg_device \<Rightarrow> wg_device option" where
  "wg_peer_remove_all C Ess wg =
     (let wg1 = wg\<lparr>peer_allowedips := wg_allowedips_free (peer_allowedips wg)\<rparr>;
          dead_peers = peer_list wg1
      in remove_dead_peers C Ess dead_peers (fold peer_make_dead dead_peers wg1))"

text \<open>What is left of a peer after the grace period that follows the release: nothing.\<close>

definition rcu_release :: "nat \<Rightarrow> wg_device \<Rightarrow> wg_device" where
  "rcu_release p wg =
     upd_peer p (\<lambda>peer. \<lparr>tx_queue = zero_queue, rx_queue = zero_queue, staged_packet_queue = [], serial_work_cpu = 0,
       is_dead = False, keypairs = \<lparr>current_keypair = None, previous_keypair = None, next_keypair = None\<rparr>,
       endpoint = zero_endpoint, endpoint_cache = None,
       handshake = (handshake peer)\<lparr>hs_state := HANDSHAKE_ZEROED, last_initiation_consumption := 0,
         ephemeral_private := zero_bytes NOISE_PUBLIC_KEY_LEN, remote_static := zero_bytes NOISE_PUBLIC_KEY_LEN,
         remote_ephemeral := zero_bytes NOISE_PUBLIC_KEY_LEN, precomputed_static_static := zero_bytes NOISE_PUBLIC_KEY_LEN,
         preshared_key := zero_bytes NOISE_SYMMETRIC_KEY_LEN, hs_hash := zero_bytes NOISE_HASH_LEN,
         hs_chaining_key := zero_bytes NOISE_HASH_LEN, latest_timestamp := zero_bytes NOISE_TIMESTAMP_LEN, hs_remote_index := 0\<rparr>,
       last_sent_handshake = 0,
       works = \<lparr>transmit_handshake_work = False, clear_peer_work = False, transmit_packet_work = False, napi_scheduled = False\<rparr>,
       latest_cookie = wg_cookie_init, rx_bytes = 0, tx_bytes = 0, timers = no_timers, timer_handshake_attempts = 0,
       persistent_keepalive_interval = 0, timer_need_another_keepalive = False, sent_lastminute_handshake = False,
       walltime_last_handshake = (0, 0), peer_refcount = 0, internal_id = 0\<rparr>) wg"

end
