(* ===== verification/Device.thy ===== *)
theory Device
  imports Peer
begin

text \<open>
  The interface (\<^verbatim>\<open>device.c\<close>) and the module (\<^verbatim>\<open>main.c\<close>): bringing the interface up and down, sending a
  packet through it, the notifications about suspend and about copied machines, its creation with the
  undoing of a creation that fails, and its destruction. Settings of the network stack, such as
  the ones about redirects and address generation when the interface comes up, are not part of the state.
\<close>

section \<open>Up and down\<close>

definition open_peer :: "wg_env \<Rightarrow> nat \<Rightarrow> wg_device \<Rightarrow> wg_device" where
  "open_peer E p wg =
     (let wg1 = wg_packet_send_staged_packets E p wg in
      if persistent_keepalive_interval (peers wg1 p) \<noteq> 0 then wg_packet_send_keepalive E p wg1 else wg1)"

definition wg_open :: "(nat \<Rightarrow> wg_env) \<Rightarrow> sock_env \<Rightarrow> wg_device \<Rightarrow> errno option \<times> wg_device" where
  "wg_open Es S wg =
     (case wg_socket_init S (incoming_port wg) wg of
        (Some e, wg1) \<Rightarrow> (Some e, wg1)
      | (None, wg1) \<Rightarrow> (None, fold (\<lambda>p. open_peer (Es p) p) (peer_list wg1) wg1))"

definition stop_peer :: "wg_env \<Rightarrow> nat \<Rightarrow> wg_device \<Rightarrow> wg_device" where
  "stop_peer E p wg =
     (let wg1 = wg_timers_stop p (wg_packet_purge_staged_packets p wg);
          wg2 = wg_noise_keypairs_clear p (wg_noise_handshake_clear p wg1)
      in upd_peer p (wg_noise_reset_last_sent_handshake E) wg2)"

text \<open>The loop over the handshake queue leaves it empty.\<close>

definition wg_stop :: "wg_env \<Rightarrow> wg_device \<Rightarrow> wg_device" where
  "wg_stop E wg =
     (let wg1 = fold (stop_peer E) (peer_list wg) wg;
          wg2 = upd_queues (\<lambda>q. q\<lparr>handshake_queue := (handshake_queue q)\<lparr>cq_ring := []\<rparr>\<rparr>) wg1
      in wg_socket_reinit None None (wg2\<lparr>handshake_queue_len := 0\<rparr>))"

section \<open>Notifications\<close>

datatype pm_action = PM_HIBERNATION_PREPARE | PM_SUSPEND_PREPARE | PM_OTHER

definition suspend_peer :: "nat \<Rightarrow> wg_device \<Rightarrow> wg_device" where
  "suspend_peer p wg =
     wg_noise_keypairs_clear p (wg_noise_handshake_clear p (timer_delete timer_zero_key_material_update p wg))"

definition wg_pm_notification :: "bool \<Rightarrow> pm_action \<Rightarrow> wg_device list \<Rightarrow> wg_device list" where
  "wg_pm_notification autosleep action device_list =
     (if autosleep then device_list
      else if action \<noteq> PM_HIBERNATION_PREPARE \<and> action \<noteq> PM_SUSPEND_PREPARE then device_list
      else map (\<lambda>wg. fold suspend_peer (peer_list wg) wg) device_list)"

definition wg_vm_notification :: "wg_env \<Rightarrow> wg_device list \<Rightarrow> wg_device list" where
  "wg_vm_notification E device_list =
     map (\<lambda>wg. fold (wg_noise_expire_current_peer_keypairs E) (peer_list wg) wg) device_list"

definition wg_netns_exit_rtnl :: "u64 \<Rightarrow> wg_device list \<Rightarrow> wg_device list" where
  "wg_netns_exit_rtnl net device_list =
     map (\<lambda>wg. if creating_net wg = Some net then
                 let wg1 = wg_socket_reinit None None (wg\<lparr>creating_net := None\<rparr>)
                 in fold wg_socket_clear_peer_endpoint_src (peer_list wg1) wg1
               else wg) device_list"

section \<open>Sending a packet\<close>

text \<open>
  What the stack says about the packet: the maximum size on its route, if it has one, its segments, if
  it is to be segmented, and which of them could be unshared.
\<close>

record xmit_env =
  xe_dst_mtu :: "u32 option"
  xe_gso_segment :: "(errno + skb list) option"
  xe_share_ok :: "skb \<Rightarrow> bool"

definition routed_dst :: "skb \<Rightarrow> wg_device \<Rightarrow> nat option" where
  "routed_dst skb wg =
     (case wg_allowedips_lookup_dst [(peer_allowedips wg, peer_alive wg)] (skb_protocol skb) (network_header skb) of
        None \<Rightarrow> None
      | Some q \<Rightarrow> q)"

definition xmit_err :: "wg_device \<Rightarrow> wg_device" where
  "xmit_err wg = wg\<lparr>outputs := (outputs wg)\<lparr>tx_errors := tx_errors (outputs wg) + 1\<rparr>\<rparr>"

definition xmit_err_icmp :: "skb \<Rightarrow> wg_device \<Rightarrow> wg_device" where
  "xmit_err_icmp skb wg =
     xmit_err
       (if skb_protocol skb = ETH_P_IP \<or> skb_protocol skb = ETH_P_IPV6 then
          wg\<lparr>outputs := (outputs wg)\<lparr>icmp_sent := icmp_sent (outputs wg) @ [(skb_protocol skb, network_header skb)]\<rparr>\<rparr>
        else wg)"

text \<open>The oldest packets are dropped until the queue is small again; the second number counts them.\<close>

fun drop_oldest :: "skb list \<Rightarrow> nat \<Rightarrow> skb list \<times> nat" where
  "drop_oldest [] n = ([], n)"
| "drop_oldest (skb # q) n =
     (if MAX_STAGED_PACKETS < length (skb # q) then drop_oldest q (n + 1) else (skb # q, n))"

definition stage_packets :: "nat \<Rightarrow> skb list \<Rightarrow> wg_device \<Rightarrow> wg_device" where
  "stage_packets p ss wg =
     (let (q, n) = drop_oldest (staged_packet_queue (peers wg p)) 0
      in upd_peer p (\<lambda>peer. peer\<lparr>staged_packet_queue := q @ ss\<rparr>)
           (wg\<lparr>outputs := (outputs wg)\<lparr>tx_dropped := tx_dropped (outputs wg) + n\<rparr>\<rparr>))"

definition has_endpoint :: "wg_peer \<Rightarrow> bool" where
  "has_endpoint peer \<longleftrightarrow> (case ep_addr (endpoint peer) of AF_INET_addr _ _ \<Rightarrow> True | AF_INET6_addr _ _ _ _ \<Rightarrow> True | AF_UNSPEC_addr \<Rightarrow> False)"

definition wg_xmit :: "wg_env \<Rightarrow> xmit_env \<Rightarrow> skb \<Rightarrow> wg_device \<Rightarrow> errno option \<times> wg_device" where
  "wg_xmit E X skb wg =
     (if \<not> wg_check_packet_protocol E skb then (Some EPROTONOSUPPORT, xmit_err wg)
      else
        case routed_dst skb wg of
          None \<Rightarrow> (Some ENOKEY, xmit_err_icmp skb wg)
        | Some p \<Rightarrow>
            let wg1 = wg_peer_get p wg in
            if \<not> has_endpoint (peers wg1 p) then (Some EDESTADDRREQ, xmit_err_icmp skb (wg_peer_put (Some p) wg1))
            else
              let mtu = (case xe_dst_mtu X of None \<Rightarrow> dev_mtu wg1 | Some m \<Rightarrow> m) in
              case (case xe_gso_segment X of None \<Rightarrow> Inr [skb] | Some r \<Rightarrow> r) of
                Inl e \<Rightarrow> (Some e, xmit_err_icmp skb (wg_peer_put (Some p) wg1))
              | Inr segs \<Rightarrow>
                  let ss = map (\<lambda>s. s\<lparr>cb_mtu := mtu\<rparr>) (filter (xe_share_ok X) segs)
                  in (None, wg_peer_put (Some p) (wg_packet_send_staged_packets E p (stage_packets p ss wg1))))"

section \<open>Creation\<close>

definition ETH_DATA_LEN :: nat where [wg_defs]: "ETH_DATA_LEN = 1500"
definition INT_MAX :: nat where [wg_defs]: "INT_MAX = 2 ^ 31 - 1"

definition wg_overhead :: nat where [wg_defs]:
  "wg_overhead = MESSAGE_MINIMUM_LENGTH + sizeof_udphdr + max sizeof_ipv6hdr sizeof_iphdr"

definition wg_max_mtu :: nat where [wg_defs]:
  "wg_max_mtu = INT_MAX div MESSAGE_PADDING_MULTIPLE * MESSAGE_PADDING_MULTIPLE - wg_overhead"

definition wg_setup :: "wg_device \<Rightarrow> wg_device" where
  "wg_setup wg = wg\<lparr>dev_mtu := of_nat (ETH_DATA_LEN - wg_overhead)\<rparr>"

text \<open>What a device obtains when it is created, in this order.\<close>

datatype resource =
    PEER_HASHTABLE | INDEX_HASHTABLE | HANDSHAKE_RECEIVE_WQ | HANDSHAKE_SEND_WQ | PACKET_CRYPT_WQ
  | ENCRYPT_QUEUE | DECRYPT_QUEUE | HANDSHAKE_QUEUE | RATELIMITER | NETDEVICE

text \<open>The outcome of the allocations, and of the registration of the interface.\<close>

record link_env =
  le_net :: u64
  le_siphash :: "bytes \<Rightarrow> u64"
  le_alloc_ok :: "resource \<Rightarrow> bool"
  le_worker_ok :: "resource \<Rightarrow> bool"
  le_limiter_ok :: "bool \<times> bool \<times> bool"
  le_pages :: nat
  le_hsiphash2 :: "u32 \<Rightarrow> u32 \<Rightarrow> u32"
  le_hsiphash3 :: "u32 \<Rightarrow> u32 \<Rightarrow> u32 \<Rightarrow> u32"
  le_register_netdevice :: "errno option"

type_synonym link_state = "resource list \<times> wg_device"

definition link_free :: "resource \<Rightarrow> link_state \<Rightarrow> link_state" where
  "link_free r s = (removeAll r (fst s), snd s)"

definition link_take :: "resource \<Rightarrow> link_state \<Rightarrow> link_state" where
  "link_take r s = (fst s @ [r], snd s)"

text \<open>The labels of the error path; each falls through to the next.\<close>

definition err_free_peer_hashtable :: "errno \<Rightarrow> link_state \<Rightarrow> errno option \<times> link_state" where
  "err_free_peer_hashtable ret s = (Some ret, link_free PEER_HASHTABLE s)"

definition err_free_index_hashtable :: "errno \<Rightarrow> link_state \<Rightarrow> errno option \<times> link_state" where
  "err_free_index_hashtable ret s = err_free_peer_hashtable ret (link_free INDEX_HASHTABLE s)"

definition err_destroy_handshake_receive :: "errno \<Rightarrow> link_state \<Rightarrow> errno option \<times> link_state" where
  "err_destroy_handshake_receive ret s = err_free_index_hashtable ret (link_free HANDSHAKE_RECEIVE_WQ s)"

definition err_destroy_handshake_send :: "errno \<Rightarrow> link_state \<Rightarrow> errno option \<times> link_state" where
  "err_destroy_handshake_send ret s = err_destroy_handshake_receive ret (link_free HANDSHAKE_SEND_WQ s)"

definition err_destroy_packet_crypt :: "errno \<Rightarrow> link_state \<Rightarrow> errno option \<times> link_state" where
  "err_destroy_packet_crypt ret s = err_destroy_handshake_send ret (link_free PACKET_CRYPT_WQ s)"

definition err_free_encrypt_queue :: "errno \<Rightarrow> link_state \<Rightarrow> errno option \<times> link_state" where
  "err_free_encrypt_queue ret s = err_destroy_packet_crypt ret (link_free ENCRYPT_QUEUE s)"

definition err_free_decrypt_queue :: "errno \<Rightarrow> link_state \<Rightarrow> errno option \<times> link_state" where
  "err_free_decrypt_queue ret s = err_free_encrypt_queue ret (link_free DECRYPT_QUEUE s)"

definition err_free_handshake_queue :: "errno \<Rightarrow> link_state \<Rightarrow> errno option \<times> link_state" where
  "err_free_handshake_queue ret s = err_free_decrypt_queue ret (link_free HANDSHAKE_QUEUE s)"

definition err_uninit_ratelimiter :: "wg_env \<Rightarrow> errno \<Rightarrow> link_state \<Rightarrow> errno option \<times> link_state" where
  "err_uninit_ratelimiter E ret s =
     err_free_handshake_queue ret
       (link_free RATELIMITER (apsnd (\<lambda>wg. wg\<lparr>limiter := wg_ratelimiter_uninit (boottime_ns E) (limiter wg)\<rparr>) s))"

lemmas link_err_defs = err_free_peer_hashtable_def err_free_index_hashtable_def err_destroy_handshake_receive_def
  err_destroy_handshake_send_def err_destroy_packet_crypt_def err_free_encrypt_queue_def err_free_decrypt_queue_def
  err_free_handshake_queue_def err_uninit_ratelimiter_def link_free_def link_take_def

definition link_init :: "wg_env \<Rightarrow> link_env \<Rightarrow> wg_device \<Rightarrow> wg_device" where
  "link_init E L wg =
     wg\<lparr>creating_net := Some (le_net L), peer_allowedips := wg_allowedips_init (peer_allowedips wg),
       checker := wg_cookie_checker_init E (checker wg), peer_list := [], device_update_gen := 1\<rparr>"

text \<open>From the registration of the interface on, and from the creation of the queues on.\<close>

definition newlink_register :: "wg_env \<Rightarrow> link_env \<Rightarrow> link_state \<Rightarrow> errno option \<times> link_state" where
  "newlink_register E L s =
     (case le_register_netdevice L of
        Some e \<Rightarrow> err_uninit_ratelimiter E e s
      | None \<Rightarrow> (None, link_take NETDEVICE s))"

definition newlink_ratelimiter :: "wg_env \<Rightarrow> link_env \<Rightarrow> link_state \<Rightarrow> errno option \<times> link_state" where
  "newlink_ratelimiter E L s =
     (case wg_ratelimiter_init (le_limiter_ok L) (le_pages L) (le_hsiphash2 L) (le_hsiphash3 L) (limiter (snd s)) of
        (Inl e, rl) \<Rightarrow> err_free_handshake_queue e (apsnd (\<lambda>wg. wg\<lparr>limiter := rl\<rparr>) s)
      | (Inr _, rl) \<Rightarrow> newlink_register E L (link_take RATELIMITER (apsnd (\<lambda>wg. wg\<lparr>limiter := rl\<rparr>) s)))"

definition newlink_queues :: "wg_env \<Rightarrow> link_env \<Rightarrow> link_state \<Rightarrow> errno option \<times> link_state" where
  "newlink_queues E L s =
     (case wg_packet_queue_init (le_alloc_ok L ENCRYPT_QUEUE) (le_worker_ok L ENCRYPT_QUEUE) MAX_QUEUED_PACKETS of
        Inl e \<Rightarrow> err_destroy_packet_crypt e s
      | Inr q1 \<Rightarrow>
          let s1 = link_take ENCRYPT_QUEUE (apsnd (upd_queues (\<lambda>q. q\<lparr>encrypt_queue := q1\<rparr>)) s) in
          (case wg_packet_queue_init (le_alloc_ok L DECRYPT_QUEUE) (le_worker_ok L DECRYPT_QUEUE) MAX_QUEUED_PACKETS of
             Inl e \<Rightarrow> err_free_encrypt_queue e s1
           | Inr q2 \<Rightarrow>
               let s2 = link_take DECRYPT_QUEUE (apsnd (upd_queues (\<lambda>q. q\<lparr>decrypt_queue := q2\<rparr>)) s1) in
               (case wg_packet_queue_init (le_alloc_ok L HANDSHAKE_QUEUE) (le_worker_ok L HANDSHAKE_QUEUE)
                       MAX_QUEUED_INCOMING_HANDSHAKES of
                  Inl e \<Rightarrow> err_free_decrypt_queue e s2
                | Inr q3 \<Rightarrow>
                    newlink_ratelimiter E L
                      (link_take HANDSHAKE_QUEUE (apsnd (upd_queues (\<lambda>q. q\<lparr>handshake_queue := q3\<rparr>)) s2)))))"

definition wg_newlink :: "wg_env \<Rightarrow> link_env \<Rightarrow> wg_device \<Rightarrow> errno option \<times> link_state" where
  "wg_newlink E L wg =
     (let wg1 = link_init E L wg in
      case wg_pubkey_hashtable_alloc (le_alloc_ok L PEER_HASHTABLE) (le_siphash L) of
        None \<Rightarrow> (Some ENOMEM, [], wg1)
      | Some ht \<Rightarrow>
          let s1 = link_take PEER_HASHTABLE ([], wg1\<lparr>peer_hashtable := ht\<rparr>) in
          (case wg_index_hashtable_alloc (le_alloc_ok L INDEX_HASHTABLE) of
             None \<Rightarrow> err_free_peer_hashtable ENOMEM s1
           | Some it \<Rightarrow>
               let s2 = link_take INDEX_HASHTABLE (apsnd (\<lambda>wg. wg\<lparr>index_table := it\<rparr>) s1) in
               if \<not> le_alloc_ok L HANDSHAKE_RECEIVE_WQ then err_free_index_hashtable ENOMEM s2
               else
                 let s3 = link_take HANDSHAKE_RECEIVE_WQ s2 in
                 if \<not> le_alloc_ok L HANDSHAKE_SEND_WQ then err_destroy_handshake_receive ENOMEM s3
                 else
                   let s4 = link_take HANDSHAKE_SEND_WQ s3 in
                   if \<not> le_alloc_ok L PACKET_CRYPT_WQ then err_destroy_handshake_send ENOMEM s4
                   else newlink_queues E L (link_take PACKET_CRYPT_WQ s4)))"

section \<open>Destruction\<close>

definition wg_packet_queue_free :: "'a crypt_queue \<Rightarrow> 'a crypt_queue" where
  "wg_packet_queue_free q = q\<lparr>cq_ring := [], cq_work := {}\<rparr>"

text \<open>Destroying a workqueue runs what is still queued on it.\<close>

definition wg_destruct :: "crypto \<Rightarrow> (nat \<Rightarrow> nat \<Rightarrow> nat \<Rightarrow> wg_env) \<Rightarrow> (nat \<Rightarrow> nat \<Rightarrow> wg_env) \<Rightarrow> wg_device \<Rightarrow> wg_device option" where
  "wg_destruct C Ess Es wg =
     do {
       wg1 \<leftarrow> wg_peer_remove_all C Ess (wg_socket_reinit None None (wg\<lparr>creating_net := None, incoming_port := 0\<rparr>));
       received \<leftarrow> wg_packet_handshake_receive_worker C (Es 0) wg1;
       wg2 \<leftarrow> received;
       wg3 \<leftarrow> flush_handshake_send_wq C (Es 1) [0..<next_peer wg2] wg2;
       wg4 \<leftarrow> flush_packet_crypt_wq C (Es 2) wg3;
       wg5 \<leftarrow> Some (upd_queues (\<lambda>q. q\<lparr>handshake_queue := wg_packet_queue_free (handshake_queue q),
                decrypt_queue := wg_packet_queue_free (decrypt_queue q), encrypt_queue := wg_packet_queue_free (encrypt_queue q)\<rparr>) wg4);
       Some (wg5\<lparr>limiter := wg_ratelimiter_uninit (boottime_ns (Es 3 0)) (limiter wg5),
         static_identity := \<lparr>static_public = zero_bytes NOISE_PUBLIC_KEY_LEN, static_private = zero_bytes NOISE_PUBLIC_KEY_LEN,
           has_identity = False\<rparr>\<rparr>)
     }"

section \<open>The module\<close>

datatype registration = PM_NOTIFIER | VM_NOTIFIER | PERNET_DEVICE | LINK_OPS | PEER_CACHE | ALLOWEDIPS_SLAB | GENL_FAMILY

text \<open>What is registered, oldest first; the argument gives the error of each registration, if it fails.\<close>

definition wg_device_uninit :: "registration list \<Rightarrow> registration list" where
  "wg_device_uninit regs = removeAll PM_NOTIFIER (removeAll VM_NOTIFIER (removeAll PERNET_DEVICE (removeAll LINK_OPS regs)))"

definition wg_device_init :: "(registration \<Rightarrow> errno option) \<Rightarrow> registration list \<Rightarrow> errno option \<times> registration list" where
  "wg_device_init fails regs =
     (let error_pm = (\<lambda>regs. removeAll PM_NOTIFIER regs);
          error_vm = (\<lambda>regs. error_pm (removeAll VM_NOTIFIER regs));
          error_pernet = (\<lambda>regs. error_vm (removeAll PERNET_DEVICE regs))
      in case fails PM_NOTIFIER of
           Some e \<Rightarrow> (Some e, regs)
         | None \<Rightarrow>
             let regs1 = regs @ [PM_NOTIFIER] in
             (case fails VM_NOTIFIER of
                Some e \<Rightarrow> (Some e, error_pm regs1)
              | None \<Rightarrow>
                  let regs2 = regs1 @ [VM_NOTIFIER] in
                  (case fails PERNET_DEVICE of
                     Some e \<Rightarrow> (Some e, error_vm regs2)
                   | None \<Rightarrow>
                       let regs3 = regs2 @ [PERNET_DEVICE] in
                       (case fails LINK_OPS of
                          Some e \<Rightarrow> (Some e, error_pernet regs3)
                        | None \<Rightarrow> (None, regs3 @ [LINK_OPS])))))"

definition wg_mod_init :: "(registration \<Rightarrow> errno option) \<Rightarrow> registration list \<Rightarrow> errno option \<times> registration list" where
  "wg_mod_init fails regs =
     (let err_peer = (\<lambda>regs. removeAll ALLOWEDIPS_SLAB regs);
          err_device = (\<lambda>regs. err_peer (removeAll PEER_CACHE regs));
          err_netlink = (\<lambda>regs. err_device (wg_device_uninit regs))
      in case fails ALLOWEDIPS_SLAB of
           Some e \<Rightarrow> (Some e, regs)
         | None \<Rightarrow>
             let regs1 = regs @ [ALLOWEDIPS_SLAB] in
             (case fails PEER_CACHE of
                Some e \<Rightarrow> (Some e, err_peer regs1)
              | None \<Rightarrow>
                  (case wg_device_init fails (regs1 @ [PEER_CACHE]) of
                     (Some e, regs2) \<Rightarrow> (Some e, err_device regs2)
                   | (None, regs2) \<Rightarrow>
                       (case fails GENL_FAMILY of
                          Some e \<Rightarrow> (Some e, err_netlink regs2)
                        | None \<Rightarrow> (None, regs2 @ [GENL_FAMILY])))))"

definition wg_mod_exit :: "registration list \<Rightarrow> registration list" where
  "wg_mod_exit regs =
     removeAll ALLOWEDIPS_SLAB (removeAll PEER_CACHE (wg_device_uninit (removeAll GENL_FAMILY regs)))"

end
