(* ===== verification/Netlink.thy ===== *)
theory Netlink
  imports Device
begin

text \<open>
  Configuration through netlink (\<^verbatim>\<open>netlink.c\<close>): a request is the attributes that the kernel has parsed
  from a message, each present or not; a dump fills messages that have a limited size. The flag
  words of the interface are sets of flags.
\<close>

section \<open>Requests\<close>

datatype allowedip_flag = WGALLOWEDIP_F_REMOVE_ME
datatype peer_flag = WGPEER_F_REMOVE_ME | WGPEER_F_REPLACE_ALLOWEDIPS | WGPEER_F_UPDATE_ONLY
datatype device_flag = WGDEVICE_F_REPLACE_PEERS

text \<open>An address family other than the two known ones is \<open>None\<close>.\<close>

record allowedip_attrs =
  aa_family :: "family option option"
  aa_ipaddr :: "bytes option"
  aa_cidr_mask :: "u8 option"
  aa_flags :: "allowedip_flag set option"

text \<open>An endpoint whose length does not fit its family is \<open>AF_UNSPEC_addr\<close>; a nested attribute may fail to parse.\<close>

record peer_attrs =
  pa_public_key :: "bytes option"
  pa_preshared_key :: "bytes option"
  pa_flags :: "peer_flag set option"
  pa_protocol_version :: "u32 option"
  pa_endpoint :: "sockaddr option"
  pa_allowedips :: "(errno + allowedip_attrs) list option"
  pa_persistent_keepalive_interval :: "u16 option"

record device_attrs =
  da_ifindex :: "u32 option"
  da_ifname :: "string option"
  da_flags :: "device_flag set option"
  da_listen_port :: "u16 option"
  da_fwmark :: "u32 option"
  da_private_key :: "bytes option"
  da_peers :: "(errno + peer_attrs) list option"

text \<open>What a request obtains from outside: the environment, the ones in which removals wait, and outcomes.\<close>

record nl_env =
  ne_env :: wg_env
  ne_waits :: "nat \<Rightarrow> nat \<Rightarrow> nat \<Rightarrow> wg_env"
  ne_sock :: sock_env
  ne_dst_cache_ok :: bool
  ne_node_ok :: "nat \<Rightarrow> bool \<times> bool"
  ne_capable :: "u64 \<Rightarrow> bool"

text \<open>An interface is found by its number or by its name, exactly one of which is given; its kind is known.\<close>

record net_device =
  nd_kind :: "string option"
  nd_device :: nat

definition lookup_interface :: "(u32 \<Rightarrow> net_device option) \<Rightarrow> (string \<Rightarrow> net_device option) \<Rightarrow> device_attrs \<Rightarrow> errno + nat" where
  "lookup_interface by_index by_name attrs =
     (if (da_ifindex attrs = None) = (da_ifname attrs = None) then Inl EBADR
      else
        let dev = (case da_ifindex attrs of Some i \<Rightarrow> by_index i | None \<Rightarrow> by_name (the (da_ifname attrs))) in
        case dev of
          None \<Rightarrow> Inl ENODEV
        | Some d \<Rightarrow> if nd_kind d \<noteq> Some ''wireguard'' then Inl EOPNOTSUPP else Inr (nd_device d))"

section \<open>Changing the configuration\<close>

definition clear_all_srcs :: "wg_device \<Rightarrow> wg_device" where
  "clear_all_srcs wg = fold wg_socket_clear_peer_endpoint_src (peer_list wg) wg"

definition set_port :: "sock_env \<Rightarrow> u16 \<Rightarrow> wg_device \<Rightarrow> errno option \<times> wg_device" where
  "set_port S port wg =
     (if incoming_port wg = port then (None, wg)
      else
        let wg1 = clear_all_srcs wg in
        if \<not> netif_running wg1 then (None, wg1\<lparr>incoming_port := port\<rparr>) else wg_socket_init S port wg1)"

definition set_allowedip :: "bool \<times> bool \<Rightarrow> nat \<Rightarrow> allowedip_attrs \<Rightarrow> wg_device \<Rightarrow> errno option \<times> wg_device" where
  "set_allowedip ok p attrs wg =
     (case (aa_family attrs, aa_ipaddr attrs, aa_cidr_mask attrs) of
        (Some fam, Some ip, Some cidr) \<Rightarrow>
          let flags = (case aa_flags attrs of None \<Rightarrow> {} | Some f \<Rightarrow> f);
              table = peer_allowedips wg;
              (ret, table1) =
                (if fam = Some AF_INET \<and> cidr \<le> 32 \<and> length ip = 4 then
                   if WGALLOWEDIP_F_REMOVE_ME \<in> flags then wg_allowedips_remove_v4 table ip (unat cidr) p
                   else wg_allowedips_insert_v4 (fst ok) (snd ok) table ip (unat cidr) (Some p)
                 else if fam = Some AF_INET6 \<and> cidr \<le> 128 \<and> length ip = 16 then
                   if WGALLOWEDIP_F_REMOVE_ME \<in> flags then wg_allowedips_remove_v6 table ip (unat cidr) p
                   else wg_allowedips_insert_v6 (fst ok) (snd ok) table ip (unat cidr) (Some p)
                 else (Some EINVAL, table))
          in (ret, wg\<lparr>peer_allowedips := table1\<rparr>)
      | _ \<Rightarrow> (Some EINVAL, wg))"

fun set_allowedips :: "(nat \<Rightarrow> bool \<times> bool) \<Rightarrow> nat \<Rightarrow> nat \<Rightarrow> (errno + allowedip_attrs) list \<Rightarrow> wg_device \<Rightarrow> errno option \<times> wg_device" where
  "set_allowedips ok i p [] wg = (None, wg)"
| "set_allowedips ok i p (Inl e # as) wg = (Some e, wg)"
| "set_allowedips ok i p (Inr a # as) wg =
     (case set_allowedip (ok i) p a wg of
        (Some e, wg1) \<Rightarrow> (Some e, wg1)
      | (None, wg1) \<Rightarrow> set_allowedips ok (i + 1) p as wg1)"

text \<open>The peer with the key, or a new one; a result \<open>Inl\<close> ends the request with this return value.\<close>

definition find_or_create ::
  "crypto \<Rightarrow> nl_env \<Rightarrow> bytes \<Rightarrow> bytes option \<Rightarrow> peer_flag set \<Rightarrow> wg_device \<Rightarrow> (errno option + nat \<times> peer_flag set) \<times> wg_device" where
  "find_or_create C N public_key psk flags wg =
     (case wg_pubkey_hashtable_lookup (peer_keys wg) (peer_alive wg) (peer_hashtable wg) public_key of
        Some p \<Rightarrow> (Inr (p, flags), wg_peer_get p wg)
      | None \<Rightarrow>
          if WGPEER_F_REMOVE_ME \<in> flags \<or> WGPEER_F_UPDATE_ONLY \<in> flags then (Inl None, wg)
          else if has_identity (static_identity wg) \<and> public_key = static_public (static_identity wg) then (Inl None, wg)
          else
            (case wg_peer_create C (ne_env N) (ne_dst_cache_ok N) public_key psk wg of
               (Inl e, wg1) \<Rightarrow> (Inl (Some e), wg1)
             | (Inr p, wg1) \<Rightarrow> (Inr (p, flags - {WGPEER_F_REPLACE_ALLOWEDIPS}), wg_peer_get p wg1)))"

definition set_keepalive :: "wg_env \<Rightarrow> nat \<Rightarrow> u16 option \<Rightarrow> wg_device \<Rightarrow> wg_device" where
  "set_keepalive E p interval wg =
     (case interval of
        None \<Rightarrow> wg
      | Some i \<Rightarrow>
          let send_keepalive = (persistent_keepalive_interval (peers wg p) = 0 \<and> i \<noteq> 0 \<and> netif_running wg);
              wg1 = upd_peer p (\<lambda>peer. peer\<lparr>persistent_keepalive_interval := i\<rparr>) wg
          in if send_keepalive then wg_packet_send_keepalive E p wg1 else wg1)"

definition configure_peer :: "nl_env \<Rightarrow> nat \<Rightarrow> bytes option \<Rightarrow> peer_flag set \<Rightarrow> peer_attrs \<Rightarrow> wg_device \<Rightarrow> errno option \<times> wg_device" where
  "configure_peer N p psk flags attrs wg =
     (let wg1 = (case psk of None \<Rightarrow> wg | Some k \<Rightarrow> upd_handshake p (\<lambda>hs. hs\<lparr>preshared_key := k\<rparr>) wg);
          wg2 = (case pa_endpoint attrs of
                   None \<Rightarrow> wg1
                 | Some addr \<Rightarrow> wg_socket_set_peer_endpoint p (zero_endpoint\<lparr>ep_addr := addr\<rparr>) wg1);
          wg3 = (if WGPEER_F_REPLACE_ALLOWEDIPS \<in> flags
                 then wg2\<lparr>peer_allowedips := wg_allowedips_remove_by_peer (peer_allowedips wg2) p\<rparr> else wg2)
      in case (case pa_allowedips attrs of None \<Rightarrow> (None, wg3) | Some as \<Rightarrow> set_allowedips (ne_node_ok N) 0 p as wg3) of
           (Some e, wg4) \<Rightarrow> (Some e, wg4)
         | (None, wg4) \<Rightarrow>
             let wg5 = set_keepalive (ne_env N) p (pa_persistent_keepalive_interval attrs) wg4
             in (None, if netif_running wg5 then wg_packet_send_staged_packets (ne_env N) p wg5 else wg5))"

definition set_peer :: "crypto \<Rightarrow> nl_env \<Rightarrow> peer_attrs \<Rightarrow> wg_device \<Rightarrow> (errno option \<times> wg_device) option" where
  "set_peer C N attrs wg =
     (case pa_public_key attrs of
        None \<Rightarrow> Some (Some EINVAL, wg)
      | Some public_key \<Rightarrow>
          if length public_key \<noteq> NOISE_PUBLIC_KEY_LEN then Some (Some EINVAL, wg)
          else
            let psk = (case pa_preshared_key attrs of
                         None \<Rightarrow> None
                       | Some k \<Rightarrow> if length k = NOISE_SYMMETRIC_KEY_LEN then Some k else None);
                flags = (case pa_flags attrs of None \<Rightarrow> {} | Some f \<Rightarrow> f)
            in if pa_protocol_version attrs \<noteq> None \<and> pa_protocol_version attrs \<noteq> Some 1 then Some (Some EPFNOSUPPORT, wg)
               else
                 case find_or_create C N public_key psk flags wg of
                   (Inl ret, wg1) \<Rightarrow> Some (ret, wg1)
                 | (Inr (p, flags1), wg1) \<Rightarrow>
                     if WGPEER_F_REMOVE_ME \<in> flags1 then
                       map_option (\<lambda>wg2. (None, wg_peer_put (Some p) wg2)) (wg_peer_remove C (ne_waits N p) (Some p) wg1)
                     else Some (apsnd (wg_peer_put (Some p)) (configure_peer N p psk flags1 attrs wg1)))"

fun set_peers :: "crypto \<Rightarrow> (nat \<Rightarrow> nl_env) \<Rightarrow> nat \<Rightarrow> (errno + peer_attrs) list \<Rightarrow> wg_device \<Rightarrow> (errno option \<times> wg_device) option" where
  "set_peers C Ns i [] wg = Some (None, wg)"
| "set_peers C Ns i (Inl e # ps) wg = Some (Some e, wg)"
| "set_peers C Ns i (Inr a # ps) wg =
     (case set_peer C (Ns i) a wg of
        None \<Rightarrow> None
      | Some (Some e, wg1) \<Rightarrow> Some (Some e, wg1)
      | Some (None, wg1) \<Rightarrow> set_peers C Ns (i + 1) ps wg1)"

text \<open>A peer that has the new public key of the device is removed before the key is set.\<close>

definition remove_own_peer :: "crypto \<Rightarrow> nl_env \<Rightarrow> bytes \<Rightarrow> wg_device \<Rightarrow> wg_device option" where
  "remove_own_peer C N private_key wg =
     (case curve25519_generate_public C private_key of
        None \<Rightarrow> Some wg
      | Some public_key \<Rightarrow>
          (case wg_pubkey_hashtable_lookup (peer_keys wg) (peer_alive wg) (peer_hashtable wg) public_key of
             None \<Rightarrow> Some wg
           | Some p \<Rightarrow> wg_peer_remove C (ne_waits N p) (Some p) (wg_peer_put (Some p) (wg_peer_get p wg))))"

definition rekey_peer :: "crypto \<Rightarrow> wg_env \<Rightarrow> bool \<Rightarrow> nat \<Rightarrow> wg_device \<Rightarrow> wg_device" where
  "rekey_peer C E send_staged_packets p wg =
     (let wg1 = wg_noise_expire_current_peer_keypairs E p (wg_noise_precompute_static_static C p wg)
      in if send_staged_packets then wg_packet_send_staged_packets E p wg1 else wg1)"

definition set_private_key :: "crypto \<Rightarrow> nl_env \<Rightarrow> bytes \<Rightarrow> wg_device \<Rightarrow> wg_device option" where
  "set_private_key C N private_key wg =
     (if static_private (static_identity wg) = private_key then Some wg
      else
        case remove_own_peer C N private_key wg of
          None \<Rightarrow> None
        | Some wg1 \<Rightarrow>
            let was_unset = (\<not> has_identity (static_identity wg1) \<and> netif_running wg1);
                wg2 = wg_noise_set_static_identity_private_key C private_key wg1;
                send_staged_packets = (was_unset \<and> has_identity (static_identity wg2));
                wg3 = wg2\<lparr>checker := wg_cookie_checker_precompute_device_keys C (static_identity wg2) (checker wg2)\<rparr>
            in Some (fold (rekey_peer C (ne_env N) send_staged_packets) (peer_list wg3) wg3))"

definition set_device ::
  "crypto \<Rightarrow> nl_env \<Rightarrow> (nat \<Rightarrow> nl_env) \<Rightarrow> device_attrs \<Rightarrow> wg_device \<Rightarrow> (errno option \<times> wg_device) option" where
  "set_device C N Ns attrs wg =
     (if (da_listen_port attrs \<noteq> None \<or> da_fwmark attrs \<noteq> None) \<and>
         (case creating_net wg of None \<Rightarrow> True | Some net \<Rightarrow> \<not> ne_capable N net) then Some (Some EPERM, wg)
      else
        let flags = (case da_flags attrs of None \<Rightarrow> {} | Some f \<Rightarrow> f);
            wg1 = wg\<lparr>device_update_gen := device_update_gen wg + 1\<rparr>;
            wg2 = (case da_fwmark attrs of None \<Rightarrow> wg1 | Some m \<Rightarrow> clear_all_srcs (wg1\<lparr>fwmark := m\<rparr>))
        in case (case da_listen_port attrs of None \<Rightarrow> (None, wg2) | Some port \<Rightarrow> set_port (ne_sock N) port wg2) of
             (Some e, wg3) \<Rightarrow> Some (Some e, wg3)
           | (None, wg3) \<Rightarrow>
               do {
                 wg4 \<leftarrow> (if WGDEVICE_F_REPLACE_PEERS \<in> flags then wg_peer_remove_all C (ne_waits N) wg3 else Some wg3);
                 wg5 \<leftarrow> (case da_private_key attrs of
                           None \<Rightarrow> Some wg4
                         | Some key \<Rightarrow> if length key = NOISE_PUBLIC_KEY_LEN then set_private_key C N key wg4 else Some wg4);
                 (case da_peers attrs of
                    None \<Rightarrow> Some (None, wg5)
                  | Some ps \<Rightarrow> set_peers C Ns 0 ps wg5)
               })"

text \<open>The request names the device.\<close>

definition wg_set_device_doit ::
  "crypto \<Rightarrow> nl_env \<Rightarrow> (nat \<Rightarrow> nl_env) \<Rightarrow> (u32 \<Rightarrow> net_device option) \<Rightarrow> (string \<Rightarrow> net_device option) \<Rightarrow> device_attrs \<Rightarrow>
    (nat \<Rightarrow> wg_device) \<Rightarrow> (errno option \<times> (nat \<Rightarrow> wg_device)) option" where
  "wg_set_device_doit C N Ns by_index by_name attrs devices =
     (case lookup_interface by_index by_name attrs of
        Inl e \<Rightarrow> Some (Some e, devices)
      | Inr d \<Rightarrow> map_option (\<lambda>(ret, wg). (ret, devices(d := wg))) (set_device C N Ns attrs (devices d)))"

section \<open>Dumps\<close>

text \<open>
  A message: what was put into it, its length and its size. A nested attribute begins with its header
  and ends where \<open>NEST_END\<close> stands.
\<close>

datatype nl_item =
    NL_HEADER u32
  | WGDEVICE_A_LISTEN_PORT u16 | WGDEVICE_A_FWMARK u32 | WGDEVICE_A_IFINDEX u32 | WGDEVICE_A_IFNAME string
  | WGDEVICE_A_PRIVATE_KEY bytes | WGDEVICE_A_PUBLIC_KEY bytes
  | WGPEER_A_PUBLIC_KEY bytes | WGPEER_A_PRESHARED_KEY bytes | WGPEER_A_LAST_HANDSHAKE_TIME "u64 \<times> u32"
  | WGPEER_A_PERSISTENT_KEEPALIVE_INTERVAL u16 | WGPEER_A_TX_BYTES u64 | WGPEER_A_RX_BYTES u64
  | WGPEER_A_PROTOCOL_VERSION u32 | WGPEER_A_ENDPOINT sockaddr
  | WGALLOWEDIP_A_CIDR_MASK nat | WGALLOWEDIP_A_FAMILY family | WGALLOWEDIP_A_IPADDR bytes
  | NEST_PEERS | NEST_PEER | NEST_ALLOWEDIPS | NEST_ALLOWEDIP | NEST_END

fun payload_len :: "nl_item \<Rightarrow> nat" where
  "payload_len (NL_HEADER _) = 16"
| "payload_len (WGDEVICE_A_LISTEN_PORT _) = 2"
| "payload_len (WGDEVICE_A_FWMARK _) = 4"
| "payload_len (WGDEVICE_A_IFINDEX _) = 4"
| "payload_len (WGDEVICE_A_IFNAME s) = length s + 1"
| "payload_len (WGDEVICE_A_PRIVATE_KEY k) = length k"
| "payload_len (WGDEVICE_A_PUBLIC_KEY k) = length k"
| "payload_len (WGPEER_A_PUBLIC_KEY k) = length k"
| "payload_len (WGPEER_A_PRESHARED_KEY k) = length k"
| "payload_len (WGPEER_A_LAST_HANDSHAKE_TIME _) = 16"
| "payload_len (WGPEER_A_PERSISTENT_KEEPALIVE_INTERVAL _) = 2"
| "payload_len (WGPEER_A_TX_BYTES _) = 8"
| "payload_len (WGPEER_A_RX_BYTES _) = 8"
| "payload_len (WGPEER_A_PROTOCOL_VERSION _) = 4"
| "payload_len (WGPEER_A_ENDPOINT a) = (case a of AF_INET6_addr _ _ _ _ \<Rightarrow> 28 | _ \<Rightarrow> 16)"
| "payload_len (WGALLOWEDIP_A_CIDR_MASK _) = 1"
| "payload_len (WGALLOWEDIP_A_FAMILY _) = 2"
| "payload_len (WGALLOWEDIP_A_IPADDR ip) = length ip"
| "payload_len _ = 0"

record nlmsg =
  nl_items :: "nl_item list"
  nl_len :: nat
  nl_size :: nat

text \<open>An attribute has a header of four bytes, and is padded to a multiple of four.\<close>

definition nla_total_size :: "nat \<Rightarrow> nat" where
  "nla_total_size n = (4 + n + 3) div 4 * 4"

definition nla_put :: "nl_item \<Rightarrow> nlmsg \<Rightarrow> nlmsg option" where
  "nla_put i m =
     (let n = nla_total_size (payload_len i) in
      if nl_size m < nl_len m + n then None else Some (m\<lparr>nl_items := nl_items m @ [i], nl_len := nl_len m + n\<rparr>))"

fun nla_puts :: "nl_item list \<Rightarrow> nlmsg \<Rightarrow> nlmsg option" where
  "nla_puts [] m = Some m"
| "nla_puts (i # is) m = nla_put i m \<bind> nla_puts is"

definition nla_nest_end :: "nlmsg \<Rightarrow> nlmsg" where
  "nla_nest_end m = m\<lparr>nl_items := nl_items m @ [NEST_END]\<rparr>"

definition get_allowedips :: "node_id \<Rightarrow> nlmsg \<Rightarrow> nlmsg option" where
  "get_allowedips n m =
     (let (ip, cidr, fam) = wg_allowedips_read_node n in
      map_option nla_nest_end
        (nla_puts [NEST_ALLOWEDIP, WGALLOWEDIP_A_CIDR_MASK cidr, WGALLOWEDIP_A_FAMILY fam, WGALLOWEDIP_A_IPADDR ip] m))"

record dump_ctx =
  ctx_next_peer :: "nat option"
  ctx_allowedips_seq :: u64
  ctx_next_allowedip :: "node_id option"

text \<open>The allowed IPs as far as there is room, and the first that did not fit.\<close>

fun put_allowedips :: "node_id list \<Rightarrow> nlmsg \<Rightarrow> node_id option \<times> nlmsg" where
  "put_allowedips [] m = (None, m)"
| "put_allowedips (n # ns) m =
     (case get_allowedips n m of
        None \<Rightarrow> (Some n, m)
      | Some m1 \<Rightarrow> put_allowedips ns m1)"

definition peer_items :: "wg_peer \<Rightarrow> nl_item list" where
  "peer_items peer =
     [WGPEER_A_PRESHARED_KEY (preshared_key (handshake peer)), WGPEER_A_LAST_HANDSHAKE_TIME (walltime_last_handshake peer),
      WGPEER_A_PERSISTENT_KEEPALIVE_INTERVAL (persistent_keepalive_interval peer), WGPEER_A_TX_BYTES (tx_bytes peer),
      WGPEER_A_RX_BYTES (rx_bytes peer), WGPEER_A_PROTOCOL_VERSION 1] @
     (if has_endpoint peer then [WGPEER_A_ENDPOINT (ep_addr (endpoint peer))] else [])"

definition no_allowedips :: "nlmsg \<Rightarrow> dump_ctx \<Rightarrow> errno option \<times> nlmsg \<times> dump_ctx" where
  "no_allowedips m ctx = (None, nla_nest_end m, ctx\<lparr>ctx_next_allowedip := None, ctx_allowedips_seq := 0\<rparr>)"

definition get_peer :: "wg_device \<Rightarrow> nat \<Rightarrow> nlmsg \<Rightarrow> dump_ctx \<Rightarrow> errno option \<times> nlmsg \<times> dump_ctx" where
  "get_peer wg p msg ctx =
     (let peer = peers wg p;
          table = peer_allowedips wg;
          nodes = allowedips_list table p;
          keys = (if ctx_next_allowedip ctx = None then peer_items peer else []);
          from_node = (case ctx_next_allowedip ctx of None \<Rightarrow> nodes | Some n \<Rightarrow> dropWhile (\<lambda>x. x \<noteq> n) nodes)
      in case nla_puts (NEST_PEER # WGPEER_A_PUBLIC_KEY (remote_static (handshake peer)) # keys) msg of
           None \<Rightarrow> (Some EMSGSIZE, msg, ctx)
         | Some m \<Rightarrow>
             if ctx_next_allowedip ctx = None \<and> nodes = [] then no_allowedips m ctx
             else if ctx_allowedips_seq ctx \<noteq> 0 \<and> ctx_allowedips_seq ctx \<noteq> tbl_seq table then no_allowedips m ctx
             else
               let ctx1 = (if ctx_allowedips_seq ctx = 0 then ctx\<lparr>ctx_allowedips_seq := tbl_seq table\<rparr> else ctx) in
               case nla_put NEST_ALLOWEDIPS m of
                 None \<Rightarrow> (Some EMSGSIZE, msg, ctx1)
               | Some m1 \<Rightarrow>
                   (case put_allowedips from_node m1 of
                      (Some n, m2) \<Rightarrow> (Some EMSGSIZE, nla_nest_end (nla_nest_end m2), ctx1\<lparr>ctx_next_allowedip := Some n\<rparr>)
                    | (None, m2) \<Rightarrow> no_allowedips (nla_nest_end m2) ctx1))"

fun get_peers :: "wg_device \<Rightarrow> nat list \<Rightarrow> nat option \<Rightarrow> nlmsg \<Rightarrow> dump_ctx \<Rightarrow> bool \<times> nat option \<times> nlmsg \<times> dump_ctx" where
  "get_peers wg [] cursor m ctx = (True, cursor, m, ctx)"
| "get_peers wg (p # ps) cursor m ctx =
     (case get_peer wg p m ctx of
        (Some _, m1, ctx1) \<Rightarrow> (False, cursor, m1, ctx1)
      | (None, m1, ctx1) \<Rightarrow> get_peers wg ps (Some p) m1 ctx1)"

definition device_items :: "u32 \<Rightarrow> string \<Rightarrow> wg_device \<Rightarrow> nl_item list" where
  "device_items ifindex name wg =
     [WGDEVICE_A_LISTEN_PORT (incoming_port wg), WGDEVICE_A_FWMARK (fwmark wg), WGDEVICE_A_IFINDEX ifindex, WGDEVICE_A_IFNAME name] @
     (if has_identity (static_identity wg) then
        [WGDEVICE_A_PRIVATE_KEY (static_private (static_identity wg)), WGDEVICE_A_PUBLIC_KEY (static_public (static_identity wg))]
      else [])"

text \<open>The peers after the one where the last message ended.\<close>

definition peers_after :: "nat option \<Rightarrow> nat list \<Rightarrow> nat list" where
  "peers_after cursor ps = (case cursor of None \<Rightarrow> ps | Some p \<Rightarrow> tl (dropWhile (\<lambda>x. x \<noteq> p) ps))"

text \<open>What is put into the message: an error, or whether all peers are in it and the last that is.\<close>

definition dump_fill :: "u32 \<Rightarrow> string \<Rightarrow> wg_device \<Rightarrow> nlmsg \<Rightarrow> dump_ctx \<Rightarrow> errno + (bool \<times> nat option \<times> nlmsg \<times> dump_ctx)" where
  "dump_fill ifindex name wg msg ctx =
     (let keys = (if ctx_next_peer ctx = None then device_items ifindex name wg else []) in
      case nla_puts (NL_HEADER (device_update_gen wg) # keys) msg of
        None \<Rightarrow> Inl EMSGSIZE
      | Some m \<Rightarrow>
          (case nla_put NEST_PEERS m of
             None \<Rightarrow> Inl EMSGSIZE
           | Some m1 \<Rightarrow>
               if peer_list wg = [] \<or> (case ctx_next_peer ctx of None \<Rightarrow> False | Some p \<Rightarrow> is_dead (peers wg p)) then
                 Inr (True, ctx_next_peer ctx, m, ctx)
               else
                 case get_peers wg (peers_after (ctx_next_peer ctx) (peer_list wg)) (ctx_next_peer ctx) m1 ctx of
                   (done, cursor, m2, ctx1) \<Rightarrow> Inr (done, cursor, nla_nest_end m2, ctx1)))"

definition wg_get_device_dumpit ::
  "u32 \<Rightarrow> string \<Rightarrow> nlmsg \<Rightarrow> dump_ctx \<Rightarrow> wg_device \<Rightarrow> (errno + nat) \<times> nlmsg \<times> dump_ctx \<times> wg_device" where
  "wg_get_device_dumpit ifindex name msg ctx wg =
     (case dump_fill ifindex name wg msg ctx of
        Inl e \<Rightarrow> (Inl e, msg, ctx, wg_peer_put (ctx_next_peer ctx) wg)
      | Inr (done, cursor, m, ctx1) \<Rightarrow>
          let wg1 = (case cursor of Some p \<Rightarrow> if \<not> done then wg_peer_get p wg else wg | None \<Rightarrow> wg);
              wg2 = wg_peer_put (ctx_next_peer ctx) wg1
          in if done then (Inr 0, m, ctx1\<lparr>ctx_next_peer := None\<rparr>, wg2)
             else (Inr (nl_len m), m, ctx1\<lparr>ctx_next_peer := cursor\<rparr>, wg2))"

definition wg_get_device_start :: "(u32 \<Rightarrow> net_device option) \<Rightarrow> (string \<Rightarrow> net_device option) \<Rightarrow> device_attrs \<Rightarrow> errno option \<times> nat option" where
  "wg_get_device_start by_index by_name attrs =
     (case lookup_interface by_index by_name attrs of Inl e \<Rightarrow> (Some e, None) | Inr d \<Rightarrow> (None, Some d))"

definition wg_get_device_done :: "dump_ctx \<Rightarrow> wg_device \<Rightarrow> wg_device" where
  "wg_get_device_done ctx wg = wg_peer_put (ctx_next_peer ctx) wg"

end
