(* ===== verification/Frames.thy ===== *)
theory Frames
  imports Peer
begin

text \<open>
  What the data path leaves alone: it does not configure the device and its peers, it does not deliver packets except
  where it says so, and it does not revive a dead peer: one without keypairs and timers gets none.
\<close>

definition no_slots :: noise_keypairs where
  "no_slots = \<lparr>current_keypair = None, previous_keypair = None, next_keypair = None\<rparr>"

definition config :: "wg_device \<Rightarrow> nat list \<times> pubkey_hashtable \<times> nat allowedips \<times> bool \<times> nat \<times> u32 \<times> noise_static_identity" where
  "config wg = (peer_list wg, peer_hashtable wg, peer_allowedips wg, netif_running wg, next_peer wg, num_peers wg, static_identity wg)"

definition keeps_dead :: "wg_device \<Rightarrow> wg_device \<Rightarrow> bool" where
  "keeps_dead wg wg' \<longleftrightarrow> (\<forall>p. is_dead (peers wg' p) = is_dead (peers wg p) \<and>
     remote_static (handshake (peers wg' p)) = remote_static (handshake (peers wg p)) \<and>
     (is_dead (peers wg p) \<longrightarrow>
        (keypairs (peers wg p) = no_slots \<longrightarrow> keypairs (peers wg' p) = no_slots) \<and>
        (timers (peers wg p) = no_timers \<longrightarrow> timers (peers wg' p) = no_timers)))"

definition quiet :: "wg_device \<Rightarrow> wg_device \<Rightarrow> bool" where
  "quiet wg wg' \<longleftrightarrow> config wg' = config wg \<and> delivered (outputs wg') = delivered (outputs wg) \<and> keeps_dead wg wg'"

named_theorems quiet_intros \<open>steps that a quiet operation is made of\<close>

lemma quiet_refl [quiet_intros]: "quiet wg wg"
  by (simp add: quiet_def keeps_dead_def)

lemma quiet_trans: "quiet a b \<Longrightarrow> quiet b c \<Longrightarrow> quiet a c"
  by (simp add: quiet_def keeps_dead_def)

lemma quiet_dead: "quiet wg w \<Longrightarrow> is_dead (peers w p) = is_dead (peers wg p)"
  by (simp add: quiet_def keeps_dead_def)

section \<open>Control flow\<close>

lemma quiet_if [quiet_intros]: "(c \<Longrightarrow> quiet wg a) \<Longrightarrow> (\<not> c \<Longrightarrow> quiet wg b) \<Longrightarrow> quiet wg (if c then a else b)"
  "(c \<Longrightarrow> quiet wg (snd x)) \<Longrightarrow> (\<not> c \<Longrightarrow> quiet wg (snd y)) \<Longrightarrow> quiet wg (snd (if c then x else y))"
  by simp_all

lemma quiet_option [quiet_intros]:
  "quiet wg a \<Longrightarrow> (\<And>x. quiet wg (f x)) \<Longrightarrow> quiet wg (case o1 of None \<Rightarrow> a | Some x \<Rightarrow> f x)"
  "quiet wg (snd b) \<Longrightarrow> (\<And>x. quiet wg (snd (g x))) \<Longrightarrow> quiet wg (snd (case o1 of None \<Rightarrow> b | Some x \<Rightarrow> g x))"
  by (simp_all split: option.splits)

lemma quiet_sum [quiet_intros]:
  "(\<And>e. quiet wg (f e)) \<Longrightarrow> (\<And>x. quiet wg (g x)) \<Longrightarrow> quiet wg (case s of Inl e \<Rightarrow> f e | Inr x \<Rightarrow> g x)"
  by (simp split: sum.splits)

lemma quiet_snd_Pair [quiet_intros]: "quiet wg w \<Longrightarrow> quiet wg (snd (x, w))"
  by simp

section \<open>Updates\<close>

text \<open>A change of a peer that is not about its life, its identity, its keypairs and its timers.\<close>

definition harmless :: "(wg_peer \<Rightarrow> wg_peer) \<Rightarrow> bool" where
  "harmless f \<longleftrightarrow> (\<forall>x. is_dead (f x) = is_dead x \<and> remote_static (handshake (f x)) = remote_static (handshake x) \<and>
     keypairs (f x) = keypairs x \<and> timers (f x) = timers x)"

lemma quiet_upd_peer [quiet_intros]: "quiet wg w \<Longrightarrow> harmless f \<Longrightarrow> quiet wg (upd_peer p f w)"
  by (simp add: quiet_def config_def keeps_dead_def harmless_def upd_peer_def)

lemma quiet_upd_keypair [quiet_intros]: "quiet wg w \<Longrightarrow> quiet wg (upd_keypair k f w)"
  by (simp add: quiet_def config_def keeps_dead_def upd_keypair_def)

lemma quiet_upd_queues [quiet_intros]: "quiet wg w \<Longrightarrow> quiet wg (upd_queues f w)"
  by (simp add: quiet_def config_def keeps_dead_def upd_queues_def)

lemma quiet_upd_packet [quiet_intros]: "quiet wg w \<Longrightarrow> quiet wg (upd_packet n f w)"
  unfolding upd_packet_def by (intro quiet_intros)

lemma quiet_upd_device_queue [quiet_intros]: "quiet wg w \<Longrightarrow> quiet wg (upd_device_queue tx f w)"
  unfolding upd_device_queue_def by (intro quiet_intros)

lemma quiet_index_table [quiet_intros]: "quiet wg w \<Longrightarrow> quiet wg (w\<lparr>index_table := t\<rparr>)"
  by (simp add: quiet_def config_def keeps_dead_def)

lemma quiet_index_remove [quiet_intros]: "quiet wg w \<Longrightarrow> quiet wg (index_remove e w)"
  unfolding index_remove_def by (intro quiet_intros)

lemma quiet_outputs [quiet_intros]:
  "quiet wg w \<Longrightarrow> delivered out = delivered (outputs w) \<Longrightarrow> quiet wg (w\<lparr>outputs := out\<rparr>)"
  by (simp add: quiet_def config_def keeps_dead_def)

lemma quiet_upd_works [quiet_intros]: "quiet wg w \<Longrightarrow> quiet wg (upd_works p f w)"
  unfolding upd_works_def by (intro quiet_intros) (simp_all add: harmless_def)

lemma quiet_upd_handshake:
  "quiet wg w \<Longrightarrow> remote_static (f (handshake (peers w p))) = remote_static (handshake (peers w p)) \<Longrightarrow> quiet wg (upd_handshake p f w)"
  by (simp add: upd_handshake_def quiet_def config_def keeps_dead_def upd_peer_def)

text \<open>Slots change only to empty ones, or of a peer that is alive.\<close>

lemma quiet_upd_keypairs:
  "quiet wg w \<Longrightarrow> (is_dead (peers wg p) \<Longrightarrow> keypairs (peers w p) = no_slots \<Longrightarrow> f no_slots = no_slots) \<Longrightarrow>
    quiet wg (upd_keypairs p f w)"
  by (auto simp: quiet_def config_def keeps_dead_def upd_keypairs_def upd_peer_def)

lemma quiet_upd_timers:
  "quiet wg w \<Longrightarrow> \<not> is_dead (peers wg p) \<or> f no_timers = no_timers \<Longrightarrow> quiet wg (upd_timers p f w)"
  by (auto simp: quiet_def config_def keeps_dead_def upd_timers_def upd_peer_def)

section \<open>References\<close>

lemma quiet_keypair_put [quiet_intros]: "quiet wg w \<Longrightarrow> quiet wg (wg_noise_keypair_put k now w)"
  unfolding wg_noise_keypair_put_def keypair_free_kref_def Let_def by (intro quiet_intros)

lemma quiet_keypair_get [quiet_intros]: "quiet wg w \<Longrightarrow> quiet wg (snd (wg_noise_keypair_get k w))"
  unfolding wg_noise_keypair_get_def by (intro quiet_intros)

lemma quiet_peer_get [quiet_intros]: "quiet wg w \<Longrightarrow> quiet wg (wg_peer_get p w)"
  unfolding wg_peer_get_def by (intro quiet_intros) (simp_all add: harmless_def)

lemma quiet_purge [quiet_intros]: "quiet wg w \<Longrightarrow> quiet wg (wg_packet_purge_staged_packets p w)"
  unfolding wg_packet_purge_staged_packets_def by (intro quiet_intros) (simp_all add: harmless_def)

lemma quiet_peer_put [quiet_intros]: "quiet wg w \<Longrightarrow> quiet wg (wg_peer_put p w)"
  unfolding wg_peer_put_def kref_release_def Let_def by (intro quiet_intros) (simp_all add: harmless_def)

section \<open>Timers\<close>

lemma quiet_mod_peer_timer [quiet_intros]: "quiet wg w \<Longrightarrow> quiet wg (mod_peer_timer t p e w)"
  unfolding mod_peer_timer_def by (intro quiet_intros quiet_upd_timers) (auto simp: quiet_dead)

lemma no_timers_delete:
  "timer_retransmit_handshake_update (\<lambda>_. None) no_timers = no_timers"
  "timer_send_keepalive_update (\<lambda>_. None) no_timers = no_timers"
  "timer_new_handshake_update (\<lambda>_. None) no_timers = no_timers"
  "timer_zero_key_material_update (\<lambda>_. None) no_timers = no_timers"
  "timer_persistent_keepalive_update (\<lambda>_. None) no_timers = no_timers"
  by (simp_all add: no_timers_def)

lemma quiet_timer_events [quiet_intros]:
  "quiet wg w \<Longrightarrow> quiet wg (wg_timers_data_sent E p w)"
  "quiet wg w \<Longrightarrow> quiet wg (wg_timers_data_received E p w)"
  "quiet wg w \<Longrightarrow> quiet wg (wg_timers_any_authenticated_packet_sent p w)"
  "quiet wg w \<Longrightarrow> quiet wg (wg_timers_any_authenticated_packet_received p w)"
  "quiet wg w \<Longrightarrow> quiet wg (wg_timers_handshake_initiated E p w)"
  "quiet wg w \<Longrightarrow> quiet wg (wg_timers_handshake_complete E p w)"
  "quiet wg w \<Longrightarrow> quiet wg (wg_timers_session_derived E p w)"
  "quiet wg w \<Longrightarrow> quiet wg (wg_timers_any_authenticated_packet_traversal E p w)"
  unfolding wg_timers_data_sent_def wg_timers_data_received_def wg_timers_any_authenticated_packet_sent_def
    wg_timers_any_authenticated_packet_received_def wg_timers_handshake_initiated_def wg_timers_handshake_complete_def
    wg_timers_session_derived_def wg_timers_any_authenticated_packet_traversal_def timer_delete_def Let_def
  by (intro quiet_intros quiet_upd_timers; simp add: harmless_def no_timers_delete)+

lemma quiet_stop [quiet_intros]: "quiet wg w \<Longrightarrow> quiet wg (wg_noise_keypairs_clear p w)"
  "quiet wg w \<Longrightarrow> quiet wg (wg_noise_handshake_clear p w)"
  unfolding wg_noise_keypairs_clear_def wg_noise_handshake_clear_def Let_def
  by (intro quiet_intros quiet_upd_keypairs quiet_upd_handshake; simp add: no_slots_def handshake_zero_def)+

lemma quiet_clear_work [quiet_intros]: "quiet wg w \<Longrightarrow> quiet wg (flush_clear_peer_work p w)"
  unfolding flush_clear_peer_work_def wg_queued_expired_zero_key_material_def
  by (intro quiet_intros) (simp_all add: harmless_def)

section \<open>Sending\<close>

lemma quiet_udp_xmit [quiet_intros]: "quiet wg w \<Longrightarrow> quiet wg (udp_xmit x w)"
  unfolding udp_xmit_def by (intro quiet_intros) simp_all

lemma quiet_set_endpoint [quiet_intros]: "quiet wg w \<Longrightarrow> quiet wg (wg_socket_set_peer_endpoint p ep w)"
  unfolding wg_socket_set_peer_endpoint_def
  by (cases "ep_addr ep"; simp only: sockaddr.case; intro quiet_intros) (simp_all add: harmless_def)

lemma quiet_send46:
  "quiet wg w \<Longrightarrow> quiet wg (snd (snd (snd (send4 E data ep ds cache w))))"
  "quiet wg w \<Longrightarrow> quiet wg (snd (snd (snd (send6 E data ep ds cache w))))"
  by (auto simp: send4_def send6_def Let_def intro!: quiet_intros split: option.splits prod.splits sum.splits)

lemma quiet_send_skb [quiet_intros]: "quiet wg w \<Longrightarrow> quiet wg (snd (wg_socket_send_skb_to_peer E p data ds w))"
  unfolding wg_socket_send_skb_to_peer_def Let_def case_prod_beta snd_conv
  using quiet_send46 [of wg w]
  by (intro quiet_upd_peer) (auto simp: harmless_def split: sockaddr.splits)

lemma quiet_send_buffer [quiet_intros]: "quiet wg w \<Longrightarrow> quiet wg (snd (wg_socket_send_buffer_to_peer E p data ds w))"
  unfolding wg_socket_send_buffer_to_peer_def by (intro quiet_intros)

lemma quiet_queued_initiation [quiet_intros]:
  "quiet wg w \<Longrightarrow> quiet wg (wg_packet_send_queued_handshake_initiation E r p w)"
  unfolding wg_packet_send_queued_handshake_initiation_def Let_def by (intro quiet_intros) (simp_all add: harmless_def)

lemma quiet_keep_key_fresh_tx [quiet_intros]: "quiet wg w \<Longrightarrow> quiet wg (keep_key_fresh_tx E p w)"
  unfolding keep_key_fresh_tx_def Let_def by (intro quiet_intros)

lemma quiet_send_list [quiet_intros]: "quiet wg w \<Longrightarrow> quiet wg (snd (send_list E p ss w))"
proof (induction ss arbitrary: w)
  case Nil
  then show ?case by simp
next
  case (Cons s ss)
  then show ?case by (simp add: Let_def case_prod_beta quiet_send_skb)
qed

lemma quiet_create_data_done [quiet_intros]: "quiet wg w \<Longrightarrow> quiet wg (wg_packet_create_data_done E p ss w)"
  unfolding wg_packet_create_data_done_def Let_def case_prod_beta by (intro quiet_intros)

lemma quiet_peer_enqueue [quiet_intros]: "quiet wg w \<Longrightarrow> quiet wg (snd (peer_enqueue tx p n w))"
  unfolding peer_enqueue_def Let_def case_prod_beta by (intro quiet_intros) (simp_all add: harmless_def)

lemma quiet_enqueue [quiet_intros]: "quiet wg w \<Longrightarrow> quiet wg (snd (wg_queue_enqueue_per_device_and_peer E tx p n w))"
  unfolding wg_queue_enqueue_per_device_and_peer_def Let_def case_prod_beta by (intro quiet_intros)

lemma quiet_per_peer [quiet_intros]:
  "quiet wg w \<Longrightarrow> quiet wg (wg_queue_enqueue_per_peer_tx E n s w)"
  "quiet wg w \<Longrightarrow> quiet wg (wg_queue_enqueue_per_peer_rx n s w)"
  unfolding wg_queue_enqueue_per_peer_tx_def wg_queue_enqueue_per_peer_rx_def Let_def
  by (intro quiet_intros; simp add: harmless_def)+

lemma quiet_create_data [quiet_intros]: "quiet wg w \<Longrightarrow> quiet wg (wg_packet_create_data E p n w)"
  unfolding wg_packet_create_data_def Let_def case_prod_beta by (intro quiet_intros)

lemma quiet_new_packet [quiet_intros]: "quiet wg w \<Longrightarrow> quiet wg (snd (new_packet ss k w))"
  unfolding new_packet_def Let_def by (intro quiet_intros)

lemma quiet_restage [quiet_intros]: "quiet wg w \<Longrightarrow> quiet wg (restage E p k ss w)"
  unfolding restage_def by (intro quiet_intros) (simp_all add: harmless_def)

lemma quiet_send_staged [quiet_intros]: "quiet wg w \<Longrightarrow> quiet wg (wg_packet_send_staged_packets E p w)"
proof -
  assume "quiet wg w"
  moreover have "wg_packet_send_staged_packets E p w =
    (let ss = staged_packet_queue (peers w p);
         w0 = upd_peer p (\<lambda>peer. peer\<lparr>staged_packet_queue := []\<rparr>) w;
         r = wg_noise_keypair_get (current_keypair (slots w0 p)) w0
     in if ss = [] then w0
        else case fst r of
          None \<Rightarrow> restage E p None ss (snd r)
        | Some k \<Rightarrow>
            let kp = keypair_store (snd r) k;
                invalid = upd_keypair k (\<lambda>kp. kp\<lparr>sending := (sending kp)\<lparr>sk_is_valid := False\<rparr>\<rparr>);
                a = assign_nonces E ss (sending_counter kp);
                w2 = upd_keypair k (\<lambda>kp. kp\<lparr>sending_counter := snd (snd a)\<rparr>) (snd r);
                c = new_packet (fst (snd a)) (Some k) (wg_peer_get (the (ih_peer (index_table w2) (KP k))) w2)
            in if \<not> sk_is_valid (sending kp) then restage E p (Some k) ss (snd r)
               else if wg_birthdate_has_expired E (sk_birthdate (sending kp)) REJECT_AFTER_TIME then restage E p (Some k) ss (invalid (snd r))
               else if \<not> fst a then restage E p (Some k) (fst (snd a)) (invalid w2)
               else wg_packet_create_data E p (fst c) (snd c))"
    by (simp add: wg_packet_send_staged_packets_def Let_def case_prod_beta split: option.splits)
  ultimately show ?thesis
    by (simp only: Let_def) (intro quiet_intros; simp add: harmless_def)
qed

lemma quiet_keepalive [quiet_intros]: "quiet wg w \<Longrightarrow> quiet wg (wg_packet_send_keepalive E p w)"
  unfolding wg_packet_send_keepalive_def by (intro quiet_intros) (simp_all add: harmless_def)

section \<open>Handshakes\<close>

lemma quiet_create_initiation:
  "wg_noise_handshake_create_initiation C E p w = Some (m, w') \<Longrightarrow> quiet wg w \<Longrightarrow> quiet wg w'"
  by (auto simp: wg_noise_handshake_create_initiation_def Let_def split: if_splits prod.splits option.splits
      intro!: quiet_intros quiet_upd_handshake)

lemma quiet_add_macs: "quiet wg w \<Longrightarrow> quiet wg (snd (add_macs C E p m w))"
proof -
  assume q: "quiet wg w"
  have "is_dead (snd (wg_cookie_add_mac_to_packet C E m x)) = is_dead x \<and> keypairs (snd (wg_cookie_add_mac_to_packet C E m x)) = keypairs x \<and>
    timers (snd (wg_cookie_add_mac_to_packet C E m x)) = timers x \<and>
    handshake (snd (wg_cookie_add_mac_to_packet C E m x)) = handshake x" for x
    by (simp add: wg_cookie_add_mac_to_packet_def Let_def)
  then show ?thesis using q
    by (auto simp: add_macs_def Let_def case_prod_beta quiet_def config_def keeps_dead_def upd_peer_def)
qed

lemma quiet_last_sent [quiet_intros]: "quiet wg w \<Longrightarrow> quiet wg (set_last_sent E p w)"
  unfolding set_last_sent_def by (intro quiet_intros) (simp_all add: harmless_def)

lemma quiet_send_initiation:
  assumes "wg_packet_send_handshake_initiation C E p w = Some w'" "quiet wg w"
  shows "quiet wg w'"
proof (cases "wg_birthdate_has_expired E (last_sent_handshake (peers w p)) REKEY_TIMEOUT")
  case False
  then show ?thesis using assms by (simp add: wg_packet_send_handshake_initiation_def)
next
  case True
  then obtain m w1 where c: "wg_noise_handshake_create_initiation C E p (set_last_sent E p w) = Some (m, w1)"
    using assms(1) by (auto simp: wg_packet_send_handshake_initiation_def split: option.splits)
  have q: "quiet wg w1" using quiet_create_initiation [OF c] quiet_last_sent [OF assms(2)] by simp
  show ?thesis
  proof (cases m)
    case None
    then show ?thesis using assms(1) True c q by (simp add: wg_packet_send_handshake_initiation_def)
  next
    case (Some packet)
    have a: "quiet wg (snd (add_macs C E p (initiation_bytes packet) w1))" using quiet_add_macs [OF q] .
    show ?thesis using assms(1) True c Some a
      by (auto simp: wg_packet_send_handshake_initiation_def Let_def case_prod_beta intro!: quiet_intros)
  qed
qed

lemma quiet_send_worker:
  "wg_packet_handshake_send_worker C E p w = Some w' \<Longrightarrow> quiet wg w \<Longrightarrow> quiet wg w'"
  by (auto simp: wg_packet_handshake_send_worker_def intro!: quiet_intros dest!: quiet_send_initiation)

section \<open>Workers\<close>

lemma quiet_encrypt_step [quiet_intros]: "quiet wg w \<Longrightarrow> quiet wg (snd (encrypt_worker_step C E w))"
  unfolding encrypt_worker_step_def Let_def case_prod_beta
  by (simp split: option.splits prod.splits) (intro conjI impI allI quiet_intros)

lemma quiet_decrypt [quiet_intros]: "quiet wg w \<Longrightarrow> quiet wg (snd (decrypt_packet C E skb k w))"
  unfolding decrypt_packet_def by (intro quiet_intros)

lemma quiet_decrypt_step [quiet_intros]: "quiet wg w \<Longrightarrow> quiet wg (snd (decrypt_worker_step C E w))"
proof -
  assume q: "quiet wg w"
  have "snd (decrypt_worker_step C E w) =
    (let c = ptr_ring_consume (decrypt_queue (queues w)) in
     case fst c of
       None \<Rightarrow> w
     | Some n \<Rightarrow>
         let w1 = upd_queues (\<lambda>qs. qs\<lparr>decrypt_queue := snd c\<rparr>) w;
             d = decrypt_packet C E (hd (pk_skbs (the_packet w1 n))) (pk_keypair (the_packet w1 n)) w1
         in case fst d of
              None \<Rightarrow> wg_queue_enqueue_per_peer_rx n PACKET_STATE_DEAD (snd d)
            | Some skb \<Rightarrow> wg_queue_enqueue_per_peer_rx n PACKET_STATE_CRYPTED (upd_packet n (\<lambda>pk. pk\<lparr>pk_skbs := [skb]\<rparr>) (snd d)))"
    by (simp add: decrypt_worker_step_def Let_def case_prod_beta split: option.splits)
  then show ?thesis using q by (simp only: Let_def) (intro quiet_intros)
qed

lemma quiet_tx_step [quiet_intros]: "quiet wg w \<Longrightarrow> quiet wg (snd (tx_worker_step E p w))"
proof -
  assume q: "quiet wg w"
  have "snd (tx_worker_step E p w) =
    (let w1 = upd_peer p (\<lambda>peer. peer\<lparr>tx_queue := snd (wg_prev_queue_peek (tx_queue (peers w p)))\<rparr>) w in
     case fst (wg_prev_queue_peek (tx_queue (peers w p))) of
       None \<Rightarrow> w1
     | Some n \<Rightarrow>
         if pk_state (the_packet w1 n) = PACKET_STATE_UNCRYPTED then w1
         else
           let w2 = upd_peer p (\<lambda>peer. peer\<lparr>tx_queue := wg_prev_queue_drop_peeked (tx_queue peer)\<rparr>) w1;
               w3 = (if pk_state (the_packet w1 n) = PACKET_STATE_CRYPTED
                     then wg_packet_create_data_done E p (pk_skbs (the_packet w1 n)) w2 else w2)
           in wg_peer_put (Some p) (wg_noise_keypair_put (pk_keypair (the_packet w1 n)) False w3))"
    by (simp add: tx_worker_step_def Let_def case_prod_beta split: option.splits)
  then show ?thesis using q by (simp only: Let_def) (intro quiet_intros; simp add: harmless_def)
qed

lemma quiet_repeat:
  assumes "repeat n step i w = Some w'" "quiet wg w" "\<And>i w. quiet wg w \<Longrightarrow> quiet wg (snd (step i w))"
  shows "quiet wg w'"
  by (rule repeat_inv [OF assms(1), of "quiet wg"]) (use assms(2,3) in \<open>metis snd_conv\<close>)+

lemma quiet_encrypt_worker: "wg_packet_encrypt_worker C Es w = Some w' \<Longrightarrow> quiet wg w \<Longrightarrow> quiet wg w'"
  unfolding wg_packet_encrypt_worker_def by (erule quiet_repeat, assumption, intro quiet_intros, assumption)

lemma quiet_decrypt_worker: "wg_packet_decrypt_worker C Es w = Some w' \<Longrightarrow> quiet wg w \<Longrightarrow> quiet wg w'"
  unfolding wg_packet_decrypt_worker_def by (erule quiet_repeat, assumption, intro quiet_intros, assumption)

lemma quiet_tx_worker: "wg_packet_tx_worker Es p w = Some w' \<Longrightarrow> quiet wg w \<Longrightarrow> quiet wg w'"
  unfolding wg_packet_tx_worker_def by (erule quiet_repeat; intro quiet_intros; assumption)

lemmas quiet_workers = quiet_encrypt_worker quiet_decrypt_worker quiet_tx_worker

lemma quiet_flush_tx: "flush_tx_works Es ps w = Some w' \<Longrightarrow> quiet wg w \<Longrightarrow> quiet wg w'"
proof (induction ps arbitrary: w)
  case Nil
  then show ?case by simp
next
  case (Cons p ps)
  then show ?case by (auto split: if_splits simp: bind_eq_Some_conv dest!: quiet_workers(3) [where wg = wg])
qed

lemma quiet_flush_crypt: "flush_packet_crypt_wq C Es w = Some w' \<Longrightarrow> quiet wg w \<Longrightarrow> quiet wg w'"
  unfolding flush_packet_crypt_wq_def bind_eq_Some_conv
  by (elim exE conjE) (blast intro: quiet_workers(1,2) quiet_flush_tx)

lemma quiet_flush_handshake: "flush_handshake_send_wq C Es ps w = Some w' \<Longrightarrow> quiet wg w \<Longrightarrow> quiet wg w'"
proof (induction ps arbitrary: w)
  case Nil
  then show ?case by simp
next
  case (Cons p ps)
  then show ?case
    by (auto split: if_splits simp: bind_eq_Some_conv intro!: quiet_clear_work dest!: quiet_send_worker [where wg = wg])
qed

section \<open>Receiving\<close>

lemma quiet_rx_stats [quiet_intros]: "quiet wg w \<Longrightarrow> quiet wg (update_rx_stats p n w)"
  unfolding update_rx_stats_def by (intro quiet_intros) (simp_all add: harmless_def)

lemma quiet_keep_key_fresh_rx [quiet_intros]: "quiet wg w \<Longrightarrow> quiet wg (keep_key_fresh_rx E p w)"
  unfolding keep_key_fresh_rx_def Let_def by (intro quiet_intros) (simp_all add: harmless_def)

lemma quiet_dishonest [quiet_intros]: "quiet wg w \<Longrightarrow> quiet wg (dishonest_packet e w)"
  unfolding dishonest_packet_def Let_def by (intro quiet_intros) simp_all

lemma quiet_received_with [quiet_intros]: "quiet wg w \<Longrightarrow> quiet wg (snd (wg_noise_received_with_keypair p k w))"
proof -
  assume q: "quiet wg w"
  let ?w1 = "upd_keypairs p (\<lambda>s. s\<lparr>previous_keypair := current_keypair s\<rparr>) w"
  let ?w2 = "wg_noise_keypair_put (previous_keypair (slots w p)) True ?w1"
  let ?w3 = "upd_keypairs p (\<lambda>s. s\<lparr>current_keypair := k, next_keypair := None\<rparr>) ?w2"
  have q2: "quiet wg ?w2"
    by (intro quiet_intros quiet_upd_keypairs q) (simp add: no_slots_def)
  have "quiet wg ?w3" if "k = next_keypair (slots w p)"
  proof (intro quiet_upd_keypairs q2)
    assume d: "is_dead (peers wg p)" "keypairs (peers ?w2 p) = no_slots"
    then have "next_keypair (keypairs (peers ?w2 p)) = None" by (simp add: no_slots_def)
    then have "next_keypair (keypairs (peers w p)) = None" by (simp add: upd_keypairs_def)
    then show "no_slots\<lparr>current_keypair := k, next_keypair := None\<rparr> = no_slots" using that by (simp add: no_slots_def slots_def)
  qed
  then show ?thesis using q by (auto simp: wg_noise_received_with_keypair_def Let_def)
qed

text \<open>The source address of the packet is one that the table gives to the peer.\<close>

definition src_allowed :: "nat allowedips \<Rightarrow> nat \<Rightarrow> bytes \<Rightarrow> bool" where
  "src_allowed table p data \<longleftrightarrow> (\<exists>protocol alive. wg_allowedips_lookup_src [(table, alive)] protocol data = Some (Some p))"

text \<open>The packets that an operation delivers, at most so many, all of one peer.\<close>

definition delivers :: "nat \<Rightarrow> nat \<Rightarrow> wg_device \<Rightarrow> wg_device \<Rightarrow> bool" where
  "delivers p n wg wg' \<longleftrightarrow> config wg' = config wg \<and> keeps_dead wg wg' \<and>
     (\<exists>ds. delivered (outputs wg') = delivered (outputs wg) @ map (Pair p) ds \<and> length ds \<le> n \<and>
        (\<forall>d\<in>set ds. src_allowed (peer_allowedips wg) p d))"

lemma delivers_quiet: "quiet wg w \<Longrightarrow> delivers p n wg w"
  unfolding quiet_def delivers_def by (intro conjI exI [of _ "[]"]) simp_all

lemma delivers_trans: "delivers p n a b \<Longrightarrow> delivers p m b c \<Longrightarrow> delivers p (n + m) a c"
proof -
  assume a: "delivers p n a b" and b: "delivers p m b c"
  obtain ds es where d: "delivered (outputs b) = delivered (outputs a) @ map (Pair p) ds" "length ds \<le> n"
      "\<forall>d\<in>set ds. src_allowed (peer_allowedips a) p d"
    and e: "delivered (outputs c) = delivered (outputs b) @ map (Pair p) es" "length es \<le> m"
      "\<forall>d\<in>set es. src_allowed (peer_allowedips b) p d"
    using a b unfolding delivers_def by blast
  have "peer_allowedips b = peer_allowedips a" using a by (simp add: delivers_def config_def)
  then have "\<forall>d\<in>set (ds @ es). src_allowed (peer_allowedips a) p d" using d e by auto
  moreover have "config c = config a" "keeps_dead a c" using a b by (simp_all add: delivers_def keeps_dead_def)
  ultimately show ?thesis using d e unfolding delivers_def by (intro conjI exI [of _ "ds @ es"]) simp_all
qed

lemma delivers_mono: "delivers p n a b \<Longrightarrow> n \<le> m \<Longrightarrow> delivers p m a b"
  unfolding delivers_def by (meson le_trans)

lemma deliver_delivers: "delivers p 1 w (deliver E p skb w)"
proof (cases "inner_packet E skb")
  case (Inl e)
  then show ?thesis by (simp add: deliver_def delivers_quiet quiet_dishonest quiet_refl)
next
  case (Inr r)
  obtain protocol data where r: "r = (protocol, data)" by fastforce
  define q where "q = routed_peer protocol data w"
  define w1 where "w1 = (case q of None \<Rightarrow> w | Some r \<Rightarrow> wg_peer_put (Some r) (wg_peer_get r w))"
  have w1: "quiet w w1" unfolding w1_def by (intro quiet_intros)
  have d: "deliver E p skb w =
    (if q \<noteq> Some p then dishonest_packet DISHONEST_PEER w1
     else update_rx_stats p (message_data_len (length (skb_data skb)))
       (w1\<lparr>outputs := (outputs w1)\<lparr>delivered := delivered (outputs w1) @ [(p, data)]\<rparr>\<rparr>))"
    using Inr r by (simp add: deliver_def q_def w1_def Let_def)
  show ?thesis
  proof (cases "q = Some p")
    case False
    then show ?thesis using d w1 by (simp add: delivers_quiet quiet_dishonest)
  next
    case True
    then have "src_allowed (peer_allowedips w) p data"
      unfolding src_allowed_def q_def routed_peer_def by (metis option.case_eq_if option.collapse option.distinct(1))
    moreover have "delivered (outputs w1) = delivered (outputs w)" "config w1 = config w" "keeps_dead w w1"
      using w1 by (simp_all add: quiet_def)
    ultimately show ?thesis
      unfolding d delivers_def using True
      by (auto simp: update_rx_stats_def config_def keeps_dead_def upd_peer_def intro: exI [of _ "[data]"])
  qed
qed

lemma consume_data_done_delivers: "delivers p 1 w (wg_packet_consume_data_done E p skb k ep w)"
proof -
  define w5 where "w5 =
    (let w1 = wg_socket_set_peer_endpoint p ep w;
         r = wg_noise_received_with_keypair p k w1;
         w3 = (if fst r then wg_packet_send_staged_packets E p (wg_timers_handshake_complete E p (snd r)) else snd r);
         w4 = wg_timers_any_authenticated_packet_received p (keep_key_fresh_rx E p w3)
     in wg_timers_any_authenticated_packet_traversal E p w4)"
  have q: "quiet w w5" unfolding w5_def Let_def by (intro quiet_intros)
  have e: "wg_packet_consume_data_done E p skb k ep w =
    (if skb_data skb = [] then update_rx_stats p (message_data_len 0) w5 else deliver E p skb (wg_timers_data_received E p w5))"
    by (simp add: wg_packet_consume_data_done_def w5_def Let_def case_prod_beta)
  have "delivers p 0 w (wg_timers_data_received E p w5)" "delivers p 1 w (update_rx_stats p (message_data_len 0) w5)"
    using q by (simp_all add: delivers_quiet quiet_intros)
  then show ?thesis unfolding e using delivers_trans [OF _ deliver_delivers] by fastforce
qed

lemma rx_process_delivers: "delivers p 1 w (rx_process E p pk w)"
proof -
  define c where "c = counter_validate (receiving_counter (keypair_store w (the (pk_keypair pk)))) (cb_nonce (hd (pk_skbs pk)))"
  define w1 where "w1 = upd_keypair (the (pk_keypair pk)) (\<lambda>kp. kp\<lparr>receiving_counter := snd c\<rparr>) w"
  have q: "quiet w w1" unfolding w1_def by (intro quiet_intros)
  have e: "rx_process E p pk w =
    (if pk_state pk \<noteq> PACKET_STATE_CRYPTED then w
     else if \<not> fst c then w1
     else case wg_socket_endpoint_from_skb E (hd (pk_skbs pk)) of
            Inl _ \<Rightarrow> w1
          | Inr ep \<Rightarrow> wg_packet_consume_data_done E p (wg_reset_packet (hd (pk_skbs pk))) (pk_keypair pk) ep w1)"
    unfolding rx_process_def c_def w1_def Let_def case_prod_beta by (rule refl)
  show ?thesis unfolding e
    using delivers_quiet [OF q, of p 0] delivers_quiet [OF q, of p 1] delivers_quiet [OF quiet_refl, of p 1 w]
      delivers_trans [OF delivers_quiet [OF q, of p 0] consume_data_done_delivers]
    by (auto split: sum.splits)
qed

lemma rx_poll_loop_delivers:
  "delivers p b w (snd (rx_poll_loop Es p b i w)) \<and> fst (rx_poll_loop Es p b i w) \<le> i + b"
proof (induction b arbitrary: i w)
  case 0
  then show ?case by (simp add: delivers_quiet quiet_refl)
next
  case (Suc b)
  define w1 where "w1 = upd_peer p (\<lambda>peer. peer\<lparr>rx_queue := snd (wg_prev_queue_peek (rx_queue (peers w p)))\<rparr>) w"
  have q1: "quiet w w1" unfolding w1_def by (intro quiet_intros) (simp add: harmless_def)
  show ?case
  proof (cases "fst (wg_prev_queue_peek (rx_queue (peers w p)))")
    case None
    then show ?thesis using delivers_quiet [OF q1] by (simp add: Let_def case_prod_beta w1_def)
  next
    case (Some n)
    define pk where "pk = the_packet w1 n"
    define w2 where "w2 = upd_peer p (\<lambda>peer. peer\<lparr>rx_queue := wg_prev_queue_drop_peeked (rx_queue peer)\<rparr>) w1"
    define w4 where "w4 = wg_peer_put (Some p) (wg_noise_keypair_put (pk_keypair pk) False (rx_process (Es i) p pk w2))"
    have q2: "quiet w w2" unfolding w2_def by (intro quiet_intros q1) (simp add: harmless_def)
    have q4: "quiet (rx_process (Es i) p pk w2) w4" unfolding w4_def by (intro quiet_intros)
    have "delivers p (0 + 1 + 0) w w4"
      by (rule delivers_trans [OF delivers_trans [OF delivers_quiet [OF q2] rx_process_delivers] delivers_quiet [OF q4]])
    then have d: "delivers p (Suc b) w (snd (rx_poll_loop Es p b (i + 1) w4))"
      using delivers_trans Suc [of w4 "i + 1"] by fastforce
    have e: "rx_poll_loop Es p (Suc b) i w =
      (if pk_state pk = PACKET_STATE_UNCRYPTED then (i, w1) else rx_poll_loop Es p b (i + 1) w4)"
      using Some by (simp add: Let_def case_prod_beta w1_def [symmetric] w2_def [symmetric] pk_def [symmetric] w4_def [symmetric])
    show ?thesis unfolding e using d delivers_quiet [OF q1] Suc [of w4 "i + 1"] by auto
  qed
qed

lemma rx_poll_delivers: "delivers p (nat budget) wg (snd (wg_packet_rx_poll Es p budget wg)) \<and>
    fst (wg_packet_rx_poll Es p budget wg) \<le> nat budget"
proof (cases "budget \<le> 0")
  case True
  then show ?thesis by (simp add: wg_packet_rx_poll_def delivers_quiet quiet_refl)
next
  case False
  obtain n w where r: "rx_poll_loop Es p (nat budget) 0 wg = (n, w)" by fastforce
  have d: "delivers p (nat budget) wg w" "n \<le> nat budget"
    using rx_poll_loop_delivers [of p "nat budget" wg Es 0] r by simp_all
  have "quiet w (upd_works p (\<lambda>x. x\<lparr>napi_scheduled := False\<rparr>) w)" by (intro quiet_intros)
  then have "delivers p (nat budget + 0) wg (upd_works p (\<lambda>x. x\<lparr>napi_scheduled := False\<rparr>) w)"
    by (rule delivers_trans [OF d(1) delivers_quiet])
  then show ?thesis using False r d by (simp add: wg_packet_rx_poll_def)
qed

lemma disable_napi_delivers: "\<exists>n. delivers p n w (disable_napi Es p w)"
proof -
  define w1 where "w1 = (if napi_scheduled (works (peers w p)) then snd (wg_packet_rx_poll Es p NAPI_POLL_WEIGHT w) else w)"
  have "delivers p (nat NAPI_POLL_WEIGHT) w w1"
    using rx_poll_delivers [of p NAPI_POLL_WEIGHT w Es] by (simp add: w1_def delivers_quiet quiet_refl)
  moreover have "quiet w1 (upd_works p (\<lambda>x. x\<lparr>napi_scheduled := False\<rparr>) w1)" by (intro quiet_intros)
  ultimately show ?thesis using delivers_trans delivers_quiet unfolding disable_napi_def w1_def by meson
qed

end
