(* ===== verification/Netlink_Props.thy ===== *)
theory Netlink_Props
  imports Netlink Frames
begin

text \<open>
  Configuration: no request makes the device a peer of itself, and a dump that fails before its first peer gives a reference back
  twice.
\<close>

section \<open>Identities\<close>

text \<open>The keys of the peers, which of them are in the table, and the identity of the device.\<close>

definition same_ids :: "wg_device \<Rightarrow> wg_device \<Rightarrow> bool" where
  "same_ids wg w \<longleftrightarrow> peer_hashtable w = peer_hashtable wg \<and> static_identity w = static_identity wg \<and> peer_keys w = peer_keys wg"

lemma same_ids_refl [simp]: "same_ids wg wg"
  by (simp add: same_ids_def)

lemma same_ids_trans: "same_ids a b \<Longrightarrow> same_ids b c \<Longrightarrow> same_ids a c"
  by (simp add: same_ids_def)

lemma same_ids_if: "same_ids wg a \<Longrightarrow> same_ids wg b \<Longrightarrow> same_ids wg (if c then a else b)"
  by simp

lemma same_ids_quiet: "quiet wg w \<Longrightarrow> same_ids wg w"
  by (simp add: quiet_def config_def keeps_dead_def same_ids_def peer_keys_def fun_eq_iff)

lemma same_ids_delivers: "delivers p n wg w \<Longrightarrow> same_ids wg w"
  by (simp add: delivers_def config_def keeps_dead_def same_ids_def peer_keys_def fun_eq_iff)

definition hashed_peer :: "wg_device \<Rightarrow> nat \<Rightarrow> bool" where
  "hashed_peer wg p \<longleftrightarrow> hashed (pk_table (peer_hashtable wg)) p"

text \<open>No peer has the key of the device.\<close>

definition own_key_ok :: "wg_device \<Rightarrow> bool" where
  "own_key_ok wg \<longleftrightarrow>
     (has_identity (static_identity wg) \<longrightarrow> (\<forall>p. hashed_peer wg p \<longrightarrow> peer_keys wg p \<noteq> static_public (static_identity wg)))"

text \<open>The table of keys is in order, and has only peers of the list, which are alive.\<close>

definition peer_tables_ok :: "wg_device \<Rightarrow> bool" where
  "peer_tables_ok wg \<longleftrightarrow> pubkey_ok (peer_keys wg) (peer_hashtable wg) \<and>
     (\<forall>p. hashed_peer wg p \<longrightarrow> p \<in> set (peer_list wg) \<and> peer_alive wg p)"

text \<open>An operation that takes peers out of the table, at most, and that changes no identity.\<close>

definition fewer_peers :: "wg_device \<Rightarrow> wg_device \<Rightarrow> bool" where
  "fewer_peers wg w \<longleftrightarrow> static_identity w = static_identity wg \<and> peer_keys w = peer_keys wg \<and>
     (\<forall>p. hashed_peer w p \<longrightarrow> hashed_peer wg p)"

lemma fewer_same: "same_ids wg w \<Longrightarrow> fewer_peers wg w"
  by (simp add: same_ids_def fewer_peers_def hashed_peer_def)

lemma fewer_trans: "fewer_peers a b \<Longrightarrow> fewer_peers b c \<Longrightarrow> fewer_peers a c"
  by (simp add: fewer_peers_def)

lemma own_key_fewer: "own_key_ok wg \<Longrightarrow> fewer_peers wg w \<Longrightarrow> own_key_ok w"
  by (auto simp: own_key_ok_def fewer_peers_def)

section \<open>Removing peers\<close>

lemma make_dead_fewer: "fewer_peers wg (peer_make_dead p wg)" "\<not> hashed_peer (peer_make_dead p wg) p"
  by (auto simp: fewer_peers_def peer_make_dead_def hashed_peer_def wg_pubkey_hashtable_remove_def peer_keys_def upd_peer_def)

lemma quiet_timers_stop: "quiet wg w \<Longrightarrow> quiet wg (wg_timers_stop p w)"
  unfolding wg_timers_stop_def by (intro quiet_intros quiet_upd_timers) simp_all

lemma remove_after_dead_ids:
  assumes "peer_remove_after_dead C Es p w = Some w'"
  shows "same_ids w w'"
proof -
  define w0 where "w0 = wg_timers_stop p (wg_noise_keypairs_clear p w)"
  obtain w1 w2 w4 where f: "flush_packet_crypt_wq C (Es 0) w0 = Some w1" "flush_packet_crypt_wq C (Es 1) w1 = Some w2"
      "flush_handshake_send_wq C (Es 3) [0..<next_peer (disable_napi (Es 2) p w2)] (disable_napi (Es 2) p w2) = Some w4"
    and w': "w' = wg_peer_put (Some p) (w4\<lparr>num_peers := num_peers w4 - 1\<rparr>)"
    using assms unfolding peer_remove_after_dead_def w0_def [symmetric] bind_eq_Some_conv by auto
  have "quiet w w0" unfolding w0_def by (intro quiet_timers_stop quiet_intros)
  then have "same_ids w w2" using same_ids_quiet [OF quiet_flush_crypt [OF f(2) quiet_flush_crypt [OF f(1)]]] by blast
  moreover obtain n where "delivers p n w2 (disable_napi (Es 2) p w2)" using disable_napi_delivers by blast
  ultimately have "same_ids w (disable_napi (Es 2) p w2)" using same_ids_trans same_ids_delivers by blast
  then have "same_ids w w4" using same_ids_trans [OF _ same_ids_quiet [OF quiet_flush_handshake [OF f(3) quiet_refl]]] by blast
  then have "same_ids w (w4\<lparr>num_peers := num_peers w4 - 1\<rparr>)" by (simp add: same_ids_def peer_keys_def fun_eq_iff)
  moreover have "quiet (w4\<lparr>num_peers := num_peers w4 - 1\<rparr>) w'" unfolding w' by (intro quiet_intros)
  ultimately show ?thesis using same_ids_trans same_ids_quiet by blast
qed

lemma peer_remove_fewer:
  assumes "wg_peer_remove C Es (Some p) wg = Some wg'"
  shows "fewer_peers wg wg'" "\<not> hashed_peer wg' p"
proof -
  have i: "same_ids (peer_make_dead p wg) wg'" using assms remove_after_dead_ids by (simp add: wg_peer_remove_def)
  show "fewer_peers wg wg'" using fewer_trans [OF make_dead_fewer(1) fewer_same [OF i]] .
  show "\<not> hashed_peer wg' p" using make_dead_fewer(2) [of p wg] i by (simp add: hashed_peer_def same_ids_def)
qed

lemma remove_dead_peers_ids: "remove_dead_peers C Ess ps w = Some w' \<Longrightarrow> same_ids w w'"
proof (induction ps arbitrary: w)
  case Nil
  then show ?case by simp
next
  case (Cons p ps)
  then obtain w1 where "peer_remove_after_dead C (Ess p) p w = Some w1" "remove_dead_peers C Ess ps w1 = Some w'"
    by (auto simp: bind_eq_Some_conv)
  then show ?case using Cons.IH remove_after_dead_ids same_ids_trans by blast
qed

lemma fold_make_dead: "fewer_peers w (fold peer_make_dead ps w) \<and> (\<forall>p\<in>set ps. \<not> hashed_peer (fold peer_make_dead ps w) p)"
proof (induction ps arbitrary: w)
  case Nil
  then show ?case by (simp add: fewer_peers_def)
next
  case (Cons p ps)
  have "fewer_peers (peer_make_dead p w) (fold peer_make_dead ps (peer_make_dead p w))" using Cons by blast
  then show ?case using Cons [of "peer_make_dead p w"] make_dead_fewer [where wg = w and p = p]
    by (auto simp: fewer_peers_def)
qed

lemma remove_all_fewer:
  assumes "wg_peer_remove_all C Ess wg = Some wg'" "\<And>p. hashed_peer wg p \<Longrightarrow> p \<in> set (peer_list wg)"
  shows "fewer_peers wg wg' \<and> (\<forall>p. \<not> hashed_peer wg' p)"
proof -
  let ?w1 = "wg\<lparr>peer_allowedips := wg_allowedips_free (peer_allowedips wg)\<rparr>"
  let ?w2 = "fold peer_make_dead (peer_list wg) ?w1"
  have w1: "fewer_peers wg ?w1" by (simp add: fewer_peers_def peer_keys_def hashed_peer_def fun_eq_iff)
  have f: "fewer_peers ?w1 ?w2" "\<forall>p\<in>set (peer_list wg). \<not> hashed_peer ?w2 p" using fold_make_dead by blast+
  have i: "same_ids ?w2 wg'" using assms(1) remove_dead_peers_ids by (simp add: wg_peer_remove_all_def Let_def)
  have "fewer_peers wg ?w2" using fewer_trans [OF w1 f(1)] .
  then have "\<not> hashed_peer ?w2 p" for p using f(2) assms(2) by (auto simp: fewer_peers_def)
  then show ?thesis using fewer_trans [OF \<open>fewer_peers wg ?w2\<close> fewer_same [OF i]] i by (simp add: hashed_peer_def same_ids_def)
qed

section \<open>Changing a peer\<close>

lemma quiet_clear_src [quiet_intros]: "quiet wg w \<Longrightarrow> quiet wg (wg_socket_clear_peer_endpoint_src p w)"
  unfolding wg_socket_clear_peer_endpoint_src_def by (intro quiet_intros) (simp_all add: harmless_def)

lemma quiet_clear_all_srcs: "quiet wg (clear_all_srcs wg)"
proof -
  have "quiet w (fold wg_socket_clear_peer_endpoint_src ps w)" for ps w
  proof (induction ps arbitrary: w)
    case Nil
    then show ?case by (simp add: quiet_refl)
  next
    case (Cons p ps)
    then show ?case using quiet_trans [OF quiet_clear_src [OF quiet_refl] Cons.IH] by simp
  qed
  then show ?thesis by (simp add: clear_all_srcs_def)
qed

lemma same_ids_allowedips: "same_ids wg (w\<lparr>peer_allowedips := t\<rparr>) \<longleftrightarrow> same_ids wg w"
  by (simp add: same_ids_def peer_keys_def fun_eq_iff)

lemma set_allowedip_ids: "same_ids wg (snd (set_allowedip ok p a wg))"
  by (simp add: set_allowedip_def Let_def case_prod_beta same_ids_allowedips split: option.splits)

lemma set_allowedips_ids: "same_ids wg (snd (set_allowedips ok i p as wg))"
proof (induction ok i p as wg rule: set_allowedips.induct)
  case (3 ok i p a as wg)
  then show ?case using set_allowedip_ids [of wg "ok i" p a] same_ids_trans
    by (auto split: prod.splits option.splits)
qed simp_all

lemma set_keepalive_ids: "same_ids wg (set_keepalive E p i wg)"
  unfolding set_keepalive_def Let_def
  by (intro same_ids_quiet quiet_intros) (simp_all add: harmless_def)

lemma configure_peer_ids: "same_ids wg (snd (configure_peer N p psk flags attrs wg))"
proof -
  define w1 where "w1 = (case psk of None \<Rightarrow> wg | Some k \<Rightarrow> upd_handshake p (\<lambda>hs. hs\<lparr>preshared_key := k\<rparr>) wg)"
  define w2 where "w2 = (case pa_endpoint attrs of None \<Rightarrow> w1 | Some addr \<Rightarrow> wg_socket_set_peer_endpoint p (zero_endpoint\<lparr>ep_addr := addr\<rparr>) w1)"
  define w3 where "w3 = (if WGPEER_F_REPLACE_ALLOWEDIPS \<in> flags
    then w2\<lparr>peer_allowedips := wg_allowedips_remove_by_peer (peer_allowedips w2) p\<rparr> else w2)"
  obtain e w4 where w4: "(case pa_allowedips attrs of None \<Rightarrow> (None, w3) | Some as \<Rightarrow> set_allowedips (ne_node_ok N) 0 p as w3) = (e, w4)"
    by fastforce
  define w5 where "w5 = set_keepalive (ne_env N) p (pa_persistent_keepalive_interval attrs) w4"
  have "quiet wg w2" unfolding w2_def w1_def by (intro quiet_intros quiet_upd_handshake) simp_all
  then have "same_ids wg w3" by (simp add: w3_def same_ids_quiet same_ids_allowedips)
  then have i4: "same_ids wg w4"
    using w4 same_ids_trans [OF _ set_allowedips_ids, of wg w3] by (cases "pa_allowedips attrs") (auto, metis snd_conv)
  then have i5: "same_ids wg w5" unfolding w5_def by (rule same_ids_trans [OF _ set_keepalive_ids])
  have "same_ids wg (if netif_running w5 then wg_packet_send_staged_packets (ne_env N) p w5 else w5)"
    by (intro same_ids_if same_ids_trans [OF i5] same_ids_quiet quiet_intros)
  then show ?thesis
    unfolding configure_peer_def Let_def w1_def [symmetric] w2_def [symmetric] w3_def [symmetric] w4 w5_def [symmetric] prod.case
    using i4 by (cases e) simp_all
qed

lemma new_peer_key: "remote_static (handshake (new_peer C E k psk i ident)) = k"
  by (simp add: new_peer_def wg_noise_handshake_init_def precompute_static_static_def wg_noise_reset_last_sent_handshake_def
      wg_cookie_checker_precompute_peer_keys_def wg_timers_init_def Let_def)

lemma peer_create_own_key:
  assumes "wg_peer_create C E ok key psk wg = (r, wg')" "own_key_ok wg"
    and "\<not> (has_identity (static_identity wg) \<and> key = static_public (static_identity wg))"
  shows "own_key_ok wg'"
proof (cases r)
  case (Inl e)
  then have "wg' = wg" using assms(1) by (auto simp: wg_peer_create_def Let_def split: if_splits)
  then show ?thesis using assms(2) by simp
next
  case (Inr p)
  then have "static_identity wg' = static_identity wg" "peer_keys wg' = (peer_keys wg)(p := key)"
    "hashed_peer wg' q \<longrightarrow> q = p \<or> hashed_peer wg q" for q
    using assms(1)
    by (auto simp: wg_peer_create_def Let_def peer_keys_def upd_peer_def new_peer_key fun_eq_iff hashed_peer_def
        wg_pubkey_hashtable_add_def split: if_splits)
  then show ?thesis using assms(2,3) by (auto simp: own_key_ok_def)
qed

lemma own_key_quiet: "own_key_ok wg \<Longrightarrow> quiet wg w \<Longrightarrow> own_key_ok w"
  using own_key_fewer fewer_same same_ids_quiet by blast

lemma find_or_create_own_key:
  assumes "find_or_create C N key psk flags wg = (r, wg')" "own_key_ok wg"
  shows "own_key_ok wg'"
proof (cases "wg_pubkey_hashtable_lookup (peer_keys wg) (peer_alive wg) (peer_hashtable wg) key")
  case None
  show ?thesis
  proof (cases "wg' = wg")
    case True
    then show ?thesis using assms(2) by simp
  next
    case False
    then have k: "\<not> (has_identity (static_identity wg) \<and> key = static_public (static_identity wg))"
      using assms(1) None by (auto simp: find_or_create_def split: if_splits)
    obtain x w where c: "wg_peer_create C (ne_env N) (ne_dst_cache_ok N) key psk wg = (x, w)" by fastforce
    have "wg' = w \<or> (\<exists>p. wg' = wg_peer_get p w)"
      using assms(1) None False by (auto simp: find_or_create_def c split: if_splits sum.splits)
    then show ?thesis using peer_create_own_key [OF c assms(2) k] own_key_quiet [OF _ quiet_peer_get [OF quiet_refl]] by blast
  qed
next
  case (Some p)
  then show ?thesis using assms own_key_quiet [OF _ quiet_peer_get [OF quiet_refl]] by (auto simp: find_or_create_def)
qed

lemma set_peer_own_key:
  assumes "set_peer C N attrs wg = Some (r, wg')" "own_key_ok wg"
  shows "own_key_ok wg'"
proof (cases "pa_public_key attrs")
  case None
  then show ?thesis using assms by (simp add: set_peer_def)
next
  case (Some key)
  have put: "own_key_ok (wg_peer_put (Some p) w)" if "own_key_ok w" for p w
    using that own_key_quiet quiet_peer_put quiet_refl by blast
  have conf: "own_key_ok (wg_peer_put (Some p) (snd (configure_peer N p psk flags attrs w)))" if "own_key_ok w" for p psk flags w
    using that put own_key_fewer fewer_same configure_peer_ids by blast
  have rm: "own_key_ok (wg_peer_put (Some p) w')" if "wg_peer_remove C Es (Some p) w = Some w'" "own_key_ok w" for Es p w w'
    using that put own_key_fewer peer_remove_fewer by blast
  define psk where "psk = (case pa_preshared_key attrs of
    None \<Rightarrow> None | Some k \<Rightarrow> if length k = NOISE_SYMMETRIC_KEY_LEN then Some k else None)"
  define flags where "flags = (case pa_flags attrs of None \<Rightarrow> {} | Some f \<Rightarrow> f)"
  obtain x w where f: "find_or_create C N key psk flags wg = (x, w)" by fastforce
  have w: "own_key_ok w" using find_or_create_own_key [OF f assms(2)] .
  have "wg' = wg \<or> wg' = w \<or> (\<exists>p flags. wg' = wg_peer_put (Some p) (snd (configure_peer N p psk flags attrs w))) \<or>
      (\<exists>p w2. wg_peer_remove C (ne_waits N p) (Some p) w = Some w2 \<and> wg' = wg_peer_put (Some p) w2)"
    using assms(1) unfolding set_peer_def Some option.case psk_def [symmetric] flags_def [symmetric] Let_def f prod.case
    by (auto simp: apsnd_def map_prod_def case_prod_beta split: if_splits sum.splits)
  then show ?thesis using assms(2) w conf rm by blast
qed

lemma set_peers_own_key: "set_peers C Ns i ps wg = Some (r, wg') \<Longrightarrow> own_key_ok wg \<Longrightarrow> own_key_ok wg'"
proof (induction C Ns i ps wg rule: set_peers.induct)
  case (3 C Ns i a ps wg)
  then show ?case using set_peer_own_key by (auto split: option.splits)
qed simp_all

section \<open>Changing the key of the device\<close>

lemma lookup_own:
  assumes "peer_tables_ok wg" "hashed_peer wg q" "peer_keys wg q = key"
  shows "wg_pubkey_hashtable_lookup (peer_keys wg) (peer_alive wg) (peer_hashtable wg) key = Some q"
  using assms pubkey_lookup_iff [of "peer_keys wg" "peer_hashtable wg" "peer_alive wg" key q]
  by (simp add: peer_tables_ok_def hashed_peer_def)

lemma remove_own_peer_fewer:
  assumes "remove_own_peer C N priv wg = Some wg'" "peer_tables_ok wg"
  shows "fewer_peers wg wg'"
    and "curve25519_generate_public C priv = Some key \<Longrightarrow> hashed_peer wg' q \<Longrightarrow> peer_keys wg' q \<noteq> key"
proof -
  let ?w = "\<lambda>p. wg_peer_put (Some p) (wg_peer_get p wg)"
  have w: "fewer_peers wg (?w p)" for p by (intro fewer_same same_ids_quiet quiet_intros)
  have f: "fewer_peers wg wg' \<and>
    (\<forall>key q. curve25519_generate_public C priv = Some key \<longrightarrow> hashed_peer wg' q \<longrightarrow> peer_keys wg' q \<noteq> key)"
  proof (cases "curve25519_generate_public C priv")
    case None
    then show ?thesis using assms(1) by (simp add: remove_own_peer_def fewer_same)
  next
    case key: (Some key)
    show ?thesis
    proof (cases "wg_pubkey_hashtable_lookup (peer_keys wg) (peer_alive wg) (peer_hashtable wg) key")
      case None
      then have "wg' = wg" using assms(1) key by (simp add: remove_own_peer_def)
      then show ?thesis using None key lookup_own [OF assms(2)] by (auto simp: fewer_same)
    next
      case (Some p)
      then have r: "wg_peer_remove C (ne_waits N p) (Some p) (?w p) = Some wg'" using assms(1) key by (simp add: remove_own_peer_def)
      have f: "fewer_peers wg wg'" using fewer_trans [OF w peer_remove_fewer(1) [OF r]] .
      then have "hashed_peer wg' q \<Longrightarrow> peer_keys wg' q = key \<Longrightarrow> q = p" for q
        using lookup_own [OF assms(2), of q key] Some by (simp add: fewer_peers_def)
      then show ?thesis using f key peer_remove_fewer(2) [OF r] by auto
    qed
  qed
  show "fewer_peers wg wg'" using f by blast
  show "curve25519_generate_public C priv = Some key \<Longrightarrow> hashed_peer wg' q \<Longrightarrow> peer_keys wg' q \<noteq> key" using f by blast
qed

lemma rekey_peer_ids: "same_ids wg (rekey_peer C E send p wg)"
  unfolding rekey_peer_def wg_noise_expire_current_peer_keypairs_def wg_noise_precompute_static_static_def Let_def
    invalidate_sending_def
  by (intro same_ids_quiet quiet_intros quiet_upd_handshake)
    (simp_all add: harmless_def precompute_static_static_def wg_noise_reset_last_sent_handshake_def)

lemma rekey_peers_ids: "same_ids wg (fold (rekey_peer C E send) ps wg)"
proof (induction ps arbitrary: wg)
  case Nil
  then show ?case by simp
next
  case (Cons p ps)
  then show ?case using same_ids_trans [OF rekey_peer_ids Cons.IH] by simp
qed

lemma set_private_key_own_key:
  assumes "set_private_key C N priv wg = Some wg'" "own_key_ok wg" "peer_tables_ok wg"
  shows "own_key_ok wg'"
proof (cases "static_private (static_identity wg) = priv")
  case True
  then show ?thesis using assms by (simp add: set_private_key_def)
next
  case False
  then obtain w1 where w1: "remove_own_peer C N priv wg = Some w1" using assms(1) by (auto simp: set_private_key_def split: option.splits)
  define w2 where "w2 = wg_noise_set_static_identity_private_key C priv w1"
  define w3 where "w3 = w2\<lparr>checker := wg_cookie_checker_precompute_device_keys C (static_identity w2) (checker w2)\<rparr>"
  obtain send where wg': "wg' = fold (rekey_peer C (ne_env N) send) (peer_list w3) w3"
    using False assms(1) w1 by (auto simp: set_private_key_def Let_def w2_def w3_def)
  have "own_key_ok w2"
    using remove_own_peer_fewer(2) [OF w1 assms(3)]
    by (auto simp: w2_def own_key_ok_def wg_noise_set_static_identity_private_key_def Let_def hashed_peer_def peer_keys_def
        split: option.splits)
  then have "own_key_ok w3" by (simp add: w3_def own_key_ok_def hashed_peer_def peer_keys_def)
  then show ?thesis using wg' own_key_fewer fewer_same rekey_peers_ids by blast
qed

section \<open>Requests\<close>

definition same_tables :: "wg_device \<Rightarrow> wg_device \<Rightarrow> bool" where
  "same_tables wg w \<longleftrightarrow> same_ids wg w \<and> peer_list w = peer_list wg \<and> peer_alive w = peer_alive wg"

lemma peer_tables_same: "same_tables wg w \<Longrightarrow> peer_tables_ok wg \<Longrightarrow> peer_tables_ok w"
  by (simp add: same_tables_def same_ids_def peer_tables_ok_def hashed_peer_def)

lemma same_tables_trans: "same_tables a b \<Longrightarrow> same_tables b c \<Longrightarrow> same_tables a c"
  by (auto simp: same_tables_def intro: same_ids_trans)

lemma clear_all_srcs_tables: "same_tables wg (clear_all_srcs wg)"
proof -
  have step: "peer_list (wg_socket_clear_peer_endpoint_src p w) = peer_list w \<and> peer_alive (wg_socket_clear_peer_endpoint_src p w) = peer_alive w"
    for p w by (simp add: wg_socket_clear_peer_endpoint_src_def upd_peer_def peer_alive_def fun_eq_iff)
  have "peer_list (fold wg_socket_clear_peer_endpoint_src ps w) = peer_list w \<and>
      peer_alive (fold wg_socket_clear_peer_endpoint_src ps w) = peer_alive w" for ps w
    by (induction ps arbitrary: w) (simp_all add: step)
  then show ?thesis using same_ids_quiet [OF quiet_clear_all_srcs] by (simp add: same_tables_def clear_all_srcs_def)
qed

lemma settings_tables:
  "same_tables wg w \<Longrightarrow> same_tables wg (w\<lparr>incoming_port := port\<rparr>)"
  "same_tables wg w \<Longrightarrow> same_tables wg (w\<lparr>fwmark := m\<rparr>)"
  "same_tables wg w \<Longrightarrow> same_tables wg (w\<lparr>device_update_gen := g\<rparr>)"
  "same_tables wg w \<Longrightarrow> same_tables wg (snd (wg_socket_init S port w))"
  by (simp_all add: same_tables_def same_ids_def peer_keys_def peer_alive_def fun_eq_iff wg_socket_init_def wg_socket_reinit_def
      split: sum.splits)

lemma set_port_tables: "same_tables wg (snd (set_port S port wg))"
  using clear_all_srcs_tables [of wg] settings_tables(1,4) [OF clear_all_srcs_tables]
  by (simp add: set_port_def Let_def same_tables_def)

lemma remove_all_tables:
  assumes "wg_peer_remove_all C Ess wg = Some wg'" "peer_tables_ok wg"
  shows "fewer_peers wg wg' \<and> peer_tables_ok wg'"
proof -
  have f: "fewer_peers wg wg'" "\<And>p. \<not> hashed_peer wg' p"
    using remove_all_fewer [OF assms(1)] assms(2) by (auto simp: peer_tables_ok_def)
  then have "pk_table (peer_hashtable wg') b = []" for b
    using f(2) [of "hd (pk_table (peer_hashtable wg') b)"] by (auto simp: hashed_peer_def hashed_def dest: hd_in_set)
  then have "pubkey_ok (peer_keys wg') (peer_hashtable wg')"
    by (simp add: pubkey_ok_def placed_def unique_keys_def hashed_def)
  then show ?thesis using f by (simp add: peer_tables_ok_def)
qed

text \<open>
  C16. A device is never its own peer: whatever a request changes, and wherever it ends with an error, no peer of the
  resulting table has the public key of the device. A new private key removes the peer that has its public key, and no peer with
  the key of the device is created.
\<close>

theorem device_is_not_its_own_peer:
  assumes "set_device C N Ns attrs wg = Some (ret, wg')" "own_key_ok wg" "peer_tables_ok wg"
  shows "own_key_ok wg'"
proof -
  define w2 where "w2 = (case da_fwmark attrs of None \<Rightarrow> wg\<lparr>device_update_gen := device_update_gen wg + 1\<rparr>
    | Some m \<Rightarrow> clear_all_srcs (wg\<lparr>device_update_gen := device_update_gen wg + 1, fwmark := m\<rparr>))"
  obtain e w3 where w3: "(case da_listen_port attrs of None \<Rightarrow> (None, w2) | Some port \<Rightarrow> set_port (ne_sock N) port w2) = (e, w3)"
    by fastforce
  have refl: "same_tables wg wg" by (simp add: same_tables_def)
  have t2: "same_tables wg w2"
    unfolding w2_def using settings_tables(3) [OF refl] settings_tables(2) [OF settings_tables(3) [OF refl]] same_tables_trans [OF _ clear_all_srcs_tables]
    by (simp split: option.splits)
  have t3: "same_tables wg w3"
  proof (cases "da_listen_port attrs")
    case None
    then show ?thesis using w3 t2 by simp
  next
    case (Some port)
    then show ?thesis using w3 same_tables_trans [OF t2 set_port_tables, of "ne_sock N" port] by simp
  qed
  have o3: "own_key_ok w3" "peer_tables_ok w3"
    using t3 assms(2,3) own_key_fewer [OF _ fewer_same] peer_tables_same by (auto simp: same_tables_def)
  show ?thesis
  proof (cases "wg' = wg \<or> wg' = w3")
    case True
    then show ?thesis using assms(2) o3 by blast
  next
    case False
    then obtain w4 w5 where w4: "w4 = w3 \<or> wg_peer_remove_all C (ne_waits N) w3 = Some w4"
      and w5: "w5 = w4 \<or> (\<exists>key. set_private_key C N key w4 = Some w5)"
      and p: "wg' = w5 \<or> (\<exists>ps. set_peers C Ns 0 ps w5 = Some (ret, wg'))"
      using assms(1) unfolding set_device_def Let_def w2_def [symmetric] w3 prod.case
      by (auto simp: bind_eq_Some_conv split: if_splits option.splits)
    have "own_key_ok w4" "peer_tables_ok w4" using w4 o3 remove_all_tables own_key_fewer by blast+
    then have "own_key_ok w5" using w5 set_private_key_own_key by blast
    then show ?thesis using p set_peers_own_key by blast
  qed
qed

text \<open>The device takes the key of its peer.\<close>

definition demo_request :: device_attrs where
  "demo_request = \<lparr>da_ifindex = None, da_ifname = None, da_flags = None, da_listen_port = None, da_fwmark = None,
     da_private_key = Some (demo_key 2), da_peers = None\<rparr>"

definition demo_nl :: nl_env where
  "demo_nl = \<lparr>ne_env = demo_env 1, ne_waits = (\<lambda>_ _ _. demo_env 1),
     ne_sock = \<lparr>net_alive = True, ipv6_mod_enabled = True, udp_sock_create4 = (\<lambda>_. Inr), udp_sock_create6 = (\<lambda>_ _. None)\<rparr>,
     ne_dst_cache_ok = True, ne_node_ok = (\<lambda>_. (True, True)), ne_capable = (\<lambda>_. True)\<rparr>"

theorem device_is_not_its_own_peer_witness:
  "\<exists>wg'. set_device demo_crypto demo_nl (\<lambda>_. demo_nl) demo_request (demo_device 1 2) = Some (None, wg') \<and>
     peer_list wg' = [] \<and> own_key_ok (demo_device 1 2) \<and> peer_tables_ok (demo_device 1 2) \<and> own_key_ok wg'"
proof -
  let ?r = "set_device demo_crypto demo_nl (\<lambda>_. demo_nl) demo_request (demo_device 1 2)"
  have "map_option (\<lambda>(ret, wg). (ret, peer_list wg)) ?r = Some (None, [])" by code_simp
  then obtain wg' where r: "?r = Some (None, wg')" "peer_list wg' = []" by auto
  have "own_key_ok (demo_device 1 2)" "peer_tables_ok (demo_device 1 2)"
    by (simp_all add: own_key_ok_def peer_tables_ok_def hashed_peer_def hashed_def pubkey_ok_def placed_def unique_keys_def
        pubkey_bucket_def peer_alive_def peer_keys_def demo_defs)
  then show ?thesis using device_is_not_its_own_peer [OF r(1)] r by blast
qed

section \<open>A dump that fails\<close>

text \<open>
  The dump holds a reference on the peer where the last message ended. A message that cannot hold its
  header gives the reference back but keeps the peer in the context, and the end of the dump gives it back again: a peer
  with one more reference, that of its place in the list, is then released while it is still in the list.
\<close>

lemma dump_error_puts_twice:
  assumes "wg_get_device_dumpit ifindex name msg ctx wg = (Inl e, m, ctx', wg')"
    and "ctx_next_peer ctx = Some p" "peer_refcount (peers wg p) = 2"
  shows "peer_refcount (peers (wg_get_device_done ctx' wg') p) = 0 \<and> peer_list (wg_get_device_done ctx' wg') = peer_list wg"
proof -
  have w: "ctx' = ctx" "wg' = wg_peer_put (Some p) wg"
    using assms(1,2) by (auto simp: wg_get_device_dumpit_def Let_def split: sum.splits if_splits)
  have "quiet wg (wg_get_device_done ctx' wg')" unfolding w wg_get_device_done_def by (intro quiet_intros)
  then have "peer_list (wg_get_device_done ctx' wg') = peer_list wg" by (simp add: quiet_def config_def)
  moreover have "peer_refcount (peers (wg_get_device_done ctx' wg') p) = 0"
    using assms(2,3) by (simp add: w wg_get_device_done_def wg_peer_put_def kref_release_def Let_def upd_peer_def index_remove_def
        wg_packet_purge_staged_packets_def)
  ultimately show ?thesis by simp
qed

end
