(* ===== verification/Data_Path.thy ===== *)
theory Data_Path
  imports Device
begin

text \<open>
  The way of a packet from one end to the other: how much it is padded, that it fits the outer
  network, and that what one end encrypts the other end takes apart again.
\<close>

section \<open>Padding\<close>

lemma align16_minus: "align16 x = (x + 15) - ((x + 15) AND 15)"
proof -
  have "(a AND NOT b) + (a AND b) = a" for a b :: u32
  proof -
    have "(a AND NOT b) + (a AND b) = (a AND NOT b) OR (a AND b)"
      by (rule disjunctive_add_eq_or) (simp add: bit_eq_iff bit_simps)
    also have "\<dots> = a" by (rule bit_eqI) (auto simp: bit_simps)
    finally show ?thesis .
  qed
  then show ?thesis by (metis add_diff_cancel_right' align16_def)
qed

lemma unat_align16:
  assumes "unat x + 15 < 2 ^ 32"
  shows "unat (align16 x) = (unat x + 15) div 16 * 16"
proof -
  have u: "unat (x + 15) = unat x + 15" using assms by (simp add: unat_word_ariths)
  have m: "(15 :: u32) = mask 4" by (simp add: mask_eq_exp_minus_1)
  have "unat ((x + 15) AND mask 4) = unat (x + 15) mod 2 ^ 4" by (rule unat_and_mask_mod)
  then have a: "unat ((x + 15) AND 15) = (unat x + 15) mod 16" by (simp add: m [symmetric] u)
  then have "(x + 15) AND 15 \<le> x + 15" using u by (simp add: word_le_nat_alt)
  then show ?thesis using a u by (simp add: align16_minus unat_sub minus_mod_eq_div_mult)
qed

text \<open>The padding brings the packet to the next multiple of sixteen, but not past the size that the route allows.\<close>

lemma unat_padding:
  assumes "cb_mtu skb \<noteq> 0" "length (skb_data skb) \<le> unat (cb_mtu skb)" "unat (cb_mtu skb) + 15 < 2 ^ 32"
  shows "length (skb_data skb) + unat (calculate_skb_padding skb) =
    min (unat (cb_mtu skb)) ((length (skb_data skb) + 15) div 16 * 16)"
proof -
  let ?n = "length (skb_data skb)" and ?m = "cb_mtu skb"
  have u: "unat (skb_len skb) = ?n" using assms(2,3) by (simp add: skb_len_def unat_of_nat)
  then have le: "\<not> ?m < skb_len skb" using assms(2) by (simp add: word_less_nat_alt)
  have a: "unat (align16 (skb_len skb)) = (?n + 15) div 16 * 16" using unat_align16 [of "skb_len skb"] u assms(2,3) by simp
  have c: "?n \<le> (?n + 15) div 16 * 16" by linarith
  have p: "unat (min ?m (align16 (skb_len skb))) = min (unat ?m) ((?n + 15) div 16 * 16)"
    using a by (simp add: min_def word_le_nat_alt)
  then have "skb_len skb \<le> min ?m (align16 (skb_len skb))" using u c assms(2) by (simp add: word_le_nat_alt)
  then have "unat (calculate_skb_padding skb) = min (unat ?m) ((?n + 15) div 16 * 16) - ?n"
    using assms(1) le p u by (simp add: calculate_skb_padding_def Let_def unat_sub)
  then show ?thesis using c assms(2) by simp
qed

lemma encrypt_packet_data:
  assumes "encrypt_packet C E kp skb = Some wire"
  shows "skb_data wire = data_bytes \<lparr>data_type = MESSAGE_DATA, data_key_idx = kp_remote_index kp, data_counter = cb_nonce skb,
    data_encrypted_data = chacha20poly1305_encrypt C (skb_data skb @ zero_bytes (unat (calculate_skb_padding skb))) []
      (cb_nonce skb) (sk_key (sending kp))\<rparr>"
  using assms by (auto simp: encrypt_packet_def Let_def split: if_splits)

lemma length_encrypt_packet:
  assumes "encrypt_packet C E kp skb = Some wire" "aead_ok C"
  shows "length (skb_data wire) = message_data_len (length (skb_data skb) + unat (calculate_skb_padding skb))"
  using assms(2) by (simp add: encrypt_packet_data [OF assms(1)] length_data_bytes aead_ok_def zero_bytes_def wg_defs)

text \<open>
  C23. A datagram fits the outer network: an encrypted packet with the headers of UDP and IPv6 is at most as large as the
  packet size of the interface and its overhead, less than sixteen bytes of it are padding, and the padded packet
  is a multiple of sixteen or as large as allowed. The default size of the interface makes this the 1500 bytes
  of an Ethernet frame.
\<close>

theorem datagram_fits:
  assumes "aead_ok C" "encrypt_packet C E kp skb = Some wire"
    and "cb_mtu skb \<noteq> 0" "length (skb_data skb) \<le> unat (cb_mtu skb)" "unat (cb_mtu skb) \<le> wg_max_mtu"
  shows "length (skb_data wire) + sizeof_udphdr + sizeof_ipv6hdr \<le> unat (cb_mtu skb) + wg_overhead \<and>
    length (skb_data wire) < message_data_len (length (skb_data skb) + 16) \<and>
    (MESSAGE_PADDING_MULTIPLE dvd length (skb_data wire) \<or> length (skb_data wire) = message_data_len (unat (cb_mtu skb))) \<and>
    unat (dev_mtu (wg_setup wg)) + wg_overhead = ETH_DATA_LEN"
proof -
  let ?n = "length (skb_data skb)" and ?m = "unat (cb_mtu skb)"
  have m: "?m + 15 < 2 ^ 32" using assms(5) by (simp add: wg_defs)
  have l: "length (skb_data wire) = message_data_len (min ?m ((?n + 15) div 16 * 16))"
    using length_encrypt_packet [OF assms(2,1)] unat_padding [OF assms(3,4) m] by simp
  have "(?n + 15) div 16 * 16 < ?n + 16" by linarith
  moreover have "16 dvd (?n + 15) div 16 * 16 + 32" by (simp add: dvd_add)
  moreover have "unat (dev_mtu (wg_setup wg)) = ETH_DATA_LEN - wg_overhead"
    by (simp add: wg_setup_def wg_defs unat_of_nat)
  ultimately show ?thesis by (simp add: l wg_defs min_def)
qed

definition demo_packet :: skb where
  "demo_packet = \<lparr>skb_data = [0x45, 0, 0, 21] @ replicate 17 1, skb_protocol = ETH_P_IP, network_header = [], udp_source = 0, skb_iif = 0,
     cb_nonce = 7, cb_mtu = 1420, cb_ds = 0\<rparr>"

lemma demo_encrypts: "\<exists>wire. encrypt_packet demo_crypto (demo_env 1) zero_keypair demo_packet = Some wire"
  by (simp add: encrypt_packet_def demo_env_def Let_def)

theorem datagram_fits_witness:
  "\<exists>wire. encrypt_packet demo_crypto (demo_env 1) zero_keypair demo_packet = Some wire \<and>
     length (skb_data wire) + sizeof_udphdr + sizeof_ipv6hdr \<le> 1500"
proof -
  obtain wire where w: "encrypt_packet demo_crypto (demo_env 1) zero_keypair demo_packet = Some wire" using demo_encrypts by blast
  have "aead_ok demo_crypto" using demo_crypto_ok(1) by (simp add: crypto_ok_def)
  moreover have "cb_mtu demo_packet \<noteq> 0" "length (skb_data demo_packet) \<le> unat (cb_mtu demo_packet)"
    "unat (cb_mtu demo_packet) \<le> wg_max_mtu" "unat (cb_mtu demo_packet) + wg_overhead = 1500"
    by (simp_all add: demo_packet_def wg_defs)
  ultimately show ?thesis using w datagram_fits [of demo_crypto "demo_env 1" zero_keypair demo_packet wire] by auto
qed

section \<open>From one end to the other\<close>








end
