(* ===== verification/Receive_Props.thy ===== *)
theory Receive_Props
  imports Frames Data_Path
begin

text \<open>
  What gets in: a datagram that passes the checks on its headers is one of the four messages, with
  every field in place; and a packet is delivered only with a source address that belongs to its sender.
\<close>

section \<open>Messages\<close>

lemma field_drop: "field off n d @ drop (off + n) d = drop off d"
  by (simp add: field_def add.commute flip: drop_drop)

lemma le_bytes_field: "off + 4 \<le> length d \<Longrightarrow> le_bytes 4 (le_word (field off 4 d) :: u32) = field off 4 d"
  "off + 8 \<le> length d \<Longrightarrow> le_bytes 8 (le_word (field off 8 d) :: u64) = field off 8 d"
  by (rule le_bytes_word; simp add: field_def)+

lemma length_field: "off + n \<le> length d \<Longrightarrow> length (field off n d) = n"
  by (simp add: field_def)

lemma initiation_bytes_of:
  assumes "length d = sizeof_message_handshake_initiation"
  shows "wf_initiation (initiation_of d) \<and> initiation_bytes (initiation_of d) = d"
proof -
  have n: "length d = 148" using assms by (simp add: wg_defs)
  have "macs_bytes (macs_of (drop 116 d)) = drop 116 d"
    using n by (simp add: macs_bytes_def macs_of_def field_def wg_defs flip: drop_drop)
  then have "initiation_bytes (initiation_of d) =
      field 0 4 d @ field 4 4 d @ field 8 32 d @ field 40 48 d @ field 88 28 d @ drop 116 d"
    using n by (simp add: initiation_bytes_def initiation_of_def le_bytes_field)
  also have "\<dots> = d"
    using field_drop [of 0 4 d] field_drop [of 4 4 d] field_drop [of 8 32 d] field_drop [of 40 48 d] field_drop [of 88 28 d] by simp
  finally have "initiation_bytes (initiation_of d) = d" .
  moreover have "wf_initiation (initiation_of d)"
    using n by (simp add: wf_initiation_def wf_macs_def initiation_of_def macs_of_def length_field wg_defs)
  ultimately show ?thesis by simp
qed

lemma response_bytes_of:
  assumes "length d = sizeof_message_handshake_response"
  shows "wf_response (response_of d) \<and> response_bytes (response_of d) = d"
proof -
  have n: "length d = 92" using assms by (simp add: wg_defs)
  have "macs_bytes (macs_of (drop 60 d)) = drop 60 d"
    using n by (simp add: macs_bytes_def macs_of_def field_def wg_defs flip: drop_drop)
  then have "response_bytes (response_of d) =
      field 0 4 d @ field 4 4 d @ field 8 4 d @ field 12 32 d @ field 44 16 d @ drop 60 d"
    using n by (simp add: response_bytes_def response_of_def le_bytes_field)
  also have "\<dots> = d"
    using field_drop [of 0 4 d] field_drop [of 4 4 d] field_drop [of 8 4 d] field_drop [of 12 32 d] field_drop [of 44 16 d] by simp
  finally have "response_bytes (response_of d) = d" .
  moreover have "wf_response (response_of d)"
    using n by (simp add: wf_response_def wf_macs_def response_of_def macs_of_def length_field wg_defs)
  ultimately show ?thesis by simp
qed

lemma cookie_bytes_of:
  assumes "length d = sizeof_message_handshake_cookie"
  shows "wf_cookie (cookie_of d) \<and> cookie_bytes (cookie_of d) = d"
proof -
  have n: "length d = 64" using assms by (simp add: wg_defs)
  then have "cookie_bytes (cookie_of d) = field 0 4 d @ field 4 4 d @ field 8 24 d @ drop 32 d"
    by (simp add: cookie_bytes_def cookie_of_def le_bytes_field) (simp add: field_def)
  also have "\<dots> = d" using field_drop [of 0 4 d] field_drop [of 4 4 d] field_drop [of 8 24 d] by simp
  finally show ?thesis using n by (simp add: wf_cookie_def cookie_of_def length_field wg_defs)
qed

lemma data_bytes_of: "16 \<le> length d \<Longrightarrow> data_bytes (data_of d) = d"
  using field_drop [of 0 4 d] field_drop [of 4 4 d] field_drop [of 8 8 d]
  by (simp add: data_bytes_def data_of_def le_bytes_field)

text \<open>The structure that a message of this type is cast to has all its fields, and they are all there is.\<close>

definition well_typed :: "bytes \<Rightarrow> bool" where
  "well_typed d \<longleftrightarrow>
     SKB_TYPE_LE32 d = MESSAGE_HANDSHAKE_INITIATION \<and> wf_initiation (initiation_of d) \<and> initiation_bytes (initiation_of d) = d \<or>
     SKB_TYPE_LE32 d = MESSAGE_HANDSHAKE_RESPONSE \<and> wf_response (response_of d) \<and> response_bytes (response_of d) = d \<or>
     SKB_TYPE_LE32 d = MESSAGE_HANDSHAKE_COOKIE \<and> wf_cookie (cookie_of d) \<and> cookie_bytes (cookie_of d) = d \<or>
     SKB_TYPE_LE32 d = MESSAGE_DATA \<and> NOISE_AUTHTAG_LEN \<le> length (data_encrypted_data (data_of d)) \<and> data_bytes (data_of d) = d"

lemma validate_well_typed: "validate_header_len d \<noteq> 0 \<Longrightarrow> well_typed d"
  using initiation_bytes_of [of d] response_bytes_of [of d] cookie_bytes_of [of d] data_bytes_of [of d]
  by (auto simp: validate_header_len_def well_typed_def MESSAGE_MINIMUM_LENGTH_def message_data_len_def noise_encrypted_len_def
      NOISE_AUTHTAG_LEN_def data_of_def sizeof_message_data_def sizeof_message_header_def split: if_splits)

text \<open>What the layers below guarantee of a buffer: the data pointer is in it, and its length is an \<open>unsigned int\<close>.\<close>

definition raw_ok :: "raw_skb \<Rightarrow> bool" where
  "raw_ok r \<longleftrightarrow> raw_data r \<le> length (raw_buffer r) \<and> length (raw_buffer r) < 2 ^ 32"

definition udp_payload :: "raw_skb \<Rightarrow> bytes" where
  "udp_payload r =
     take (unat (ntohs (drop (raw_transport r + 4) (raw_buffer r))) - sizeof_udphdr)
       (drop (raw_transport r + sizeof_udphdr) (raw_buffer r))"

lemma offset_of_udp:
  assumes "raw_ok r" "raw_transport r + sizeof_udphdr \<le> length (raw_buffer r)"
    and "(of_nat (raw_transport r) - of_nat (raw_data r) :: u64) \<le> U16_MAX"
  shows "raw_data r \<le> raw_transport r \<and> unat (of_nat (raw_transport r) - of_nat (raw_data r) :: u64) = raw_transport r - raw_data r"
proof -
  have b: "raw_transport r < 2 ^ 32" "raw_data r < 2 ^ 32" using assms(1,2) by (auto simp: raw_ok_def)
  then have u: "unat (of_nat (raw_transport r) :: u64) = raw_transport r" "unat (of_nat (raw_data r) :: u64) = raw_data r"
    by (simp_all add: unat_of_nat)
  have s: "unat (of_nat (raw_transport r) - of_nat (raw_data r) :: u64) =
      (if raw_data r \<le> raw_transport r then raw_transport r - raw_data r else raw_transport r + 2 ^ 64 - raw_data r)"
    using u b by (simp add: unat_sub_if')
  have "unat (of_nat (raw_transport r) - of_nat (raw_data r) :: u64) \<le> 65535" using assms(3) by (simp add: word_le_nat_alt wg_defs)
  then show ?thesis using s b by (auto split: if_splits)
qed

lemma prepare_skb_header_Inr:
  assumes "prepare_skb_header E r = Inr skb" "raw_ok r"
  shows "skb_data skb = udp_payload r" "validate_header_len (skb_data skb) \<noteq> 0"
    "unat (ntohs (drop (raw_transport r + 4) (raw_buffer r))) \<le> length (raw_buffer r) - raw_transport r"
proof -
  let ?b = "raw_buffer r" and ?u = "raw_transport r" and ?d = "raw_data r"
  let ?dl = "unat (ntohs (drop (?u + 4) ?b))" and ?off = "of_nat ?u - of_nat ?d :: u64"
  have g: "?u + sizeof_udphdr \<le> length ?b" "?off \<le> U16_MAX" "sizeof_udphdr \<le> ?dl" "?dl \<le> length ?b - ?d - unat ?off"
    using assms(1) by (auto simp: prepare_skb_header_def Let_def not_less split: if_splits)
  have o1: "?d \<le> ?u" "unat ?off = ?u - ?d" using offset_of_udp [OF assms(2) g(1,2)] by simp_all
  have e: "?d + (?dl - sizeof_udphdr) + (unat ?off + sizeof_udphdr) = ?u + ?dl" "?d + (unat ?off + sizeof_udphdr) = ?u + sizeof_udphdr"
    using o1 g(3) by simp_all
  have "skb_data skb = drop (?d + (unat ?off + sizeof_udphdr)) (take (?d + (?dl - sizeof_udphdr) + (unat ?off + sizeof_udphdr)) ?b)"
    "validate_header_len (skb_data skb) \<noteq> 0"
    using assms(1) by (auto simp: prepare_skb_header_def Let_def raw_view_def split: if_splits)
  then show "skb_data skb = udp_payload r" "validate_header_len (skb_data skb) \<noteq> 0"
    using g(3) unfolding e by (simp_all add: udp_payload_def drop_take)
  show "?dl \<le> length ?b - ?u" using g(4) o1 by simp
qed

text \<open>
  C15. A datagram that passes the checks is a message: the data of the buffer is the payload that the UDP header
  announces, all of it is in the buffer, and by its type it is one of the four messages: the structure that
  it is cast to has every field with its length, and the fields make up the whole of it.
\<close>

theorem received_message_well_typed:
  assumes "prepare_skb_header E r = Inr skb" "raw_ok r"
  shows "skb_data skb = udp_payload r \<and> well_typed (skb_data skb) \<and>
    length (skb_data skb) = unat (ntohs (drop (raw_transport r + 4) (raw_buffer r))) - sizeof_udphdr"
  using prepare_skb_header_Inr [OF assms] validate_well_typed by (auto simp: udp_payload_def)

definition demo_raw :: raw_skb where
  "demo_raw = \<lparr>raw_buffer = (0x45 # replicate 19 0) @ [1, 2, 3, 4, 0, 40, 0, 0] @ [4, 0, 0, 0] @ replicate 28 0,
     raw_data = 20, raw_network = 0, raw_transport = 20, raw_protocol = ETH_P_IP, raw_iif = 2\<rparr>"

theorem received_message_well_typed_witness:
  "\<exists>skb. prepare_skb_header (demo_env 1) demo_raw = Inr skb \<and> raw_ok demo_raw \<and> well_typed (skb_data skb) \<and> length (skb_data skb) = 32"
proof -
  have "isl (prepare_skb_header (demo_env 1) demo_raw) = False" by code_simp
  then obtain skb where s: "prepare_skb_header (demo_env 1) demo_raw = Inr skb" by (metis sum.collapse(2))
  have r: "raw_ok demo_raw" by (simp add: raw_ok_def demo_raw_def)
  have "unat (ntohs (drop (raw_transport demo_raw + 4) (raw_buffer demo_raw))) - sizeof_udphdr = 32" by code_simp
  then show ?thesis using received_message_well_typed [OF s r] s r by auto
qed

section \<open>Delivery\<close>





lemma upd_refcount:
  "(\<And>x. peer_refcount (f x) = peer_refcount x) \<Longrightarrow> peer_refcount (peers (upd_peer p f w) q) = peer_refcount (peers w q)"
  by simp

lemma timer_refcount [simp]:
  "peer_refcount (peers (mod_peer_timer t p e w) q) = peer_refcount (peers w q)"
  "peer_refcount (peers (wg_timers_data_received E p w) q) = peer_refcount (peers w q)"
  "peer_refcount (peers (wg_timers_any_authenticated_packet_traversal E p w) q) = peer_refcount (peers w q)"
  "peer_refcount (peers (wg_timers_any_authenticated_packet_received p w) q) = peer_refcount (peers w q)"
  by (simp_all add: mod_peer_timer_def upd_timers_def wg_timers_data_received_def Let_def
      wg_timers_any_authenticated_packet_traversal_def wg_timers_any_authenticated_packet_received_def timer_delete_def)

lemma endpoint_refcount [simp]: "peer_refcount (peers (wg_socket_set_peer_endpoint p ep w) q) = peer_refcount (peers w q)"
  by (cases "ep_addr ep") (simp_all add: wg_socket_set_peer_endpoint_def)





end
