(* ===== verification/Send_Props.thy ===== *)
theory Send_Props
  imports Send
begin

text \<open>
  Nonces are not reused: the numbers that the packets of a keypair get are increasing and below the
  limit, over every sequence of calls, also when the limit is reached.
\<close>

section \<open>What sending leaves alone\<close>

lemma upd_works_simps [simp]:
  "keypair_store (upd_works p f wg) = keypair_store wg" "queues (upd_works p f wg) = queues wg"
  by (simp_all add: upd_works_def upd_peer_def)

lemma upd_peer_queues [simp]: "queues (upd_peer p f wg) = queues wg" "outputs (upd_peer p f wg) = outputs wg"
  by (simp_all add: upd_peer_def)

lemma get_same [simp]: "keypair_store (wg_peer_get p wg) = keypair_store wg" "queues (wg_peer_get p wg) = queues wg"
  by (simp_all add: wg_peer_get_def)

lemma queued_initiation_same [simp]:
  "keypair_store (wg_packet_send_queued_handshake_initiation E r p wg) = keypair_store wg"
  "queues (wg_packet_send_queued_handshake_initiation E r p wg) = queues wg"
  by (simp_all add: wg_packet_send_queued_handshake_initiation_def Let_def)

lemma upd_queues_simps [simp]:
  "keypair_store (upd_queues f wg) = keypair_store wg" "queues (upd_queues f wg) = f (queues wg)"
  "peers (upd_queues f wg) = peers wg" "index_table (upd_queues f wg) = index_table wg"
  by (simp_all add: upd_queues_def)

lemma upd_packet_simps [simp]:
  "keypair_store (upd_packet n f wg) = keypair_store wg" "next_packet (queues (upd_packet n f wg)) = next_packet (queues wg)"
  "the_packet (upd_packet n f wg) m = (if m = n then f (the_packet wg n) else the_packet wg m)"
  by (simp_all add: upd_packet_def the_packet_def)

lemma keypair_put_queues [simp]: "queues (wg_noise_keypair_put k now wg) = queues wg"
  by (simp add: wg_noise_keypair_put_def keypair_free_kref_def index_remove_def upd_keypair_def Let_def split: option.splits)

text \<open>A reference to a keypair that is taken or given back does not touch its keys and its counters.\<close>

definition same_keys :: "wg_device \<Rightarrow> wg_device \<Rightarrow> bool" where
  "same_keys wg wg' \<longleftrightarrow> (\<forall>k. sending (keypair_store wg' k) = sending (keypair_store wg k) \<and>
     sending_counter (keypair_store wg' k) = sending_counter (keypair_store wg k))"

lemma same_keys_eq: "keypair_store wg' = keypair_store wg \<Longrightarrow> same_keys wg wg'"
  by (simp add: same_keys_def)

lemma same_send_keys_trans: "same_keys a b \<Longrightarrow> same_keys b c \<Longrightarrow> same_keys a c"
  by (simp add: same_keys_def)

lemma same_keys_put [intro]: "same_keys wg (wg_noise_keypair_put k now wg)"
  by (simp add: same_keys_def wg_noise_keypair_put_def keypair_free_kref_def index_remove_def upd_keypair_def Let_def
      split: option.splits)

text \<open>The packets that are in flight keep their buffers and their keypair.\<close>

definition same_packets :: "wg_device \<Rightarrow> wg_device \<Rightarrow> bool" where
  "same_packets wg wg' \<longleftrightarrow> next_packet (queues wg') = next_packet (queues wg) \<and>
     (\<forall>n. pk_skbs (the_packet wg' n) = pk_skbs (the_packet wg n) \<and> pk_keypair (the_packet wg' n) = pk_keypair (the_packet wg n))"

lemma same_packets_eq: "queues wg' = queues wg \<Longrightarrow> same_packets wg wg'"
  by (simp add: same_packets_def the_packet_def)

lemma same_packets_trans: "same_packets a b \<Longrightarrow> same_packets b c \<Longrightarrow> same_packets a c"
  by (simp add: same_packets_def)

lemma enqueue_same:
  "keypair_store (snd (wg_queue_enqueue_per_device_and_peer E tx p n wg)) = keypair_store wg"
  "same_packets wg (snd (wg_queue_enqueue_per_device_and_peer E tx p n wg))"
  by (auto simp: wg_queue_enqueue_per_device_and_peer_def peer_enqueue_def upd_device_queue_def Let_def same_packets_def the_packet_def
      upd_packet_def split: prod.splits)

lemma per_peer_tx_same:
  "keypair_store (wg_queue_enqueue_per_peer_tx E n s wg) = keypair_store wg"
  "same_packets wg (wg_queue_enqueue_per_peer_tx E n s wg)"
  by (auto simp: wg_queue_enqueue_per_peer_tx_def Let_def same_packets_def the_packet_def upd_packet_def)

lemma create_data_same: "same_keys wg (wg_packet_create_data E p n wg) \<and> same_packets wg (wg_packet_create_data E p n wg)"
proof -
  let ?m = "if is_dead (peers wg p) then (Some EINVAL, wg)
     else case wg_queue_enqueue_per_device_and_peer E True p n wg of
       (ret, wg1) \<Rightarrow> (ret, if ret = Some EPIPE then wg_queue_enqueue_per_peer_tx E n PACKET_STATE_DEAD wg1 else wg1)"
  have m: "keypair_store (snd ?m) = keypair_store wg" "same_packets wg (snd ?m)"
    using enqueue_same [where E = E and tx = True and p = p and n = n and wg = wg] per_peer_tx_same same_packets_eq [OF refl]
    by (auto split: prod.splits intro: same_packets_trans)
  have "same_keys wg (snd ?m)" "same_keys wg (wg_peer_put (Some p) (wg_noise_keypair_put q False (snd ?m)))"
    "same_packets wg (wg_peer_put (Some p) (wg_noise_keypair_put q False (snd ?m)))" for q
    using m same_keys_put [of "snd ?m" q False] by (auto simp: same_keys_def same_packets_def the_packet_def)
  moreover obtain ret wg1 where e: "?m = (ret, wg1)" by fastforce
  ultimately show ?thesis using m unfolding wg_packet_create_data_def Let_def e by simp
qed

lemma restage_same:
  "same_keys wg (restage E p k ss wg)" "queues (restage E p k ss wg) = queues wg"
  using same_keys_put [of wg k False] by (auto simp: restage_def same_keys_def)

section \<open>Nonces\<close>

text \<open>A successful assignment numbers the packets consecutively; every one is below the limit.\<close>

lemma assign_nonces_ok:
  assumes "assign_nonces E ss c = (True, ss1, c1)" "unat c \<le> unat REJECT_AFTER_MESSAGES"
  shows "map (unat \<circ> cb_nonce) ss1 = [unat c..<unat c1] \<and> unat c \<le> unat c1 \<and> unat c1 \<le> unat REJECT_AFTER_MESSAGES"
  using assms
proof (induction ss arbitrary: c ss1)
  case Nil
  then show ?case by simp
next
  case (Cons s ss)
  then have lt: "c < REJECT_AFTER_MESSAGES" by (auto simp: Let_def split: if_splits prod.splits)
  obtain ss2 where r: "assign_nonces E ss (c + 1) = (True, ss2, c1)" and ss1: "ss1 = s\<lparr>cb_ds := ip_tunnel_ecn_encap E s, cb_nonce := c\<rparr> # ss2"
    using Cons.prems(1) by (auto simp: Let_def split: if_splits prod.splits)
  have "c \<noteq> - 1" using lt by (auto simp: wg_defs)
  then have s: "unat (c + 1) = unat c + 1" by (metis add.commute add.inverse_inverse add_eq_0_iff Suc_eq_plus1 unatSuc)
  have le: "unat (c + 1) \<le> unat REJECT_AFTER_MESSAGES" using lt s by (simp add: word_less_nat_alt)
  from Cons.IH [OF r le] s show ?case by (simp add: ss1 upt_rec [of "unat c" "unat c1"])
qed

text \<open>
  The numbers of the packets of a keypair that a call has put in flight; and what everything else may do to the
  keypair meanwhile: take away its validity, but not give it back, and not touch the counter.
\<close>

definition sent_nonces :: "nat \<Rightarrow> wg_device \<Rightarrow> wg_device \<Rightarrow> u64 list" where
  "sent_nonces k wg wg' =
     concat (map (\<lambda>n. if pk_keypair (the_packet wg' n) = Some k then map cb_nonce (pk_skbs (the_packet wg' n)) else [])
       [next_packet (queues wg)..<next_packet (queues wg')])"

definition keeps_sending :: "nat \<Rightarrow> wg_device \<Rightarrow> wg_device \<Rightarrow> bool" where
  "keeps_sending k wg wg' \<longleftrightarrow>
     sending_counter (keypair_store wg' k) = sending_counter (keypair_store wg k) \<and>
     (sk_is_valid (sending (keypair_store wg' k)) \<longrightarrow> sk_is_valid (sending (keypair_store wg k)))"

inductive tx_run :: "nat \<Rightarrow> wg_device \<Rightarrow> u64 list \<Rightarrow> wg_device \<Rightarrow> bool" for k wg0 where
  tx_start: "tx_run k wg0 [] wg0"
| tx_send: "tx_run k wg0 ns wg \<Longrightarrow> wg' = wg_packet_send_staged_packets E p wg \<Longrightarrow> tx_run k wg0 (ns @ sent_nonces k wg wg') wg'"
| tx_other: "tx_run k wg0 ns wg \<Longrightarrow> keeps_sending k wg wg' \<Longrightarrow> tx_run k wg0 ns wg'"

lemma sent_nonces_none: "next_packet (queues wg') = next_packet (queues wg) \<Longrightarrow> sent_nonces k wg wg' = []"
  by (simp add: sent_nonces_def)

lemma send_staged_nonces:
  fixes E p wg k
  defines "wg' \<equiv> wg_packet_send_staged_packets E p wg"
  shows "sent_nonces k wg wg' = [] \<and>
      (sk_is_valid (sending (keypair_store wg' k)) \<longrightarrow> keeps_sending k wg wg') \<or>
    (\<exists>ss1. assign_nonces E (staged_packet_queue (peers wg p)) (sending_counter (keypair_store wg k)) =
        (True, ss1, sending_counter (keypair_store wg' k)) \<and>
      sk_is_valid (sending (keypair_store wg k)) \<and> sent_nonces k wg wg' = map cb_nonce ss1)"
proof -
  let ?ss = "staged_packet_queue (peers wg p)"
  let ?wg0 = "upd_peer p (\<lambda>peer. peer\<lparr>staged_packet_queue := []\<rparr>) wg"
  have restage_none: ?thesis
    if "wg' = restage E p q ss w" "queues w = queues wg"
      "sk_is_valid (sending (keypair_store w k)) \<longrightarrow> keeps_sending k wg w" for q ss w
    using that restage_same [where wg = w and E = E and p = p and k = q and ss = ss] by (auto simp: sent_nonces_def same_keys_def keeps_sending_def)
  show ?thesis
  proof (cases "?ss = []")
    case True
    then show ?thesis by (simp add: wg'_def wg_packet_send_staged_packets_def sent_nonces_def keeps_sending_def)
  next
    case ne: False
    obtain r wg1 where get: "wg_noise_keypair_get (current_keypair (slots ?wg0 p)) ?wg0 = (r, wg1)" by fastforce
    have w1: "queues wg1 = queues wg" "\<And>j. sending (keypair_store wg1 j) = sending (keypair_store wg j)"
      "\<And>j. sending_counter (keypair_store wg1 j) = sending_counter (keypair_store wg j)"
      using get by (auto simp: wg_noise_keypair_get_def upd_keypair_def split: option.splits if_splits)
    have k1: "keeps_sending k wg wg1" by (simp add: keeps_sending_def w1)
    show ?thesis
    proof (cases r)
      case None
      then show ?thesis using ne get restage_none [of None ?ss wg1] k1 w1(1)
        by (simp add: wg'_def wg_packet_send_staged_packets_def)
    next
      case (Some j)
      let ?kp = "keypair_store wg1 j"
      let ?inv = "upd_keypair j (\<lambda>kp. kp\<lparr>sending := (sending kp)\<lparr>sk_is_valid := False\<rparr>\<rparr>)"
      note d = wg_packet_send_staged_packets_def Let_def
      consider "\<not> sk_is_valid (sending ?kp)"
        | "sk_is_valid (sending ?kp)" "wg_birthdate_has_expired E (sk_birthdate (sending ?kp)) REJECT_AFTER_TIME"
        | "sk_is_valid (sending ?kp)" "\<not> wg_birthdate_has_expired E (sk_birthdate (sending ?kp)) REJECT_AFTER_TIME" by blast
      then show ?thesis
      proof cases
        case 1
        then show ?thesis using ne get Some restage_none [of "Some j" ?ss wg1] k1 w1(1) by (simp add: wg'_def d)
      next
        case 2
        then show ?thesis using ne get Some restage_none [of "Some j" ?ss "?inv wg1"] k1 w1
          by (simp add: wg'_def d upd_keypair_def keeps_sending_def)
      next
        case 3
        obtain ok ss1 c where a: "assign_nonces E ?ss (sending_counter ?kp) = (ok, ss1, c)" by (metis prod_cases3)
        let ?wg2 = "upd_keypair j (\<lambda>kp. kp\<lparr>sending_counter := c\<rparr>) wg1"
        show ?thesis
        proof (cases ok)
          case False
          then show ?thesis using ne get Some 3 a restage_none [of "Some j" ss1 "?inv ?wg2"] w1
            by (auto simp: wg'_def d upd_keypair_def keeps_sending_def)
        next
          case True
          obtain n wg3 where n: "new_packet ss1 (Some j) (wg_peer_get (the (ih_peer (index_table ?wg2) (KP j))) ?wg2) = (n, wg3)"
            by fastforce
          have w': "wg' = wg_packet_create_data E p n wg3"
            using ne get Some 3 a True n by (simp add: wg'_def d)
          have c: "same_keys wg3 wg'" "same_packets wg3 wg'" using create_data_same [of wg3 E p n] w' by simp_all
          have p3: "keypair_store wg3 = keypair_store ?wg2" "n = next_packet (queues wg)" "next_packet (queues wg3) = Suc n"
            "pk_skbs (the_packet wg3 n) = ss1" "pk_keypair (the_packet wg3 n) = Some j"
            using n w1(1) by (auto simp: new_packet_def Let_def the_packet_def upd_keypair_def)
          have sent: "sent_nonces k wg wg' = (if j = k then map cb_nonce ss1 else [])"
            using c(2) p3 by (simp add: sent_nonces_def same_packets_def)
          have keys: "sending (keypair_store wg' i) = sending (keypair_store wg i)"
            "sending_counter (keypair_store wg' i) = (if i = j then c else sending_counter (keypair_store wg i))" for i
            using c(1) p3(1) w1 by (auto simp: same_keys_def upd_keypair_def)
          show ?thesis using sent keys a 3 w1 True by (cases "j = k") (auto simp: keeps_sending_def)
        qed
      qed
    qed
  qed
qed

lemma tx_run_inv:
  assumes "tx_run k wg0 ns wg" "sending_counter (keypair_store wg0 k) \<le> REJECT_AFTER_MESSAGES"
  shows "sorted_wrt (<) (map unat ns) \<and> (\<forall>x\<in>set ns. unat x < unat REJECT_AFTER_MESSAGES) \<and>
    (sk_is_valid (sending (keypair_store wg k)) \<longrightarrow>
      sending_counter (keypair_store wg k) \<le> REJECT_AFTER_MESSAGES \<and>
      (\<forall>x\<in>set ns. unat x < unat (sending_counter (keypair_store wg k))))"
  using assms
proof (induction rule: tx_run.induct)
  case tx_start
  then show ?case by simp
next
  case (tx_send ns wg wg' E p)
  let ?c = "sending_counter (keypair_store wg k)" and ?c' = "sending_counter (keypair_store wg' k)"
  from send_staged_nonces [of k wg E p] tx_send.hyps(2) consider
      "sent_nonces k wg wg' = []" "sk_is_valid (sending (keypair_store wg' k)) \<longrightarrow> keeps_sending k wg wg'"
    | ss1 where "assign_nonces E (staged_packet_queue (peers wg p)) ?c = (True, ss1, ?c')"
      "sk_is_valid (sending (keypair_store wg k))" "sent_nonces k wg wg' = map cb_nonce ss1" by blast
  then show ?case
  proof cases
    case 1
    then show ?thesis using tx_send by (auto simp: keeps_sending_def)
  next
    case 2
    have ih: "?c \<le> REJECT_AFTER_MESSAGES" "\<forall>x\<in>set ns. unat x < unat ?c" "sorted_wrt (<) (map unat ns)"
      "\<forall>x\<in>set ns. unat x < unat REJECT_AFTER_MESSAGES"
      using tx_send 2(2) by auto
    have a: "map (unat \<circ> cb_nonce) ss1 = [unat ?c..<unat ?c']" "unat ?c \<le> unat ?c'" "unat ?c' \<le> unat REJECT_AFTER_MESSAGES"
      using assign_nonces_ok [OF 2(1)] ih(1) by (simp_all add: word_le_nat_alt)
    have s: "set (map unat (sent_nonces k wg wg')) = {unat ?c..<unat ?c'}" "map unat (sent_nonces k wg wg') = [unat ?c..<unat ?c']"
      using a(1) by (simp_all add: 2(3))
    have x: "unat x < unat ?c' \<and> unat ?c \<le> unat x" if "x \<in> set (sent_nonces k wg wg')" for x
      using that s(1) by (metis atLeastLessThan_iff image_eqI list.set_map)
    show ?thesis
      unfolding map_append sorted_wrt_append s(2)
      using ih a(2,3) x by (fastforce simp: word_le_nat_alt)
  qed
next
  case (tx_other ns wg wg')
  then show ?case by (auto simp: keeps_sending_def)
qed

text \<open>
  C5. No nonce is used twice: over every sequence of calls that send the staged packets of any peer, with whatever
  happens in between to the key short of making it valid again, the numbers that the packets of a keypair get are
  strictly increasing and below the limit. The counter itself may run past the limit and wrap around; then the key
  is no longer valid.
\<close>

theorem nonces_never_reused:
  assumes "tx_run k wg0 ns wg" "sending_counter (keypair_store wg0 k) \<le> REJECT_AFTER_MESSAGES"
  shows "sorted_wrt (<) ns \<and> distinct ns \<and> (\<forall>x\<in>set ns. x < REJECT_AFTER_MESSAGES)"
proof -
  have s: "sorted_wrt (<) (map unat ns)" "\<forall>x\<in>set ns. unat x < unat REJECT_AFTER_MESSAGES"
    using tx_run_inv [OF assms] by blast+
  have "((<) :: u64 \<Rightarrow> u64 \<Rightarrow> bool) = (\<lambda>x y. unat x < unat y)" by (simp add: fun_eq_iff word_less_nat_alt)
  then have "sorted_wrt (<) ns" using s(1) by (simp add: sorted_wrt_map)
  moreover have "distinct ns" using s(1) strict_sorted_iff [of "map unat ns"] by (simp add: distinct_map)
  ultimately show ?thesis using s(2) by (simp add: word_less_nat_alt)
qed

definition demo_sender :: wg_device where
  "demo_sender =
     (let wg = demo_device 1 2
      in wg\<lparr>keypair_store := (\<lambda>_. zero_keypair\<lparr>kp_refcount := 1,
             sending := \<lparr>sk_key = demo_key 3, sk_birthdate = 0, sk_is_valid = True\<rparr>\<rparr>),
           peers := (\<lambda>q. (peers wg q)\<lparr>keypairs := \<lparr>current_keypair = Some 0, previous_keypair = None, next_keypair = None\<rparr>,
             staged_packet_queue := [keepalive_skb wg, keepalive_skb wg]\<rparr>)\<rparr>)"

lemma demo_sent: "sent_nonces 0 demo_sender (wg_packet_send_staged_packets (demo_env 1) 0 demo_sender) = [0, 1]"
proof -
  let ?wg' = "wg_packet_send_staged_packets (demo_env 1) 0 demo_sender"
  have "next_packet (queues ?wg') = 1" "pk_keypair (the_packet ?wg' 0) = Some 0"
    "map cb_nonce (pk_skbs (the_packet ?wg' 0)) = [0, 1]"
    by code_simp+
  moreover have "next_packet (queues demo_sender) = 0" by code_simp
  ultimately show ?thesis by (simp add: sent_nonces_def)
qed

theorem nonces_never_reused_witness:
  "tx_run 0 demo_sender [0, 1] (wg_packet_send_staged_packets (demo_env 1) 0 demo_sender) \<and>
   sending_counter (keypair_store demo_sender 0) \<le> REJECT_AFTER_MESSAGES \<and>
   sorted_wrt (<) [0, 1 :: u64] \<and> distinct [0, 1 :: u64]"
proof -
  have r: "tx_run 0 demo_sender [0, 1] (wg_packet_send_staged_packets (demo_env 1) 0 demo_sender)"
    using tx_send [OF tx_start refl, of 0 demo_sender "demo_env 1" 0] demo_sent by simp
  moreover have c: "sending_counter (keypair_store demo_sender 0) \<le> REJECT_AFTER_MESSAGES"
    by (simp add: demo_sender_def Let_def zero_keypair_def)
  ultimately show ?thesis using nonces_never_reused [OF r c] by simp
qed

end
