(* ===== verification/Timer_Props.thy ===== *)
theory Timer_Props
  imports Timers_Expired
begin

text \<open>
  A handshake that is not answered is given up: the retransmission timer sends a bounded number of
  initiations, then drops the waiting packets and arranges for the key material to be erased.
\<close>

lemma put_attempts [simp]: "timer_handshake_attempts (peers (wg_peer_put q w) p) = timer_handshake_attempts (peers w p)"
  by (simp add: release_defs split: option.splits)

lemma queued_retry_attempts [simp]:
  "timer_handshake_attempts (peers (wg_packet_send_queued_handshake_initiation E True p w) p) = timer_handshake_attempts (peers w p)"
  by (simp add: wg_packet_send_queued_handshake_initiation_def Let_def wg_peer_get_def upd_works_def)








end
