(* ===== verification/Gro.thy ===== *)
theory Gro
  imports Receive
begin

text \<open>
  Generic receive offload (\<^verbatim>\<open>net/core/gro.c\<close>): the packets that a poll hands over are held in buckets
  by their flow, so that later packets of the flow can be merged into them, and are completed and given to the stack when they are
  flushed. A protocol takes part by callbacks, which are function pointers in the source and functions here. Calls of
  \<open>gro_normal_one\<close>, which gives a packet to the stack, are recorded, and so are the packets that are freed.
\<close>

section \<open>Packets\<close>

text \<open>
  The buffer of a packet has a linear part, which begins at \<open>skb->data\<close>, and page fragments. A packet that others were merged into
  has their buffers in its fragment list; \<open>NAPI_GRO_CB(p)->last\<close> is the last of its buffers.
\<close>

record gro_part =
  pt_head :: bytes
  pt_frags :: "bytes list"

definition part_data :: "gro_part \<Rightarrow> bytes" where
  "part_data b = pt_head b @ concat (pt_frags b)"

datatype gro_free = NAPI_GRO_NOT_FREED | NAPI_GRO_FREE | NAPI_GRO_FREE_STOLEN_HEAD

datatype ip_summed = CHECKSUM_NONE | CHECKSUM_UNNECESSARY | CHECKSUM_COMPLETE | CHECKSUM_PARTIAL

text \<open>The fields of the control block \<open>NAPI_GRO_CB\<close> begin with \<open>gc_\<close>.\<close>

record gro_skb =
  g_self :: gro_part
  g_frag_list :: "gro_part list"
  g_len :: nat
  g_data_len :: nat
  g_headroom :: nat
  g_tailroom :: nat
  g_frag_page_ok :: bool          \<comment> \<open>the first fragment is in a page that is mapped\<close>
  g_head_frag :: bool
  g_pp_recycle :: bool
  g_hash :: u32
  g_dev :: nat
  g_vlan_all :: u32
  g_mac_header :: bytes
  g_slow_gro :: bool
  g_sk :: "nat option"
  g_nfct :: u64
  g_tc_ext :: "u32 option"
  g_protocol :: u16
  g_encapsulation :: bool
  g_ip_summed :: ip_summed
  g_csum_level :: nat
  g_gso_size :: nat
  g_gso_segs :: nat
  g_gso_tcp :: bool
  g_gso_dodgy :: bool
  g_gso_udp_l4 :: bool
  g_gso_fraglist :: bool
  g_gso_ipxip4 :: bool
  g_transport_header :: nat
  gc_data_offset :: nat
  gc_network_offsets :: "bool \<Rightarrow> nat"
  gc_frag0 :: bytes
  gc_frag0_len :: nat
  gc_flush :: bool
  gc_same_flow :: bool
  gc_count :: nat
  gc_free :: gro_free
  gc_age :: u64
  gc_proto :: u8
  gc_is_flist :: bool
  gc_encap_mark :: bool
  gc_csum_valid :: bool
  gc_csum_cnt :: nat

definition skb_headlen :: "gro_skb \<Rightarrow> nat" where
  "skb_headlen skb = length (pt_head (g_self skb))"

definition nr_frags :: "gro_skb \<Rightarrow> nat" where
  "nr_frags skb = length (pt_frags (g_self skb))"

text \<open>All the data of a packet, those of the merged ones included.\<close>

definition gro_content :: "gro_skb \<Rightarrow> bytes" where
  "gro_content skb = concat (map part_data (g_self skb # g_frag_list skb))"

definition skb_gro_offset :: "gro_skb \<Rightarrow> nat" where
  "skb_gro_offset skb = gc_data_offset skb"

definition skb_gro_len :: "gro_skb \<Rightarrow> nat" where
  "skb_gro_len skb = g_len skb - gc_data_offset skb"

definition skb_is_gso :: "gro_skb \<Rightarrow> bool" where
  "skb_is_gso skb \<longleftrightarrow> g_gso_size skb \<noteq> 0"

section \<open>Merging a packet into a held one\<close>

datatype gro_errno = E2BIG | ETOOMANYREFS | ENOENT_gro | ENOSYS_gro

definition MAX_SKB_FRAGS :: nat where [wg_defs]: "MAX_SKB_FRAGS = 17"
definition GRO_LEGACY_MAX_SIZE :: nat where [wg_defs]: "GRO_LEGACY_MAX_SIZE = 65536"
definition IPPROTO_TCP :: u8 where [wg_defs]: "IPPROTO_TCP = 6"
definition IPPROTO_UDP :: u8 where [wg_defs]: "IPPROTO_UDP = 17"
definition sizeof_hop_jumbo_hdr :: nat where [wg_defs]: "sizeof_hop_jumbo_hdr = 8"

definition upd_last :: "(gro_part \<Rightarrow> gro_part) \<Rightarrow> gro_skb \<Rightarrow> gro_skb" where
  "upd_last f p =
     (if g_frag_list p = [] then p\<lparr>g_self := f (g_self p)\<rparr>
      else p\<lparr>g_frag_list := butlast (g_frag_list p) @ [f (last (g_frag_list p))]\<rparr>)"

definition last_part :: "gro_skb \<Rightarrow> gro_part" where
  "last_part p = (if g_frag_list p = [] then g_self p else last (g_frag_list p))"

text \<open>The first fragment without its first bytes; taking them from no fragment is undefined in the source.\<close>

fun eat_frag :: "nat \<Rightarrow> bytes list \<Rightarrow> bytes list option" where
  "eat_frag n [] = None"
| "eat_frag n (f # fs) = (if n \<le> length f then Some (drop n f # fs) else None)"

definition append_frags :: "bytes list \<Rightarrow> gro_skb \<Rightarrow> gro_skb" where
  "append_frags fs = upd_last (\<lambda>b. b\<lparr>pt_frags := pt_frags b @ fs\<rparr>)"

definition gro_merge_done :: "nat \<Rightarrow> nat \<Rightarrow> gro_skb \<Rightarrow> gro_skb" where
  "gro_merge_done segs len p = p\<lparr>gc_count := gc_count p + segs, g_data_len := g_data_len p + len, g_len := g_len p + len\<rparr>"

text \<open>The packet goes to the fragment list as a whole, without its headers.\<close>

definition gro_merge :: "gro_skb \<Rightarrow> gro_skb \<Rightarrow> gro_skb option" where
  "gro_merge p skb =
     (let offset = skb_gro_offset skb; headlen = skb_headlen skb; b = g_self skb in
      if headlen < offset then
        map_option (\<lambda>fs. p\<lparr>g_frag_list := g_frag_list p @ [\<lparr>pt_head = [], pt_frags = fs\<rparr>]\<rparr>) (eat_frag (offset - headlen) (pt_frags b))
      else Some (p\<lparr>g_frag_list := g_frag_list p @ [b\<lparr>pt_head := drop offset (pt_head b)\<rparr>]\<rparr>))"

text \<open>
  The result is an error, or the packet that was merged into and the one that was merged, with what is to be freed of it;
  \<open>None\<close> is undefined behaviour.
\<close>

definition skb_gro_receive :: "nat \<Rightarrow> gro_skb \<Rightarrow> gro_skb \<Rightarrow> (gro_errno + gro_skb \<times> gro_skb) option" where
  "skb_gro_receive max_size p skb =
     (let offset = skb_gro_offset skb;
          headlen = skb_headlen skb;
          len = skb_gro_len skb;
          segs = gc_count skb;
          merged = map_option (\<lambda>p1. Inr (gro_merge_done segs len p1, skb\<lparr>gc_same_flow := True\<rparr>)) (gro_merge p skb)
      in if g_pp_recycle p \<noteq> g_pp_recycle skb then Some (Inl ETOOMANYREFS)
         else if max_size \<le> g_len p + len \<or> gc_flush skb then Some (Inl E2BIG)
         else if GRO_LEGACY_MAX_SIZE \<le> g_len p + len \<and>
             (gc_proto skb \<noteq> IPPROTO_TCP \<or> g_protocol p = ETH_P_IPV6 \<and> g_headroom p < sizeof_hop_jumbo_hdr \<or> g_encapsulation p)
         then Some (Inl E2BIG)
         else if headlen \<le> offset then
           if MAX_SKB_FRAGS < length (pt_frags (last_part p)) + nr_frags skb then merged
           else
             map_option (\<lambda>fs. Inr (gro_merge_done segs len (append_frags fs p),
                 skb\<lparr>g_self := (g_self skb)\<lparr>pt_frags := []\<rparr>, g_len := g_len skb - g_data_len skb, g_data_len := 0,
                   gc_free := NAPI_GRO_FREE, gc_same_flow := True\<rparr>))
               (eat_frag (offset - headlen) (pt_frags (g_self skb)))
         else if g_head_frag skb then
           if MAX_SKB_FRAGS < length (pt_frags (last_part p)) + 1 + nr_frags skb then merged
           else Some (Inr (gro_merge_done segs len (append_frags (drop offset (pt_head (g_self skb)) # pt_frags (g_self skb)) p),
                   skb\<lparr>gc_free := NAPI_GRO_FREE_STOLEN_HEAD, gc_same_flow := True\<rparr>))
         else merged)"

definition skb_gro_receive_list :: "gro_skb \<Rightarrow> gro_skb \<Rightarrow> (gro_errno + gro_skb \<times> gro_skb) option" where
  "skb_gro_receive_list p skb =
     (let offset = skb_gro_offset skb; len = g_len skb - offset in
      if 65536 \<le> g_len p + g_len skb then Some (Inl E2BIG)
      else if skb_headlen skb < offset then None
      else Some (Inr (p\<lparr>g_frag_list := g_frag_list p @ [(g_self skb)\<lparr>pt_head := drop offset (pt_head (g_self skb))\<rparr>],
               gc_count := gc_count p + 1, g_data_len := g_data_len p + len, g_len := g_len p + len\<rparr>,
             skb\<lparr>gc_same_flow := True\<rparr>)))"

section \<open>Headers at hand\<close>

text \<open>Where the headers of a packet are read: in its linear part, or in its first fragment when there is none.\<close>

definition skb_gro_reset_offset :: "bool \<Rightarrow> gro_skb \<Rightarrow> gro_skb" where
  "skb_gro_reset_offset frag_aligned skb =
     (let skb1 = skb\<lparr>gc_network_offsets := (gc_network_offsets skb)(False := 0), gc_data_offset := 0, gc_frag0 := pt_head (g_self skb), gc_frag0_len := skb_headlen skb\<rparr> in
      if skb_headlen skb \<noteq> 0 then skb1
      else
        case pt_frags (g_self skb) of
          [] \<Rightarrow> skb1
        | f # fs \<Rightarrow>
            if g_frag_page_ok skb \<and> frag_aligned then skb1\<lparr>gc_frag0 := f, gc_frag0_len := min (length f) (g_tailroom skb)\<rparr>
            else skb1)"

definition gro_pull_from_frag0 :: "nat \<Rightarrow> gro_skb \<Rightarrow> gro_skb" where
  "gro_pull_from_frag0 grow skb =
     (let b = g_self skb;
          frags = (case pt_frags b of [] \<Rightarrow> [] | f # fs \<Rightarrow> if drop grow f = [] then fs else drop grow f # fs)
      in skb\<lparr>g_self := b\<lparr>pt_head := pt_head b @ take grow (gc_frag0 skb), pt_frags := frags\<rparr>,
           g_data_len := g_data_len skb - grow, g_tailroom := g_tailroom skb - grow\<rparr>)"

definition gro_try_pull_from_frag0 :: "gro_skb \<Rightarrow> gro_skb" where
  "gro_try_pull_from_frag0 skb =
     (if skb_headlen skb < skb_gro_offset skb then gro_pull_from_frag0 (skb_gro_offset skb - skb_headlen skb) skb else skb)"

section \<open>Nodes\<close>

definition MAX_GRO_SKBS :: int where [wg_defs]: "MAX_GRO_SKBS = 8"
definition GRO_HASH_BUCKETS :: u32 where [wg_defs]: "GRO_HASH_BUCKETS = 8"
definition ETH_HLEN :: nat where [wg_defs]: "ETH_HLEN = 14"

text \<open>The packets of a bucket, the youngest first.\<close>

record gro_list =
  gl_list :: "gro_skb list"
  gl_count :: int

text \<open>
  Besides the fields of the source, what has left the node: the packets that went to the stack and the freed ones, with the number
  of packets that each stands for, and the ones that a callback keeps.
\<close>

record gro_node =
  gn_hash :: "nat \<Rightarrow> gro_list"
  gn_bitmask :: u64
  gn_rx_list :: "(gro_skb \<times> nat) list"
  gn_rx_count :: nat
  gn_stack :: "(gro_skb \<times> nat) list"
  gn_dropped :: "(gro_skb \<times> nat) list"
  gn_consumed :: "gro_skb list"

text \<open>A callback gets the bucket and the packet; it returns the position of a packet that is to be completed now.\<close>

datatype gro_pp = GRO_PP "nat option" | GRO_EINPROGRESS

type_synonym gro_receive_cb = "gro_skb list \<Rightarrow> gro_skb \<Rightarrow> gro_skb list \<times> gro_skb \<times> gro_pp"
type_synonym gro_complete_cb = "gro_skb \<Rightarrow> gro_errno option \<times> gro_skb"

record packet_offload =
  po_type :: u16
  po_priority :: u16
  po_gro_receive :: "gro_receive_cb option"
  po_gro_complete :: "gro_complete_cb option"

record gro_env =
  ge_jiffies :: u64
  ge_offload_base :: "packet_offload list"
  ge_elide_gro :: "nat \<Rightarrow> bool"
  ge_hard_header_len :: "nat \<Rightarrow> nat"
  ge_frag_aligned :: bool
  ge_normal_batch :: nat
  ge_metadata_differs :: "gro_skb \<Rightarrow> gro_skb \<Rightarrow> bool"
  ge_dst_differs :: "gro_skb \<Rightarrow> gro_skb \<Rightarrow> bool"
  ge_psp_differs :: "gro_skb \<Rightarrow> gro_skb \<Rightarrow> bool"

definition dev_add_offload :: "packet_offload \<Rightarrow> packet_offload list \<Rightarrow> packet_offload list" where
  "dev_add_offload po ps = takeWhile (\<lambda>e. po_priority e \<le> po_priority po) ps @ po # dropWhile (\<lambda>e. po_priority e \<le> po_priority po) ps"

definition gro_find_receive_by_type :: "u16 \<Rightarrow> packet_offload list \<Rightarrow> packet_offload option" where
  "gro_find_receive_by_type type = find (\<lambda>po. po_type po = type \<and> \<not> Option.is_none (po_gro_receive po))"

definition gro_find_complete_by_type :: "u16 \<Rightarrow> packet_offload list \<Rightarrow> packet_offload option" where
  "gro_find_complete_by_type type = find (\<lambda>po. po_type po = type \<and> \<not> Option.is_none (po_gro_complete po))"

definition gro_init :: "gro_node \<Rightarrow> gro_node" where
  "gro_init g =
     g\<lparr>gn_hash := (\<lambda>b. if b < unat GRO_HASH_BUCKETS then \<lparr>gl_list = [], gl_count = 0\<rparr> else gn_hash g b),
       gn_bitmask := 0, gn_rx_list := [], gn_rx_count := 0\<rparr>"

text \<open>Everything that is held is freed. The source leaves the list heads as they are, so a node is initialised before it is used again.\<close>

definition gro_cleanup :: "gro_node \<Rightarrow> gro_node" where
  "gro_cleanup g =
     g\<lparr>gn_hash := (\<lambda>b. if b < unat GRO_HASH_BUCKETS then \<lparr>gl_list = [], gl_count = 0\<rparr> else gn_hash g b),
       gn_bitmask := 0, gn_rx_list := [], gn_rx_count := 0,
       gn_dropped := gn_dropped g @ concat (map (\<lambda>b. map (\<lambda>p. (p, gc_count p)) (gl_list (gn_hash g b))) [0..<unat GRO_HASH_BUCKETS]) @
         gn_rx_list g\<rparr>"

section \<open>Completing packets\<close>

text \<open>Packets go to the stack in batches.\<close>

definition gro_normal_list :: "gro_node \<Rightarrow> gro_node" where
  "gro_normal_list g = g\<lparr>gn_stack := gn_stack g @ gn_rx_list g, gn_rx_list := [], gn_rx_count := 0\<rparr>"

definition gro_normal_one :: "gro_env \<Rightarrow> gro_skb \<Rightarrow> nat \<Rightarrow> gro_node \<Rightarrow> gro_node" where
  "gro_normal_one E skb segs g =
     (let g1 = g\<lparr>gn_rx_list := gn_rx_list g @ [(skb, segs)], gn_rx_count := gn_rx_count g + segs\<rparr>
      in if ge_normal_batch E \<le> gn_rx_count g1 then gro_normal_list g1 else g1)"

definition gro_complete :: "gro_env \<Rightarrow> gro_skb \<Rightarrow> gro_node \<Rightarrow> gro_node" where
  "gro_complete E skb g =
     (if gc_count skb = 1 then gro_normal_one E (skb\<lparr>g_gso_size := 0\<rparr>) (gc_count skb) g
      else
        let skb1 = skb\<lparr>g_encapsulation := False\<rparr> in
        case gro_find_complete_by_type (g_protocol skb) (ge_offload_base E) of
          None \<Rightarrow> g\<lparr>gn_dropped := gn_dropped g @ [(skb1, gc_count skb1)]\<rparr>
        | Some po \<Rightarrow>
            (case the (po_gro_complete po) skb1 of
               (Some e, skb2) \<Rightarrow> g\<lparr>gn_dropped := gn_dropped g @ [(skb2, gc_count skb2)]\<rparr>
             | (None, skb2) \<Rightarrow> gro_normal_one E skb2 (gc_count skb2) g))"

definition upd_bucket :: "nat \<Rightarrow> (gro_list \<Rightarrow> gro_list) \<Rightarrow> gro_node \<Rightarrow> gro_node" where
  "upd_bucket b f g = g\<lparr>gn_hash := (gn_hash g)(b := f (gn_hash g b))\<rparr>"

text \<open>The packets of a bucket from the oldest on; with \<open>flush_old\<close> the loop ends at one of this jiffy.\<close>

fun flush_chain_loop :: "gro_env \<Rightarrow> nat \<Rightarrow> bool \<Rightarrow> gro_skb list \<Rightarrow> gro_node \<Rightarrow> bool \<times> gro_node" where
  "flush_chain_loop E index flush_old [] g = (True, g)"
| "flush_chain_loop E index flush_old (skb # younger) g =
     (if flush_old \<and> gc_age skb = ge_jiffies E then (False, g)
      else
        flush_chain_loop E index flush_old younger
          (upd_bucket index (\<lambda>l. l\<lparr>gl_count := gl_count l - 1\<rparr>)
            (gro_complete E skb (upd_bucket index (\<lambda>l. l\<lparr>gl_list := rev younger\<rparr>) g))))"

definition gro_flush_chain :: "gro_env \<Rightarrow> nat \<Rightarrow> bool \<Rightarrow> gro_node \<Rightarrow> gro_node" where
  "gro_flush_chain E index flush_old g =
     (case flush_chain_loop E index flush_old (rev (gl_list (gn_hash g index))) g of
        (False, g1) \<Rightarrow> g1
      | (True, g1) \<Rightarrow> if gl_count (gn_hash g1 index) = 0 then g1\<lparr>gn_bitmask := unset_bit index (gn_bitmask g1)\<rparr> else g1)"

text \<open>The position of the lowest bit that is set, counted from one; the argument is an \<open>int\<close>, so only the low half counts.\<close>

definition ffs :: "u64 \<Rightarrow> nat" where
  "ffs w = (case find (bit w) [0..<32] of None \<Rightarrow> 0 | Some i \<Rightarrow> i + 1)"

lemma ffs_0: "ffs 0 = 0"
proof -
  have "find (bit (0 :: u64)) [0..<32] = None" unfolding find_None_iff by simp
  then show ?thesis by (simp only: ffs_def option.case)
qed

lemma drop_bit_smaller: "w \<noteq> 0 \<Longrightarrow> 0 < n \<Longrightarrow> unat (drop_bit n w) < unat w" for w :: u64
proof -
  assume "w \<noteq> 0" "0 < n"
  then have "0 < unat w" "1 < (2 :: nat) ^ n" using one_less_power [of "2 :: nat" n] by (simp_all add: unat_gt_0)
  then show ?thesis by (simp add: unat_drop_bit_div)
qed

text \<open>The base starts at the largest number, to which the first position is added with wrap-around.\<close>

function gro_flush_loop :: "gro_env \<Rightarrow> bool \<Rightarrow> u64 \<Rightarrow> u32 \<Rightarrow> gro_node \<Rightarrow> gro_node" where
  "gro_flush_loop E flush_old bits base g =
     (let i = ffs bits in
      if i = 0 then g
      else
        let base1 = base + of_nat i
        in gro_flush_loop E flush_old (drop_bit i bits) base1 (gro_flush_chain E (unat base1) flush_old g))"
  by pat_completeness auto

termination gro_flush_loop
proof (relation "measure (\<lambda>(E, f, bits, base, g). unat bits)", goal_cases)
  case 1
  show ?case by simp
next
  case (2 E flush_old bits base g i base1)
  have "bits \<noteq> 0" using 2 ffs_0 by auto
  then show ?case using 2 drop_bit_smaller by auto
qed

declare gro_flush_loop.simps [simp del]

definition gro_flush :: "gro_env \<Rightarrow> bool \<Rightarrow> gro_node \<Rightarrow> gro_node" where
  "gro_flush E flush_old g = gro_flush_loop E flush_old (gn_bitmask g) (- 1) g"

section \<open>Receiving\<close>

definition gro_list_prepare_tc_ext :: "gro_skb \<Rightarrow> gro_skb \<Rightarrow> bool" where
  "gro_list_prepare_tc_ext skb p \<longleftrightarrow> (g_tc_ext p = None) \<noteq> (g_tc_ext skb = None) \<or> g_tc_ext skb \<noteq> None \<and> g_tc_ext p \<noteq> g_tc_ext skb"

definition gro_diffs :: "gro_env \<Rightarrow> gro_skb \<Rightarrow> gro_skb \<Rightarrow> bool" where
  "gro_diffs E skb p \<longleftrightarrow>
     (let maclen = ge_hard_header_len E (g_dev skb) in
      g_dev p \<noteq> g_dev skb \<or> g_vlan_all p \<noteq> g_vlan_all skb \<or> ge_metadata_differs E p skb \<or>
      take maclen (g_mac_header p) \<noteq> take maclen (g_mac_header skb) \<or>
      (g_slow_gro skb \<or> g_slow_gro p) \<and>
        (g_sk p \<noteq> g_sk skb \<or> ge_dst_differs E p skb \<or> g_nfct p \<noteq> g_nfct skb \<or> gro_list_prepare_tc_ext skb p \<or> ge_psp_differs E skb p))"

definition gro_list_prepare :: "gro_env \<Rightarrow> gro_skb \<Rightarrow> gro_skb list \<Rightarrow> gro_skb list" where
  "gro_list_prepare E skb = map (\<lambda>p. p\<lparr>gc_same_flow := g_hash p = g_hash skb \<and> \<not> gro_diffs E skb p\<rparr>)"

definition gro_flush_oldest :: "gro_env \<Rightarrow> nat \<Rightarrow> gro_node \<Rightarrow> gro_node" where
  "gro_flush_oldest E bucket g =
     (let l = gl_list (gn_hash g bucket) in
      if l = [] then g
      else gro_complete E (last l) (upd_bucket bucket (\<lambda>x. x\<lparr>gl_list := butlast l\<rparr>) g))"

datatype gro_result = GRO_MERGED | GRO_MERGED_FREE | GRO_HELD | GRO_NORMAL | GRO_CONSUMED

definition gro_setup_cb :: "gro_skb \<Rightarrow> gro_skb" where
  "gro_setup_cb skb =
     (let gso = skb_is_gso skb in
      skb\<lparr>gc_same_flow := False, gc_free := NAPI_GRO_NOT_FREED, gc_encap_mark := False, gc_is_flist := False,
        gc_flush := (g_frag_list skb \<noteq> [] \<or> gso \<and> (\<not> g_gso_tcp skb \<or> g_gso_dodgy skb)),
        gc_count := (if gso then g_gso_segs skb else 1),
        gc_csum_valid := (g_ip_summed skb = CHECKSUM_COMPLETE),
        gc_csum_cnt := (if g_ip_summed skb = CHECKSUM_UNNECESSARY then g_csum_level skb + 1 else 0)\<rparr>)"

definition gro_bucket_exit :: "nat \<Rightarrow> gro_node \<Rightarrow> gro_node" where
  "gro_bucket_exit bucket g =
     (if gl_count (gn_hash g bucket) \<noteq> 0 then g\<lparr>gn_bitmask := set_bit bucket (gn_bitmask g)\<rparr>
      else g\<lparr>gn_bitmask := unset_bit bucket (gn_bitmask g)\<rparr>)"

definition gro_complete_pp :: "gro_env \<Rightarrow> nat \<Rightarrow> nat option \<Rightarrow> gro_node \<Rightarrow> gro_node" where
  "gro_complete_pp E bucket pp g =
     (case pp of
        None \<Rightarrow> g
      | Some k \<Rightarrow>
          let l = gl_list (gn_hash g bucket) in
          upd_bucket bucket (\<lambda>x. x\<lparr>gl_count := gl_count x - 1\<rparr>)
            (gro_complete E (l ! k) (upd_bucket bucket (\<lambda>x. x\<lparr>gl_list := take k l @ drop (k + 1) l\<rparr>) g)))"

definition gro_hold :: "gro_env \<Rightarrow> nat \<Rightarrow> gro_skb \<Rightarrow> gro_node \<Rightarrow> gro_node" where
  "gro_hold E bucket skb g =
     (let g1 = (if MAX_GRO_SKBS \<le> gl_count (gn_hash g bucket) then gro_flush_oldest E bucket g
                else upd_bucket bucket (\<lambda>x. x\<lparr>gl_count := gl_count x + 1\<rparr>) g);
          skb1 = gro_try_pull_from_frag0 skb;
          skb2 = skb1\<lparr>gc_age := ge_jiffies E, g_gso_size := (if skb_is_gso skb1 then g_gso_size skb1 else skb_gro_len skb1)\<rparr>
      in upd_bucket bucket (\<lambda>x. x\<lparr>gl_list := skb2 # gl_list x\<rparr>) g1)"

definition gro_bucket_of :: "gro_skb \<Rightarrow> nat" where
  "gro_bucket_of skb = unat (g_hash skb AND (GRO_HASH_BUCKETS - 1))"

definition dev_gro_receive :: "gro_env \<Rightarrow> gro_skb \<Rightarrow> gro_node \<Rightarrow> gro_result \<times> gro_skb \<times> gro_node" where
  "dev_gro_receive E skb g =
     (let bucket = gro_bucket_of skb;
          normal = (\<lambda>skb g. (GRO_NORMAL, gro_try_pull_from_frag0 skb, gro_bucket_exit bucket g))
      in if ge_elide_gro E (g_dev skb) then normal skb g
         else
           let g1 = upd_bucket bucket (\<lambda>x. x\<lparr>gl_list := gro_list_prepare E skb (gl_list x)\<rparr>) g in
           case gro_find_receive_by_type (g_protocol skb) (ge_offload_base E) of
             None \<Rightarrow> normal skb g1
           | Some po \<Rightarrow>
               (case the (po_gro_receive po) (gl_list (gn_hash g1 bucket)) (gro_setup_cb skb) of
                  (held, skb1, pp) \<Rightarrow>
                    let g2 = upd_bucket bucket (\<lambda>x. x\<lparr>gl_list := held\<rparr>) g1 in
                    case pp of
                      GRO_EINPROGRESS \<Rightarrow> (GRO_CONSUMED, skb1, gro_bucket_exit bucket g2)
                    | GRO_PP k \<Rightarrow>
                        let g3 = gro_complete_pp E bucket k g2 in
                        if gc_same_flow skb1 then
                          (if gc_free skb1 = NAPI_GRO_NOT_FREED then GRO_MERGED else GRO_MERGED_FREE, skb1, gro_bucket_exit bucket g3)
                        else if gc_flush skb1 then normal skb1 g3
                        else (GRO_HELD, skb1, gro_bucket_exit bucket (gro_hold E bucket skb1 g3))))"

definition gro_skb_finish :: "gro_env \<Rightarrow> gro_result \<times> gro_skb \<times> gro_node \<Rightarrow> gro_result \<times> gro_node" where
  "gro_skb_finish E r =
     (case r of (ret, skb, g) \<Rightarrow>
        (ret, (case ret of
                 GRO_NORMAL \<Rightarrow> gro_normal_one E skb 1 g
               | GRO_CONSUMED \<Rightarrow> g\<lparr>gn_consumed := gn_consumed g @ [skb]\<rparr>
               | _ \<Rightarrow> g)))"

definition gro_receive_skb :: "gro_env \<Rightarrow> gro_skb \<Rightarrow> gro_node \<Rightarrow> gro_result \<times> gro_node" where
  "gro_receive_skb E skb g = gro_skb_finish E (dev_gro_receive E (skb_gro_reset_offset (ge_frag_aligned E) skb) g)"

end
