(* ===== verification/Gro_Inet.thy ===== *)
theory Gro_Inet
  imports Gro
begin

text \<open>
  The offload callbacks of IPv4 (\<^verbatim>\<open>net/ipv4/af_inet.c\<close>) and UDP (\<^verbatim>\<open>net/ipv4/udp_offload.c\<close>): they narrow down
  which packets of a bucket are of the flow of a new packet, merge it into the first of them, and set the lengths in the headers when a merged packet is
  completed. The accessors of \<^verbatim>\<open>include/net/gro.h\<close> that read headers and verify checksums, the lookup of sockets, and the callbacks
  of other protocols and of tunnels are parameters. The running checksum of a packet, the positions of inner headers, and the tunnel bits of
  \<open>gso_type\<close> are left out: nothing here reads them.
\<close>

section \<open>What the protocols obtain\<close>

record udp_sock =
  us_gro_receive :: "gro_receive_cb option"
  us_gro_complete :: "(gro_skb \<Rightarrow> nat \<Rightarrow> gro_errno option \<times> gro_skb) option"
  us_gro_enabled :: bool

record net_offload =
  no_gro_receive :: "gro_receive_cb option"
  no_gro_complete :: "(gro_skb \<Rightarrow> nat \<Rightarrow> gro_errno option \<times> gro_skb) option"

text \<open>
  Reading a header at an offset makes it accessible, or fails when the packet is too short. \<open>ue_checksum\<close> says that
  \<open>skb_gro_checksum_validate_zero_check\<close> fails.
\<close>

record inet_env =
  ie_gro_header :: "gro_skb \<Rightarrow> nat \<Rightarrow> nat \<Rightarrow> bytes option"
  ie_ip_csum_bad :: "bytes \<Rightarrow> bool"
  ie_other_offloads :: "u8 \<Rightarrow> net_offload option"
  ue_checksum :: "gro_skb \<Rightarrow> bytes \<Rightarrow> bool"
  ue_encap_needed :: bool
  ue_lookup :: "gro_skb \<Rightarrow> bytes \<Rightarrow> udp_sock option"
  ue_network_flush :: "bytes \<Rightarrow> bytes \<Rightarrow> gro_skb \<Rightarrow> bool"
  ue_recursion :: "gro_skb \<Rightarrow> bool"
  ue_fraglist_feature :: "nat \<Rightarrow> bool"
  ue_udp_fwd_feature :: "nat \<Rightarrow> bool"
  ue_may_pull :: "gro_skb \<Rightarrow> bool"
  ue_max_size :: "gro_skb \<Rightarrow> nat"
  ue_udp_v4_check :: "nat \<Rightarrow> bytes \<Rightarrow> bytes \<Rightarrow> bytes"
  ie_csum_replace2 :: "bytes \<Rightarrow> bytes \<Rightarrow> bytes \<Rightarrow> bytes"

definition skb_gro_pull :: "nat \<Rightarrow> gro_skb \<Rightarrow> gro_skb" where
  "skb_gro_pull n skb = skb\<lparr>gc_data_offset := gc_data_offset skb + n\<rparr>"

definition skb_gro_flush_final :: "bool \<Rightarrow> gro_skb list \<times> gro_skb \<times> gro_pp \<Rightarrow> gro_skb list \<times> gro_skb \<times> gro_pp" where
  "skb_gro_flush_final flush r =
     (case r of (held, skb, pp) \<Rightarrow>
        (held, if pp = GRO_EINPROGRESS then skb else skb\<lparr>gc_flush := gc_flush skb \<or> flush\<rparr>, pp))"

definition call_gro_receive :: "inet_env \<Rightarrow> gro_receive_cb \<Rightarrow> gro_receive_cb" where
  "call_gro_receive I cb held skb =
     (if ue_recursion I skb then (held, skb\<lparr>gc_flush := True\<rparr>, GRO_PP None) else cb held skb)"

section \<open>UDP\<close>

definition UDP_GRO_CNT_MAX :: nat where [wg_defs]: "UDP_GRO_CNT_MAX = 64"

text \<open>The fields of a UDP header: the two ports as one word, the length, and the checksum.\<close>

definition udp_ports :: "bytes \<Rightarrow> bytes" where "udp_ports uh = take 4 uh"
definition udp_len :: "bytes \<Rightarrow> nat" where "udp_len uh = unat (ntohs (drop 4 uh))"
definition udp_check :: "bytes \<Rightarrow> bytes" where "udp_check uh = take 2 (drop 6 uh)"
definition no_check :: "bytes \<Rightarrow> bool" where "no_check uh \<longleftrightarrow> udp_check uh = [0, 0]"

definition udp_hdr :: "gro_skb \<Rightarrow> bytes" where
  "udp_hdr p = drop (g_transport_header p) (pt_head (g_self p))"

text \<open>
  The packet meets the first one of its flow: that is to be completed, or the new packet is merged into it. An undefined merge is an
  error here.
\<close>

definition udp_segment_meets :: "inet_env \<Rightarrow> bytes \<Rightarrow> nat \<Rightarrow> gro_skb \<Rightarrow> gro_skb \<Rightarrow> nat \<Rightarrow> gro_skb \<times> gro_skb \<times> gro_pp" where
  "udp_segment_meets I uh ulen p skb k =
     (let uh2 = udp_hdr p;
          full = (\<lambda>p1. ulen \<noteq> udp_len uh2 \<or> UDP_GRO_CNT_MAX \<le> gc_count p1);
          finish = (\<lambda>r. case r of
             Some (Inr (p1, skb1)) \<Rightarrow> (p1, skb1, GRO_PP (if full p1 then Some k else None))
           | _ \<Rightarrow> (p, skb, GRO_PP (Some k)))
      in if gc_is_flist skb \<noteq> gc_is_flist p then (p, skb\<lparr>gc_flush := True\<rparr>, GRO_PP (Some k))
         else if udp_len uh2 < ulen \<or> ue_network_flush I uh uh2 p then (p, skb, GRO_PP (Some k))
         else if gc_is_flist skb then
           if \<not> ue_may_pull I skb then (p, skb\<lparr>gc_flush := True\<rparr>, GRO_PP None)
           else if g_ip_summed skb \<noteq> g_ip_summed p \<or> g_csum_level skb \<noteq> g_csum_level p then (p, skb\<lparr>gc_flush := True\<rparr>, GRO_PP None)
           else finish (skb_gro_receive_list p skb)
         else finish (skb_gro_receive (ue_max_size I p) p skb))"

fun udp_segment_loop :: "inet_env \<Rightarrow> bytes \<Rightarrow> nat \<Rightarrow> nat \<Rightarrow> gro_receive_cb" where
  "udp_segment_loop I uh ulen k [] skb = ([], skb, GRO_PP None)"
| "udp_segment_loop I uh ulen k (p # ps) skb =
     (if gc_same_flow p \<and> udp_ports uh = udp_ports (udp_hdr p) then
        case udp_segment_meets I uh ulen p skb k of (p1, skb1, pp) \<Rightarrow> (p1 # ps, skb1, pp)
      else
        case udp_segment_loop I uh ulen (k + 1) ps skb of
          (ps1, skb1, pp) \<Rightarrow> ((if gc_same_flow p then p\<lparr>gc_same_flow := False\<rparr> else p) # ps1, skb1, pp))"

definition udp_gro_receive_segment :: "inet_env \<Rightarrow> bytes \<Rightarrow> gro_receive_cb" where
  "udp_gro_receive_segment I uh held skb =
     (if no_check uh then (held, skb\<lparr>gc_flush := True\<rparr>, GRO_PP None)
      else
        let ulen = udp_len uh in
        if ulen \<le> sizeof_udphdr \<or> ulen \<noteq> skb_gro_len skb then (held, skb\<lparr>gc_flush := True\<rparr>, GRO_PP None)
        else udp_segment_loop I uh ulen 0 held (skb_gro_pull sizeof_udphdr skb))"

text \<open>The packets of a bucket that a tunnel may merge with: the ports agree, and either both have a checksum or none has.\<close>

definition udp_tunnel_match :: "nat \<Rightarrow> bytes \<Rightarrow> gro_skb \<Rightarrow> gro_skb" where
  "udp_tunnel_match off uh p =
     (let uh2 = drop off (pt_head (g_self p)) in
      if gc_same_flow p \<and> (udp_ports uh \<noteq> udp_ports uh2 \<or> no_check uh \<noteq> no_check uh2) then p\<lparr>gc_same_flow := False\<rparr> else p)"

definition udp_gro_receive :: "inet_env \<Rightarrow> bytes \<Rightarrow> udp_sock option \<Rightarrow> gro_receive_cb" where
  "udp_gro_receive I uh sk held skb =
     (let off = skb_gro_offset skb;
          skb0 = skb\<lparr>gc_is_flist := False\<rparr>
      in case Option.bind sk us_gro_receive of
           None \<Rightarrow>
             if g_encapsulation skb0 then skb_gro_flush_final True (held, skb0, GRO_PP None)
             else
               let skb1 = (if ue_fraglist_feature I (g_dev skb0)
                           then skb0\<lparr>gc_is_flist := (case sk of None \<Rightarrow> True | Some s \<Rightarrow> \<not> us_gro_enabled s)\<rparr> else skb0)
               in if Option.is_none sk \<and> ue_udp_fwd_feature I (g_dev skb1) \<or> (case sk of None \<Rightarrow> False | Some s \<Rightarrow> us_gro_enabled s) \<or> gc_is_flist skb1
                  then call_gro_receive I (udp_gro_receive_segment I uh) held skb1
                  else skb_gro_flush_final True (held, skb1, GRO_PP None)
         | Some cb \<Rightarrow>
             if gc_encap_mark skb0 \<or>
                \<not> no_check uh \<and> g_ip_summed skb0 \<noteq> CHECKSUM_PARTIAL \<and> gc_csum_cnt skb0 = 0 \<and> \<not> gc_csum_valid skb0
             then skb_gro_flush_final True (held, skb0, GRO_PP None)
             else
               skb_gro_flush_final False
                 (call_gro_receive I cb (map (udp_tunnel_match off uh) held) (skb_gro_pull sizeof_udphdr (skb0\<lparr>gc_encap_mark := True\<rparr>))))"

definition udp4_gro_receive :: "inet_env \<Rightarrow> gro_receive_cb" where
  "udp4_gro_receive I held skb =
     (case ie_gro_header I skb (skb_gro_offset skb + sizeof_udphdr) (skb_gro_offset skb) of
        None \<Rightarrow> (held, skb\<lparr>gc_flush := True\<rparr>, GRO_PP None)
      | Some uh \<Rightarrow>
          if \<not> gc_flush skb \<and> ue_checksum I skb uh then (held, skb\<lparr>gc_flush := True\<rparr>, GRO_PP None)
          else udp_gro_receive I uh (if ue_encap_needed I then ue_lookup I skb uh else None) held skb)"

text \<open>Completing: the length is that of the merged packet.\<close>

definition set_bytes :: "nat \<Rightarrow> bytes \<Rightarrow> gro_skb \<Rightarrow> gro_skb" where
  "set_bytes off bs skb =
     (let h = pt_head (g_self skb)
      in skb\<lparr>g_self := (g_self skb)\<lparr>pt_head := take off h @ bs @ drop (off + length bs) h\<rparr>\<rparr>)"

definition htons :: "nat \<Rightarrow> bytes" where
  "htons n = rev (le_bytes 2 (of_nat n :: u16))"

definition udp_gro_complete_segment :: "gro_skb \<Rightarrow> gro_errno option \<times> gro_skb" where
  "udp_gro_complete_segment skb = (None, skb\<lparr>g_ip_summed := CHECKSUM_PARTIAL, g_gso_segs := gc_count skb, g_gso_udp_l4 := True\<rparr>)"

definition udp_gro_complete :: "inet_env \<Rightarrow> gro_skb \<Rightarrow> nat \<Rightarrow> gro_errno option \<times> gro_skb" where
  "udp_gro_complete I skb nhoff =
     (let skb1 = set_bytes (nhoff + 4) (htons (g_len skb - nhoff)) skb;
          uh = drop nhoff (pt_head (g_self skb1))
      in case Option.bind (ue_lookup I skb1 uh) us_gro_complete of
           Some cb \<Rightarrow> cb (skb1\<lparr>gc_encap_mark := False, g_encapsulation := True\<rparr>) (nhoff + sizeof_udphdr)
         | None \<Rightarrow> udp_gro_complete_segment skb1)"

definition skb_incr_checksum_unnecessary :: "gro_skb \<Rightarrow> gro_skb" where
  "skb_incr_checksum_unnecessary skb =
     (case g_ip_summed skb of
        CHECKSUM_UNNECESSARY \<Rightarrow> if g_csum_level skb < 3 then skb\<lparr>g_csum_level := g_csum_level skb + 1\<rparr> else skb
      | CHECKSUM_NONE \<Rightarrow> skb\<lparr>g_ip_summed := CHECKSUM_UNNECESSARY, g_csum_level := 0\<rparr>
      | _ \<Rightarrow> skb)"

definition udp4_gro_complete :: "inet_env \<Rightarrow> gro_skb \<Rightarrow> nat \<Rightarrow> gro_errno option \<times> gro_skb" where
  "udp4_gro_complete I skb nhoff =
     (if gc_is_flist skb \<and> \<not> gc_encap_mark skb then
        (None, skb_incr_checksum_unnecessary
           ((set_bytes (nhoff + 4) (htons (g_len skb - nhoff)) skb)\<lparr>g_gso_fraglist := True, g_gso_udp_l4 := True, g_gso_segs := gc_count skb\<rparr>))
      else
        let iph = drop (gc_network_offsets skb (g_encapsulation skb)) (pt_head (g_self skb));
            uh = drop nhoff (pt_head (g_self skb));
            skb1 = (if no_check uh then skb
                    else set_bytes (nhoff + 6) (map (\<lambda>b. NOT b) (ue_udp_v4_check I (g_len skb - nhoff) (ip_saddr iph) (ip_daddr iph))) skb)
        in udp_gro_complete I skb1 nhoff)"

section \<open>IPv4\<close>

definition inet_offloads :: "inet_env \<Rightarrow> u8 \<Rightarrow> net_offload option" where
  "inet_offloads I proto =
     (if proto = IPPROTO_UDP then Some \<lparr>no_gro_receive = Some (udp4_gro_receive I), no_gro_complete = Some (udp4_gro_complete I)\<rparr>
      else ie_other_offloads I proto)"

definition ip_protocol :: "bytes \<Rightarrow> u8" where "ip_protocol iph = iph ! 9"
definition ip_tot_len :: "bytes \<Rightarrow> u16" where "ip_tot_len iph = ntohs (drop 2 iph)"
definition ip_frag_off :: "bytes \<Rightarrow> u16" where "ip_frag_off iph = ntohs (drop 6 iph)"
definition ip_is_fragment :: "bytes \<Rightarrow> bool" where "ip_is_fragment iph \<longleftrightarrow> ip_frag_off iph AND 0x3fff \<noteq> 0"

definition inet_match :: "nat \<Rightarrow> bytes \<Rightarrow> gro_skb \<Rightarrow> gro_skb" where
  "inet_match off iph p =
     (let iph2 = drop off (pt_head (g_self p)) in
      if gc_same_flow p \<and> (ip_protocol iph \<noteq> ip_protocol iph2 \<or> ip_saddr iph \<noteq> ip_saddr iph2 \<or> ip_daddr iph \<noteq> ip_daddr iph2)
      then p\<lparr>gc_same_flow := False\<rparr> else p)"

definition inet_gro_receive :: "inet_env \<Rightarrow> gro_receive_cb" where
  "inet_gro_receive I held skb =
     (let off = skb_gro_offset skb;
          out = skb_gro_flush_final True (held, skb, GRO_PP None)
      in case ie_gro_header I skb (off + sizeof_iphdr) off of
           None \<Rightarrow> out
         | Some iph \<Rightarrow>
             (case Option.bind (inet_offloads I (ip_protocol iph)) no_gro_receive of
                None \<Rightarrow> out
              | Some cb \<Rightarrow>
                  if iph ! 0 \<noteq> 0x45 \<or> ip_is_fragment iph \<or> ie_ip_csum_bad I (take sizeof_iphdr iph) then out
                  else
                    let flush = (ip_tot_len iph \<noteq> of_nat (skb_gro_len skb) \<or> ip_frag_off iph AND NOT 0x4000 \<noteq> 0);
                        skb1 = skb\<lparr>gc_proto := ip_protocol iph, gc_flush := gc_flush skb \<or> flush, 
                          gc_network_offsets := (gc_network_offsets skb)(gc_encap_mark skb := off)\<rparr>;
                        skb2 = skb_gro_pull sizeof_iphdr skb1;
                        skb3 = skb2\<lparr>g_transport_header := skb_gro_offset skb2\<rparr>
                    in skb_gro_flush_final flush (call_gro_receive I cb (map (inet_match off iph) held) skb3)))"

definition ipip_gro_receive :: "inet_env \<Rightarrow> gro_receive_cb" where
  "ipip_gro_receive I held skb =
     (if gc_encap_mark skb then (held, skb\<lparr>gc_flush := True\<rparr>, GRO_PP None)
      else inet_gro_receive I held (skb\<lparr>gc_encap_mark := True\<rparr>))"

definition inet_gro_complete :: "inet_env \<Rightarrow> gro_skb \<Rightarrow> nat \<Rightarrow> gro_errno option \<times> gro_skb" where
  "inet_gro_complete I skb nhoff =
     (let iph = drop nhoff (pt_head (g_self skb));
          totlen = take 2 (drop 2 iph);
          newlen = (if g_len skb - nhoff \<le> 0xffff then htons (g_len skb - nhoff) else [0, 0]);
          check = ie_csum_replace2 I (take 2 (drop 10 iph)) totlen newlen;
          skb1 = set_bytes (nhoff + 10) check (set_bytes (nhoff + 2) newlen skb)
      in case Option.bind (inet_offloads I (ip_protocol iph)) no_gro_complete of
           None \<Rightarrow> (Some ENOSYS_gro, skb1)
         | Some cb \<Rightarrow> cb skb1 (nhoff + sizeof_iphdr))"

definition ipip_gro_complete :: "inet_env \<Rightarrow> gro_skb \<Rightarrow> nat \<Rightarrow> gro_errno option \<times> gro_skb" where
  "ipip_gro_complete I skb nhoff = inet_gro_complete I (skb\<lparr>g_encapsulation := True, g_gso_ipxip4 := True\<rparr>) nhoff"

text \<open>The registration of IPv4 with the engine.\<close>

definition ip_packet_offload :: "inet_env \<Rightarrow> packet_offload" where
  "ip_packet_offload I =
     \<lparr>po_type = ETH_P_IP, po_priority = 0, po_gro_receive = Some (inet_gro_receive I),
       po_gro_complete = Some (\<lambda>skb. inet_gro_complete I skb 0)\<rparr>"

end
