(* ===== verification/Gro_Props.thy ===== *)
theory Gro_Props
  imports Gro
begin

text \<open>
  What the offload engine guarantees, whatever the protocols merge: the buckets are in order, a flush leaves nothing behind, and no
  packet is lost. A protocol is known by the contract \<open>gro_receiver\<close> only.
\<close>

section \<open>The contract of a protocol\<close>

text \<open>
  A protocol merges a packet into one of the bucket or leaves it alone; it neither adds packets to the bucket nor takes any out, and
  it names one of them to be completed.
\<close>

definition gro_weight :: "gro_skb list \<Rightarrow> nat" where
  "gro_weight ps = sum_list (map gc_count ps)"

locale gro_receiver =
  fixes receive :: gro_receive_cb
  assumes receive_length: "receive held skb = (held', skb', r) \<Longrightarrow> length held' = length held"
    and receive_position: "receive held skb = (held', skb', GRO_PP (Some k)) \<Longrightarrow> k < length held"
    and receive_weight: "receive held skb = (held', skb', GRO_PP pp) \<Longrightarrow> \<not> gc_same_flow skb \<Longrightarrow> gc_count skb = 1 \<Longrightarrow>
      gro_weight held' + (if gc_same_flow skb' then 0 else gc_count skb') = gro_weight held + 1"
    and receive_keeps: "receive held skb = (held', skb', GRO_PP pp) \<Longrightarrow> \<not> gc_same_flow skb' \<Longrightarrow> gc_count skb' = gc_count skb"
    and consume_weight: "receive held skb = (held', skb', GRO_EINPROGRESS) \<Longrightarrow> gro_weight held' = gro_weight held"

definition complete_ok :: "gro_complete_cb \<Rightarrow> bool" where
  "complete_ok cb \<longleftrightarrow> (\<forall>skb e skb'. cb skb = (e, skb') \<longrightarrow> gc_count skb' = gc_count skb)"

definition offloads_ok :: "gro_env \<Rightarrow> bool" where
  "offloads_ok E \<longleftrightarrow> (\<forall>po \<in> set (ge_offload_base E).
     (case po_gro_receive po of None \<Rightarrow> True | Some r \<Rightarrow> gro_receiver r) \<and>
     (case po_gro_complete po of None \<Rightarrow> True | Some c \<Rightarrow> complete_ok c))"

lemma found_complete_ok:
  assumes "offloads_ok E" "gro_find_complete_by_type t (ge_offload_base E) = Some po"
  shows "complete_ok (the (po_gro_complete po))"
proof -
  have "po \<in> set (ge_offload_base E)" "po_gro_complete po \<noteq> None"
    using assms(2) by (auto simp: gro_find_complete_by_type_def find_Some_iff Option.is_none_def)
  then show ?thesis using assms(1) by (auto simp: offloads_ok_def split: option.splits)
qed

lemma found_receiver:
  assumes "offloads_ok E" "gro_find_receive_by_type t (ge_offload_base E) = Some po"
  shows "gro_receiver (the (po_gro_receive po))"
proof -
  have "po \<in> set (ge_offload_base E)" "po_gro_receive po \<noteq> None"
    using assms(2) by (auto simp: gro_find_receive_by_type_def find_Some_iff Option.is_none_def)
  then show ?thesis using assms(1) by (auto simp: offloads_ok_def split: option.splits)
qed

section \<open>What leaves a node\<close>

definition gone :: "gro_node \<Rightarrow> nat" where
  "gone g = sum_list (map snd (gn_stack g @ gn_rx_list g @ gn_dropped g)) + length (gn_consumed g)"

lemma normal_one_frame [simp]:
  "gn_hash (gro_normal_one E skb n g) = gn_hash g" "gn_bitmask (gro_normal_one E skb n g) = gn_bitmask g"
  by (simp_all add: gro_normal_one_def gro_normal_list_def Let_def)

lemma gone_normal_one [simp]: "gone (gro_normal_one E skb n g) = gone g + n"
  by (simp add: gone_def gro_normal_one_def gro_normal_list_def Let_def)

lemma gone_drop: "gone (g\<lparr>gn_dropped := gn_dropped g @ [(skb, n)]\<rparr>) = gone g + n"
  by (simp add: gone_def)

lemma gro_complete_frame [simp]:
  "gn_hash (gro_complete E skb g) = gn_hash g" "gn_bitmask (gro_complete E skb g) = gn_bitmask g"
  by (simp_all add: gro_complete_def Let_def split: option.splits prod.splits)

lemma gone_complete:
  assumes "offloads_ok E"
  shows "gone (gro_complete E skb g) = gone g + gc_count skb"
proof (cases "gc_count skb = 1")
  case True
  then show ?thesis by (simp add: gro_complete_def)
next
  case False
  show ?thesis
  proof (cases "gro_find_complete_by_type (g_protocol skb) (ge_offload_base E)")
    case None
    then show ?thesis using False by (simp add: gro_complete_def gone_def Let_def)
  next
    case (Some po)
    obtain e skb2 where c: "the (po_gro_complete po) (skb\<lparr>g_encapsulation := False\<rparr>) = (e, skb2)" by fastforce
    then have "gc_count skb2 = gc_count skb" using found_complete_ok [OF assms Some] unfolding complete_ok_def by fastforce
    then show ?thesis using False Some c by (cases e) (simp_all add: gro_complete_def gone_drop Let_def)
  qed
qed

lemma upd_bucket_frame [simp]:
  "gn_hash (upd_bucket b f g) = (gn_hash g)(b := f (gn_hash g b))" "gn_bitmask (upd_bucket b f g) = gn_bitmask g"
  "gone (upd_bucket b f g) = gone g"
  by (simp_all add: upd_bucket_def gone_def)

lemma bucket_exit_frame [simp]: "gn_hash (gro_bucket_exit b g) = gn_hash g" "gone (gro_bucket_exit b g) = gone g"
  by (simp_all add: gro_bucket_exit_def gone_def)

lemma gone_bitmask [simp]: "gone (g\<lparr>gn_bitmask := m\<rparr>) = gone g"
  by (simp add: gone_def)

section \<open>Buckets\<close>

definition bucket_list_ok :: "gro_list \<Rightarrow> bool" where
  "bucket_list_ok l \<longleftrightarrow> gl_count l = int (length (gl_list l)) \<and> length (gl_list l) \<le> nat MAX_GRO_SKBS"

definition gro_ok :: "gro_node \<Rightarrow> bool" where
  "gro_ok g \<longleftrightarrow> (\<forall>b. bucket_list_ok (gn_hash g b) \<and> (bit (gn_bitmask g) b \<longleftrightarrow> gl_list (gn_hash g b) \<noteq> [])) \<and>
     (\<forall>b \<ge> unat GRO_HASH_BUCKETS. gl_list (gn_hash g b) = [])"

definition held_weight :: "gro_node \<Rightarrow> nat" where
  "held_weight g = (\<Sum>b<unat GRO_HASH_BUCKETS. gro_weight (gl_list (gn_hash g b)))"

lemma held_weight_upd:
  assumes "b < unat GRO_HASH_BUCKETS" "gn_hash g' = (gn_hash g)(b := l)"
  shows "held_weight g' + gro_weight (gl_list (gn_hash g b)) = held_weight g + gro_weight (gl_list l)"
proof -
  let ?S = "{..<unat GRO_HASH_BUCKETS}" and ?f = "\<lambda>h b. gro_weight (gl_list (h b))"
  have s: "sum (?f h) ?S = ?f h b + sum (?f h) (?S - {b})" for h using assms(1) by (intro sum.remove) auto
  have "sum (?f (gn_hash g')) (?S - {b}) = sum (?f (gn_hash g)) (?S - {b})" by (rule sum.cong) (auto simp: assms(2))
  moreover have "?f (gn_hash g') b = gro_weight (gl_list l)" by (simp add: assms(2))
  ultimately show ?thesis unfolding held_weight_def s [of "gn_hash g"] s [of "gn_hash g'"] by linarith
qed

subsection \<open>Flushing a bucket\<close>

text \<open>What is left of a list: nothing, or what is younger than the first packet of this jiffy.\<close>

definition kept :: "gro_env \<Rightarrow> bool \<Rightarrow> gro_skb list \<Rightarrow> gro_skb list" where
  "kept E flush_old ps = rev (dropWhile (\<lambda>p. \<not> (flush_old \<and> gc_age p = ge_jiffies E)) (rev ps))"

lemma flush_chain_loop_result:
  assumes "offloads_ok E" "rev (gl_list (gn_hash g b)) = ps" "flush_chain_loop E b flush_old ps g = (all, g')"
    and "gl_count (gn_hash g b) = int (length ps)"
  shows "gn_hash g' = (gn_hash g)(b := \<lparr>gl_list = kept E flush_old (rev ps), gl_count = int (length (kept E flush_old (rev ps)))\<rparr>) \<and>
    gn_bitmask g' = gn_bitmask g \<and> (all \<longleftrightarrow> kept E flush_old (rev ps) = []) \<and>
    gone g' + gro_weight (kept E flush_old (rev ps)) = gone g + gro_weight ps"
  using assms(2-)
proof (induction ps arbitrary: g)
  case Nil
  then show ?case by (auto simp: kept_def gro_weight_def)
next
  case (Cons p ps)
  show ?case
  proof (cases "flush_old \<and> gc_age p = ge_jiffies E")
    case True
    then have "kept E flush_old (rev (p # ps)) = rev (p # ps)" by (simp add: kept_def)
    moreover have "g' = g" "\<not> all" using Cons.prems True by auto
    moreover have "gl_list (gn_hash g b) = rev (p # ps)" using Cons.prems(1) by (metis rev_rev_ident)
    ultimately show ?thesis using Cons.prems(3) by (auto simp: gro_weight_def sum_list_rev rev_map [symmetric])
  next
    case False
    let ?g = "upd_bucket b (\<lambda>l. l\<lparr>gl_count := gl_count l - 1\<rparr>) (gro_complete E p (upd_bucket b (\<lambda>l. l\<lparr>gl_list := rev ps\<rparr>) g))"
    have k: "kept E flush_old (rev (p # ps)) = kept E flush_old (rev ps)" using False by (auto simp: kept_def)
    have "flush_chain_loop E b flush_old ps ?g = (all, g')" using Cons.prems(2) False by auto
    then have "gn_hash g' = (gn_hash ?g)(b := \<lparr>gl_list = kept E flush_old (rev ps), gl_count = int (length (kept E flush_old (rev ps)))\<rparr>) \<and>
      gn_bitmask g' = gn_bitmask ?g \<and> (all \<longleftrightarrow> kept E flush_old (rev ps) = []) \<and>
      gone g' + gro_weight (kept E flush_old (rev ps)) = gone ?g + gro_weight ps"
      using Cons.prems(3) by (intro Cons.IH) simp_all
    then show ?thesis unfolding k by (simp add: gone_complete [OF assms(1)] gro_weight_def)
  qed
qed

lemma bit_unset: "bit (unset_bit b w) i \<longleftrightarrow> i \<noteq> b \<and> bit w i" for w :: u64
  by (auto simp: bit_unset_bit_iff)

lemma flush_chain_result:
  assumes "offloads_ok E" "gro_ok g"
  shows "gn_hash (gro_flush_chain E b flush_old g) = (gn_hash g)(b := \<lparr>gl_list = kept E flush_old (gl_list (gn_hash g b)),
      gl_count = int (length (kept E flush_old (gl_list (gn_hash g b))))\<rparr>) \<and>
    (\<forall>i. bit (gn_bitmask (gro_flush_chain E b flush_old g)) i \<longleftrightarrow>
      (if i = b then kept E flush_old (gl_list (gn_hash g b)) \<noteq> [] else bit (gn_bitmask g) i)) \<and>
    gone (gro_flush_chain E b flush_old g) + gro_weight (kept E flush_old (gl_list (gn_hash g b))) =
      gone g + gro_weight (gl_list (gn_hash g b))"
proof -
  let ?l = "gl_list (gn_hash g b)"
  obtain all g' where l: "flush_chain_loop E b flush_old (rev ?l) g = (all, g')" by fastforce
  have "gl_count (gn_hash g b) = int (length (rev ?l))" "bit (gn_bitmask g) b \<longleftrightarrow> ?l \<noteq> []"
    using assms(2) by (auto simp: gro_ok_def bucket_list_ok_def)
  note r = flush_chain_loop_result [OF assms(1) refl l this(1), simplified] this(2)
  have "gro_weight (rev ?l) = gro_weight ?l" by (simp add: gro_weight_def rev_map [symmetric] sum_list_rev)
  moreover have "?l = [] \<Longrightarrow> kept E flush_old ?l = []" by (simp add: kept_def)
  ultimately show ?thesis using r by (cases all) (auto simp: gro_flush_chain_def l bit_unset)
qed

lemma kept_length: "length (kept E flush_old ps) \<le> length ps"
  by (metis kept_def length_dropWhile_le length_rev)

lemma flush_chain_ok:
  assumes "offloads_ok E" "gro_ok g" "b < unat GRO_HASH_BUCKETS"
  shows "gro_ok (gro_flush_chain E b flush_old g) \<and>
    gone (gro_flush_chain E b flush_old g) + held_weight (gro_flush_chain E b flush_old g) = gone g + held_weight g"
proof -
  note r = flush_chain_result [OF assms(1,2), of b flush_old]
  have "bucket_list_ok (gn_hash g b)" using assms(2) by (simp add: gro_ok_def)
  then have "length (kept E flush_old (gl_list (gn_hash g b))) \<le> nat MAX_GRO_SKBS"
    using kept_length [of E flush_old "gl_list (gn_hash g b)"] by (simp add: bucket_list_ok_def)
  then have "gro_ok (gro_flush_chain E b flush_old g)" using r assms(2,3) by (auto simp: gro_ok_def bucket_list_ok_def)
  moreover have "held_weight (gro_flush_chain E b flush_old g) + gro_weight (gl_list (gn_hash g b)) =
      held_weight g + gro_weight (kept E flush_old (gl_list (gn_hash g b)))"
    using held_weight_upd [OF assms(3) conjunct1 [OF r]] by simp
  ultimately show ?thesis using r by linarith
qed

subsection \<open>The loop over the bit mask\<close>

text \<open>The loop visits the buckets whose bit is set, in order.\<close>

lemma ffs_Suc: "ffs w = Suc i \<Longrightarrow> bit w i \<and> (\<forall>j<i. \<not> bit w j) \<and> i < 32"
  by (auto simp: ffs_def find_Some_iff split: option.splits)

lemma filter_bits_from:
  fixes w :: u64
  assumes "ffs (drop_bit k w) = Suc i" "k + i < 32"
  shows "filter (bit w) [k..<32] = (k + i) # filter (bit w) [Suc (k + i)..<32]"
proof -
  have b: "bit w (k + i)" "\<And>j. j < i \<Longrightarrow> \<not> bit w (k + j)" using ffs_Suc [OF assms(1)] by (auto simp: bit_drop_bit_eq)
  have "[k..<32] = [k..<k + i] @ [k + i..<32]" using upt_add_eq_append [of k "k + i" "32 - (k + i)"] assms(2) by simp
  moreover have "\<not> bit w x" if "x \<in> set [k..<k + i]" for x using b(2) [of "x - k"] that by (cases "x - k < i") auto
  then have "filter (bit w) [k..<k + i] = []" by (simp add: filter_empty_conv)
  moreover have "[k + i..<32] = (k + i) # [Suc (k + i)..<32]" using assms(2) by (simp add: upt_rec)
  ultimately show ?thesis using b(1) by simp
qed

lemma flush_loop_fold:
  assumes "k \<le> 32" "base + 1 = of_nat k" and w: "\<And>i. bit w i \<Longrightarrow> i < 32"
  shows "gro_flush_loop E flush_old (drop_bit k w) base g = fold (\<lambda>b. gro_flush_chain E b flush_old) (filter (bit w) [k..<32]) g"
  using assms(1,2)
proof (induction "32 - k" arbitrary: k base g rule: less_induct)
  case less
  show ?case
  proof (cases "ffs (drop_bit k w)")
    case 0
    then have "\<not> bit (drop_bit k w) (j - k)" if "j < 32" for j
      using that unfolding ffs_def by (auto simp: find_None_iff split: option.splits)
    then have "\<not> bit w (k + (j - k))" if "j < 32" for j using that by (simp add: bit_drop_bit_eq)
    then have "\<not> bit w j" if "k \<le> j" "j < 32" for j using that by (metis le_add_diff_inverse)
    then have "filter (bit w) [k..<32] = []" by (simp add: filter_empty_conv)
    then show ?thesis using 0 by (subst gro_flush_loop.simps) simp
  next
    case (Suc i)
    have "bit w (k + i)" using ffs_Suc [OF Suc] by (simp add: bit_drop_bit_eq)
    then have k: "k + i < 32" by (rule w)
    let ?base = "base + of_nat (Suc i)"
    have "?base = (base + 1) + of_nat i" by simp
    then have b: "?base = of_nat (k + i)" using less.prems(2) by simp
    have u: "unat ?base = k + i" unfolding b using k by (simp add: unat_of_nat del: of_nat_add)
    have IH: "gro_flush_loop E flush_old (drop_bit (Suc (k + i)) w) ?base h =
        fold (\<lambda>b. gro_flush_chain E b flush_old) (filter (bit w) [Suc (k + i)..<32]) h" for h
    proof (rule less.hyps)
      show "?base + 1 = of_nat (Suc (k + i))" unfolding b by simp
    qed (use k in auto)
    have "drop_bit (Suc i) (drop_bit k w) = drop_bit (Suc (k + i)) w" by (simp add: drop_bit_drop_bit add.commute)
    moreover have "gro_flush_loop E flush_old (drop_bit k w) base g =
        gro_flush_loop E flush_old (drop_bit (Suc i) (drop_bit k w)) ?base (gro_flush_chain E (unat ?base) flush_old g)"
      by (subst gro_flush_loop.simps) (simp only: Let_def Suc nat.simps if_False)
    ultimately show ?thesis unfolding u filter_bits_from [OF Suc k] by (simp only: IH fold_simps)
  qed
qed

lemma gro_flush_fold:
  assumes "\<And>i. bit (gn_bitmask g) i \<Longrightarrow> i < 32"
  shows "gro_flush E flush_old g = fold (\<lambda>b. gro_flush_chain E b flush_old) (filter (bit (gn_bitmask g)) [0..<32]) g"
  using flush_loop_fold [of 0 "- 1" "gn_bitmask g" E flush_old g] assms by (simp add: gro_flush_def)

section \<open>Receiving\<close>

definition gro_total :: "gro_node \<Rightarrow> nat" where
  "gro_total g = held_weight g + gone g"

text \<open>In order except for the bit of one bucket, which is set at the end.\<close>

definition almost_ok :: "nat \<Rightarrow> gro_node \<Rightarrow> bool" where
  "almost_ok b g \<longleftrightarrow> b < unat GRO_HASH_BUCKETS \<and> (\<forall>i. bucket_list_ok (gn_hash g i)) \<and>
     (\<forall>i. i \<noteq> b \<longrightarrow> (bit (gn_bitmask g) i \<longleftrightarrow> gl_list (gn_hash g i) \<noteq> [])) \<and>
     (\<forall>i \<ge> unat GRO_HASH_BUCKETS. gl_list (gn_hash g i) = [])"

lemma bucket_of_less: "gro_bucket_of skb < unat GRO_HASH_BUCKETS"
proof -
  have "(7 :: u32) = mask 3" by (simp add: mask_eq_exp_minus_1)
  then show ?thesis using unat_and_mask_mod [of "g_hash skb" 3] by (simp add: gro_bucket_of_def GRO_HASH_BUCKETS_def)
qed

lemma almost_ok_from: "gro_ok g \<Longrightarrow> almost_ok (gro_bucket_of skb) g"
  using bucket_of_less by (auto simp: gro_ok_def almost_ok_def)

lemma bit_set: "i < 64 \<Longrightarrow> bit (set_bit b w) i \<longleftrightarrow> i = b \<or> bit w i" for w :: u64
  by (auto simp: bit_set_bit_iff)

lemma bucket_exit_ok:
  assumes "almost_ok b g"
  shows "gro_ok (gro_bucket_exit b g)" "gro_total (gro_bucket_exit b g) = gro_total g"
proof -
  have b: "b < 64" using assms by (simp add: almost_ok_def GRO_HASH_BUCKETS_def)
  have "bucket_list_ok (gn_hash g b)" using assms by (simp add: almost_ok_def)
  then have c: "gl_count (gn_hash g b) = 0 \<longleftrightarrow> gl_list (gn_hash g b) = []" by (simp add: bucket_list_ok_def)
  have "bit (gn_bitmask (gro_bucket_exit b g)) i \<longleftrightarrow> gl_list (gn_hash g i) \<noteq> []" for i
  proof (cases "i < 64")
    case True
    then show ?thesis using assms c by (auto simp: almost_ok_def gro_bucket_exit_def bit_set bit_unset)
  next
    case False
    then have "\<not> bit (gn_bitmask (gro_bucket_exit b g)) i" using bit_imp_le_length [of "gn_bitmask (gro_bucket_exit b g)" i] by auto
    then show ?thesis using False assms by (simp add: almost_ok_def GRO_HASH_BUCKETS_def)
  qed
  then show "gro_ok (gro_bucket_exit b g)" using assms by (simp add: almost_ok_def gro_ok_def)
  show "gro_total (gro_bucket_exit b g) = gro_total g" by (simp add: gro_total_def held_weight_def)
qed

lemma almost_ok_upd:
  assumes "almost_ok b g" "gn_hash g' = (gn_hash g)(b := l)" "gn_bitmask g' = gn_bitmask g" "bucket_list_ok l"
  shows "almost_ok b g'" "held_weight g' + gro_weight (gl_list (gn_hash g b)) = held_weight g + gro_weight (gl_list l)"
  using assms held_weight_upd [of b g' g l] by (simp_all add: almost_ok_def)

lemma almost_ok_list:
  assumes "almost_ok b g" "length l = length (gl_list (gn_hash g b))"
  shows "almost_ok b (upd_bucket b (\<lambda>x. x\<lparr>gl_list := l\<rparr>) g)"
    and "gro_total (upd_bucket b (\<lambda>x. x\<lparr>gl_list := l\<rparr>) g) + gro_weight (gl_list (gn_hash g b)) = gro_total g + gro_weight l"
proof -
  have "bucket_list_ok (gn_hash g b)" using assms(1) by (simp add: almost_ok_def)
  then have l: "bucket_list_ok ((gn_hash g b)\<lparr>gl_list := l\<rparr>)" using assms(2) by (simp add: bucket_list_ok_def)
  note r = almost_ok_upd [OF assms(1) _ _ l, of "upd_bucket b (\<lambda>x. x\<lparr>gl_list := l\<rparr>) g", simplified]
  show "almost_ok b (upd_bucket b (\<lambda>x. x\<lparr>gl_list := l\<rparr>) g)" using r by simp
  show "gro_total (upd_bucket b (\<lambda>x. x\<lparr>gl_list := l\<rparr>) g) + gro_weight (gl_list (gn_hash g b)) = gro_total g + gro_weight l"
    using r by (simp add: gro_total_def)
qed

lemma weight_prepare [simp]: "gro_weight (gro_list_prepare E skb l) = gro_weight l" "length (gro_list_prepare E skb l) = length l"
  by (simp_all add: gro_weight_def gro_list_prepare_def comp_def)

lemma weight_split: "k < length l \<Longrightarrow> gro_weight l = gc_count (l ! k) + gro_weight (take k l @ drop (k + 1) l)"
  by (subst id_take_nth_drop [of k l]) (simp_all add: gro_weight_def)

lemma weight_butlast: "l \<noteq> [] \<Longrightarrow> gro_weight l = gro_weight (butlast l) + gc_count (last l)"
  by (induction l rule: rev_induct) (simp_all add: gro_weight_def)

lemma complete_pp_ok:
  assumes "offloads_ok E" "almost_ok b g" "\<And>k. pp = Some k \<Longrightarrow> k < length (gl_list (gn_hash g b))"
  shows "almost_ok b (gro_complete_pp E b pp g)" "gro_total (gro_complete_pp E b pp g) = gro_total g"
proof -
  have "almost_ok b (gro_complete_pp E b pp g) \<and> gro_total (gro_complete_pp E b pp g) = gro_total g"
  proof (cases pp)
    case None
    then show ?thesis using assms(2) by (simp add: gro_complete_pp_def)
  next
    case (Some k)
    let ?l = "gl_list (gn_hash g b)" and ?g = "gro_complete_pp E b pp g"
    let ?x = "(gn_hash g b)\<lparr>gl_list := take k ?l @ drop (k + 1) ?l, gl_count := gl_count (gn_hash g b) - 1\<rparr>"
    have k: "k < length ?l" using assms(3) Some by simp
    have "bucket_list_ok (gn_hash g b)" using assms(2) by (simp add: almost_ok_def)
    then have x: "bucket_list_ok ?x" using k by (auto simp: bucket_list_ok_def)
    have h: "gn_hash ?g = (gn_hash g)(b := ?x)" "gn_bitmask ?g = gn_bitmask g" "gone ?g = gone g + gc_count (?l ! k)"
      using Some gone_complete [OF assms(1)] by (simp_all add: gro_complete_pp_def Let_def)
    show ?thesis using almost_ok_upd [OF assms(2) h(1,2) x] h(3) weight_split [OF k] by (simp add: gro_total_def)
  qed
  then show "almost_ok b (gro_complete_pp E b pp g)" "gro_total (gro_complete_pp E b pp g) = gro_total g" by auto
qed

lemma try_pull_frame [simp]: "gc_count (gro_try_pull_from_frag0 skb) = gc_count skb"
  by (simp add: gro_try_pull_from_frag0_def gro_pull_from_frag0_def Let_def)

lemma hold_ok:
  assumes "offloads_ok E" "almost_ok b g"
  shows "almost_ok b (gro_hold E b skb g)" "gro_total (gro_hold E b skb g) = gro_total g + gc_count skb"
proof -
  let ?l = "gl_list (gn_hash g b)" and ?g = "gro_hold E b skb g"
  define s2 where "s2 = (gro_try_pull_from_frag0 skb)\<lparr>gc_age := ge_jiffies E,
    g_gso_size := (if skb_is_gso (gro_try_pull_from_frag0 skb) then g_gso_size (gro_try_pull_from_frag0 skb)
      else skb_gro_len (gro_try_pull_from_frag0 skb))\<rparr>"
  have c: "gc_count s2 = gc_count skb" by (simp add: s2_def)
  have ok: "gl_count (gn_hash g b) = int (length ?l)" "length ?l \<le> 8"
    using assms(2) by (auto simp: almost_ok_def bucket_list_ok_def MAX_GRO_SKBS_def)
  have "almost_ok b ?g \<and> gro_total ?g = gro_total g + gc_count skb"
  proof (cases "MAX_GRO_SKBS \<le> gl_count (gn_hash g b)")
    case True
    then have l: "?l \<noteq> []" "length ?l = 8" using ok by (auto simp: MAX_GRO_SKBS_def)
    let ?x = "(gn_hash g b)\<lparr>gl_list := s2 # butlast ?l\<rparr>"
    have h: "gn_hash ?g = (gn_hash g)(b := ?x)" "gn_bitmask ?g = gn_bitmask g" "gone ?g = gone g + gc_count (last ?l)"
      using True l gone_complete [OF assms(1)] by (simp_all add: gro_hold_def gro_flush_oldest_def Let_def s2_def)
    have x: "bucket_list_ok ?x" using l ok by (simp add: bucket_list_ok_def MAX_GRO_SKBS_def)
    show ?thesis using weight_butlast [OF l(1)] almost_ok_upd [OF assms(2) h(1,2) x] h(3) c by (simp add: gro_total_def gro_weight_def)
  next
    case False
    let ?x = "(gn_hash g b)\<lparr>gl_count := gl_count (gn_hash g b) + 1, gl_list := s2 # ?l\<rparr>"
    have h: "gn_hash ?g = (gn_hash g)(b := ?x)" "gn_bitmask ?g = gn_bitmask g" "gone ?g = gone g"
      using False by (simp_all add: gro_hold_def Let_def s2_def)
    have x: "bucket_list_ok ?x" using False ok by (simp add: bucket_list_ok_def MAX_GRO_SKBS_def)
    show ?thesis using almost_ok_upd [OF assms(2) h(1,2) x] h(3) c by (simp add: gro_total_def gro_weight_def)
  qed
  then show "almost_ok b ?g" "gro_total ?g = gro_total g + gc_count skb" by auto
qed

lemma total_normal_one: "gro_total (gro_normal_one E skb n g) = gro_total g + n"
  by (simp add: gro_total_def held_weight_def)

lemma gro_ok_hash: "gn_hash g' = gn_hash g \<Longrightarrow> gn_bitmask g' = gn_bitmask g \<Longrightarrow> gro_ok g' = gro_ok g"
  by (simp add: gro_ok_def)

lemma gro_setup_cb_simps [simp]: "\<not> gc_same_flow (gro_setup_cb skb)" "\<not> skb_is_gso skb \<Longrightarrow> gc_count (gro_setup_cb skb) = 1"
  by (simp_all add: gro_setup_cb_def Let_def)

text \<open>A packet is passed on, held, merged or consumed; it is counted once.\<close>

lemma dev_gro_receive_ok:
  assumes "offloads_ok E" "gro_ok g" "\<not> skb_is_gso skb" "dev_gro_receive E skb g = (ret, skb', g')"
  shows "gro_ok g' \<and> gro_total g' + (if ret \<in> {GRO_NORMAL, GRO_CONSUMED} then 1 else 0) = gro_total g + 1"
proof -
  let ?b = "gro_bucket_of skb"
  let ?g1 = "upd_bucket ?b (\<lambda>x. x\<lparr>gl_list := gro_list_prepare E skb (gl_list x)\<rparr>) g"
  have a: "almost_ok ?b g" using almost_ok_from [OF assms(2)] .
  have a1: "almost_ok ?b ?g1" "gro_total ?g1 = gro_total g"
    using almost_ok_list [OF a, of "gro_list_prepare E skb (gl_list (gn_hash g ?b))"] by (simp_all add: upd_bucket_def)
  consider (elide) "ge_elide_gro E (g_dev skb)"
    | (none) "\<not> ge_elide_gro E (g_dev skb)" "gro_find_receive_by_type (g_protocol skb) (ge_offload_base E) = None"
    | (found) po where "\<not> ge_elide_gro E (g_dev skb)" "gro_find_receive_by_type (g_protocol skb) (ge_offload_base E) = Some po" by blast
  then show ?thesis
  proof cases
    case elide
    then show ?thesis using assms(4) bucket_exit_ok [OF a] by (auto simp: dev_gro_receive_def Let_def)
  next
    case none
    then show ?thesis using assms(4) bucket_exit_ok [OF a1(1)] a1(2) by (auto simp: dev_gro_receive_def Let_def)
  next
    case found
    obtain held skb1 pp where c: "the (po_gro_receive po) (gl_list (gn_hash ?g1 ?b)) (gro_setup_cb skb) = (held, skb1, pp)"
      using prod_cases3 by blast
    note R = found_receiver [OF assms(1) found(2)]
    let ?g2 = "upd_bucket ?b (\<lambda>x. x\<lparr>gl_list := held\<rparr>) ?g1"
    have a2: "almost_ok ?b ?g2" "gro_total ?g2 + gro_weight (gl_list (gn_hash ?g1 ?b)) = gro_total g + gro_weight held"
      using almost_ok_list [OF a1(1) gro_receiver.receive_length [OF R c]] a1(2) by simp_all
    note d = assms(4) [unfolded dev_gro_receive_def Let_def, simplified found if_False option.case, unfolded c prod.case]
    show ?thesis
    proof (cases pp)
      case GRO_EINPROGRESS
      then have "gro_total ?g2 = gro_total g" using a2(2) gro_receiver.consume_weight [OF R c [unfolded GRO_EINPROGRESS]] by simp
      then show ?thesis using d GRO_EINPROGRESS bucket_exit_ok [OF a2(1)] by auto
    next
      case (GRO_PP k)
      let ?g3 = "gro_complete_pp E ?b k ?g2"
      have k: "j < length (gl_list (gn_hash ?g2 ?b))" if "k = Some j" for j
        using gro_receiver.receive_position [OF R] gro_receiver.receive_length [OF R c] c that GRO_PP by fastforce
      have a3: "almost_ok ?b ?g3" "gro_total ?g3 = gro_total ?g2" using complete_pp_ok [OF assms(1) a2(1)] k by blast+
      have w: "gro_weight held + (if gc_same_flow skb1 then 0 else gc_count skb1) = gro_weight (gl_list (gn_hash ?g1 ?b)) + 1"
        using gro_receiver.receive_weight [OF R c [unfolded GRO_PP]] assms(3) by simp
      have o: "\<not> gc_same_flow skb1 \<Longrightarrow> gc_count skb1 = 1"
        using gro_receiver.receive_keeps [OF R c [unfolded GRO_PP]] assms(3) by simp
      show ?thesis
      proof (cases "gc_same_flow skb1")
        case True
        then show ?thesis using d GRO_PP bucket_exit_ok [OF a3(1)] a3(2) a2(2) w by (auto split: if_splits)
      next
        case False
        have "gro_total ?g3 = gro_total g" using a2(2) a3(2) w o [OF False] False by simp
        then show ?thesis
          using d GRO_PP False o [OF False] bucket_exit_ok [OF a3(1)] bucket_exit_ok [OF hold_ok(1) [OF assms(1) a3(1)]] hold_ok(2) [OF assms(1) a3(1)]
          by (cases "gc_flush skb1") auto
      qed
    qed
  qed
qed

section \<open>Flushing\<close>

lemma fold_flush:
  assumes "offloads_ok E" "gro_ok g" "distinct bs" "\<forall>b \<in> set bs. b < unat GRO_HASH_BUCKETS"
  shows "gro_ok (fold (\<lambda>b. gro_flush_chain E b flush_old) bs g) \<and> gro_total (fold (\<lambda>b. gro_flush_chain E b flush_old) bs g) = gro_total g \<and>
    (\<forall>b. gl_list (gn_hash (fold (\<lambda>b. gro_flush_chain E b flush_old) bs g) b) =
       (if b \<in> set bs then kept E flush_old (gl_list (gn_hash g b)) else gl_list (gn_hash g b)))"
  using assms(2-)
proof (induction bs arbitrary: g)
  case Nil
  then show ?case by simp
next
  case (Cons c bs)
  let ?g = "gro_flush_chain E c flush_old g"
  have g: "gro_ok ?g" "gro_total ?g = gro_total g" using flush_chain_ok [OF assms(1) Cons.prems(1), of c flush_old] Cons.prems(3) by (auto simp: gro_total_def)
  have "gn_hash ?g b = (if b = c then \<lparr>gl_list = kept E flush_old (gl_list (gn_hash g c)),
      gl_count = int (length (kept E flush_old (gl_list (gn_hash g c))))\<rparr> else gn_hash g b)" for b
    using flush_chain_result [OF assms(1) Cons.prems(1), of c flush_old] by simp
  then show ?case using Cons.IH [OF g(1)] Cons.prems(2,3) g(2) by auto
qed

lemma flush_result:
  assumes "offloads_ok E" "gro_ok g"
  shows "gro_ok (gro_flush E flush_old g) \<and> gro_total (gro_flush E flush_old g) = gro_total g \<and>
    (\<forall>b. gl_list (gn_hash (gro_flush E flush_old g) b) = kept E flush_old (gl_list (gn_hash g b)))"
proof -
  let ?bs = "filter (bit (gn_bitmask g)) [0..<32]"
  have b: "bit (gn_bitmask g) b \<longleftrightarrow> gl_list (gn_hash g b) \<noteq> []" "unat GRO_HASH_BUCKETS \<le> b \<Longrightarrow> gl_list (gn_hash g b) = []" for b
    using assms(2) by (simp_all add: gro_ok_def)
  have l: "i < 32" if "bit (gn_bitmask g) i" for i using b(1,2) [of i] that by (cases "i < 32") (auto simp: GRO_HASH_BUCKETS_def)
  have "\<forall>b \<in> set ?bs. b < unat GRO_HASH_BUCKETS" using b not_le by auto
  note f = fold_flush [OF assms, of ?bs flush_old, OF _ this, simplified distinct_filter distinct_upt simp_thms]
  have "(if b \<in> set ?bs then kept E flush_old (gl_list (gn_hash g b)) else gl_list (gn_hash g b)) = kept E flush_old (gl_list (gn_hash g b))" for b
  proof (cases "b \<in> set ?bs")
    case False
    then have "\<not> bit (gn_bitmask g) b" using l by auto
    then show ?thesis using b(1) [of b] by (simp add: kept_def)
  qed simp
  then show ?thesis using f gro_flush_fold [of g E flush_old, OF l] by simp
qed

section \<open>Runs\<close>

datatype gro_op = RECEIVE gro_skb | FLUSH bool | NORMAL_LIST | CLEANUP

fun gro_apply :: "gro_env \<times> gro_op \<Rightarrow> gro_node \<Rightarrow> gro_node" where
  "gro_apply (E, RECEIVE skb) g = snd (gro_receive_skb E skb g)"
| "gro_apply (E, FLUSH flush_old) g = gro_flush E flush_old g"
| "gro_apply (E, NORMAL_LIST) g = gro_normal_list g"
| "gro_apply (E, CLEANUP) g = gro_init (gro_cleanup g)"

definition new_node :: gro_node where
  "new_node = gro_init \<lparr>gn_hash = (\<lambda>_. \<lparr>gl_list = [], gl_count = 0\<rparr>), gn_bitmask = 0, gn_rx_list = [], gn_rx_count = 0,
     gn_stack = [], gn_dropped = [], gn_consumed = []\<rparr>"

text \<open>The packets that a driver hands over are not segmented yet.\<close>

definition gro_op_ok :: "gro_env \<times> gro_op \<Rightarrow> bool" where
  "gro_op_ok x \<longleftrightarrow> offloads_ok (fst x) \<and> (case snd x of RECEIVE skb \<Rightarrow> \<not> skb_is_gso skb | _ \<Rightarrow> True)"

definition gro_arrivals :: "(gro_env \<times> gro_op) list \<Rightarrow> nat" where
  "gro_arrivals ops = length (filter (\<lambda>x. case snd x of RECEIVE _ \<Rightarrow> True | _ \<Rightarrow> False) ops)"

lemma receive_skb_ok:
  assumes "offloads_ok E" "gro_ok g" "\<not> skb_is_gso skb"
  shows "gro_ok (snd (gro_receive_skb E skb g)) \<and> gro_total (snd (gro_receive_skb E skb g)) = gro_total g + 1"
proof -
  have "\<not> skb_is_gso (skb_gro_reset_offset (ge_frag_aligned E) skb)"
    using assms(3) by (simp add: skb_is_gso_def skb_gro_reset_offset_def Let_def split: list.splits)
  moreover obtain ret skb' g' where d: "dev_gro_receive E (skb_gro_reset_offset (ge_frag_aligned E) skb) g = (ret, skb', g')"
    using prod_cases3 by blast
  ultimately have r: "gro_ok g' \<and> gro_total g' + (if ret \<in> {GRO_NORMAL, GRO_CONSUMED} then 1 else 0) = gro_total g + 1"
    using dev_gro_receive_ok [OF assms(1,2)] by blast
  have c: "gro_total (g'\<lparr>gn_consumed := gn_consumed g' @ [skb']\<rparr>) = gro_total g' + 1"
    "gro_ok (g'\<lparr>gn_consumed := gn_consumed g' @ [skb']\<rparr>) = gro_ok g'"
    by (simp_all add: gro_total_def held_weight_def gone_def gro_ok_def)
  have n: "gro_ok (gro_normal_one E skb' 1 g') = gro_ok g'" by (rule gro_ok_hash) simp_all
  show ?thesis using r c n by (cases ret) (auto simp: gro_receive_skb_def gro_skb_finish_def d total_normal_one)
qed

lemma cleanup_ok:
  assumes "gro_ok g"
  shows "gro_ok (gro_init (gro_cleanup g)) \<and> gro_total (gro_init (gro_cleanup g)) = gro_total g"
proof -
  have i: "gro_init (gro_cleanup g) = gro_cleanup g" by (auto simp: gro_init_def gro_cleanup_def fun_eq_iff intro!: gro_node.equality)
  have "sum_list (map snd (concat (map (\<lambda>b. map (\<lambda>p. (p, gc_count p)) (gl_list (gn_hash g b))) bs))) =
      sum_list (map (\<lambda>b. gro_weight (gl_list (gn_hash g b))) bs)" for bs
    by (induction bs) (simp_all add: gro_weight_def comp_def)
  moreover have "sum_list (map (\<lambda>b. gro_weight (gl_list (gn_hash g b))) [0..<unat GRO_HASH_BUCKETS]) = held_weight g"
    by (simp add: held_weight_def interv_sum_list_conv_sum_set_nat atLeast0LessThan)
  moreover have "held_weight (gro_cleanup g) = 0" by (simp add: held_weight_def gro_cleanup_def gro_weight_def)
  ultimately have "gro_total (gro_cleanup g) = gro_total g" by (simp add: gro_total_def gone_def gro_cleanup_def)
  moreover have "gro_ok (gro_cleanup g)" using assms by (auto simp: gro_ok_def gro_cleanup_def bucket_list_ok_def)
  ultimately show ?thesis unfolding i by blast
qed

lemma apply_ok:
  assumes "gro_op_ok x" "gro_ok g"
  shows "gro_ok (gro_apply x g) \<and> gro_total (gro_apply x g) = gro_total g + gro_arrivals [x]"
proof (cases x)
  case (Pair E op)
  have n: "gro_ok (gro_normal_list g) = gro_ok g" "gro_total (gro_normal_list g) = gro_total g"
    by (simp_all add: gro_ok_def gro_normal_list_def gro_total_def held_weight_def gone_def)
  show ?thesis
    using assms n receive_skb_ok flush_result cleanup_ok by (cases op) (auto simp: Pair gro_op_ok_def gro_arrivals_def)
qed

lemma gro_run_ok:
  assumes "\<forall>x \<in> set ops. gro_op_ok x" "gro_ok g"
  shows "gro_ok (fold gro_apply ops g) \<and> gro_total (fold gro_apply ops g) = gro_total g + gro_arrivals ops"
  using assms
proof (induction ops arbitrary: g)
  case Nil
  then show ?case by (simp add: gro_arrivals_def)
next
  case (Cons x ops)
  then show ?case using apply_ok [of x g] by (auto simp: gro_arrivals_def)
qed

lemma new_gro_node_ok: "gro_ok new_node" "gro_total new_node = 0"
  by (simp_all add: new_node_def gro_init_def gro_ok_def bucket_list_ok_def gro_total_def held_weight_def gone_def gro_weight_def)

end
