(* ===== verification/Gro_Merge.thy ===== *)
theory Gro_Merge
  imports Gro
begin

text \<open>
  Merging keeps the data: the buffers of a packet are joined to those of a held one in one of three ways, and in each of them the payload
  follows the data that were there.
\<close>

section \<open>Merging keeps the data\<close>

text \<open>
  A packet that can be merged: its length is that of its data, it has no fragment list, there is something behind the headers that
  were read, and those are in the linear part or reach into the first fragment only.
\<close>

definition mergeable :: "gro_skb \<Rightarrow> bool" where
  "mergeable skb \<longleftrightarrow> g_frag_list skb = [] \<and> g_len skb = length (gro_content skb) \<and> 0 < skb_gro_len skb \<and>
     (skb_headlen skb < skb_gro_offset skb \<longrightarrow>
        pt_frags (g_self skb) \<noteq> [] \<and> skb_gro_offset skb - skb_headlen skb \<le> length (hd (pt_frags (g_self skb))))"

lemma content_upd_last:
  assumes "part_data (f (last_part p)) = part_data (last_part p) @ d"
  shows "gro_content (upd_last f p) = gro_content p @ d"
proof (cases "g_frag_list p" rule: rev_cases)
  case Nil
  then show ?thesis using assms by (simp add: gro_content_def upd_last_def last_part_def)
next
  case (snoc ys y)
  then show ?thesis using assms by (simp add: gro_content_def upd_last_def last_part_def)
qed

lemma content_append_frags: "gro_content (append_frags fs p) = gro_content p @ concat fs"
  unfolding append_frags_def by (rule content_upd_last) (simp add: part_data_def)

lemma content_add_part: "gro_content (p\<lparr>g_frag_list := g_frag_list p @ [b]\<rparr>) = gro_content p @ part_data b"
  by (simp add: gro_content_def)

lemma content_merge_done [simp]: "gro_content (gro_merge_done segs len p) = gro_content p"
  by (simp add: gro_merge_done_def gro_content_def)

lemma mergeable_content: "mergeable skb \<Longrightarrow> gro_content skb = pt_head (g_self skb) @ concat (pt_frags (g_self skb))"
  by (simp add: mergeable_def gro_content_def part_data_def)

lemma eat_frag_data:
  assumes "mergeable skb" "skb_headlen skb \<le> skb_gro_offset skb"
  obtains fs where "eat_frag (skb_gro_offset skb - skb_headlen skb) (pt_frags (g_self skb)) = Some fs"
    "concat fs = drop (skb_gro_offset skb) (gro_content skb)"
proof -
  note c = mergeable_content [OF assms(1)]
  have "pt_frags (g_self skb) \<noteq> []"
    using assms c by (cases "pt_frags (g_self skb)") (auto simp: mergeable_def skb_gro_len_def skb_gro_offset_def skb_headlen_def)
  then obtain f fs where f: "pt_frags (g_self skb) = f # fs" by (cases "pt_frags (g_self skb)") auto
  then have l: "skb_gro_offset skb - skb_headlen skb \<le> length f"
    using assms by (cases "skb_headlen skb < skb_gro_offset skb") (auto simp: mergeable_def)
  show ?thesis
  proof
    show "eat_frag (skb_gro_offset skb - skb_headlen skb) (pt_frags (g_self skb)) = Some (drop (skb_gro_offset skb - skb_headlen skb) f # fs)"
      using f l by simp
    show "concat (drop (skb_gro_offset skb - skb_headlen skb) f # fs) = drop (skb_gro_offset skb) (gro_content skb)"
      using assms(2) l by (simp add: c f skb_headlen_def)
  qed
qed

lemma merge_data:
  assumes "mergeable skb"
  obtains p' where "gro_merge p skb = Some p'" "gro_content p' = gro_content p @ drop (skb_gro_offset skb) (gro_content skb)"
    "g_len p' = g_len p" "gc_count p' = gc_count p"
proof (cases "skb_headlen skb < skb_gro_offset skb")
  case True
  then obtain fs where fs: "eat_frag (skb_gro_offset skb - skb_headlen skb) (pt_frags (g_self skb)) = Some fs"
    "concat fs = drop (skb_gro_offset skb) (gro_content skb)" using eat_frag_data [OF assms] by (metis less_imp_le)
  show ?thesis
    by (rule that [of "p\<lparr>g_frag_list := g_frag_list p @ [\<lparr>pt_head = [], pt_frags = fs\<rparr>]\<rparr>"])
      (use True fs in \<open>simp_all add: gro_merge_def Let_def content_add_part part_data_def\<close>)
next
  case False
  then show ?thesis
    using that [of "p\<lparr>g_frag_list := g_frag_list p @ [(g_self skb)\<lparr>pt_head := drop (skb_gro_offset skb) (pt_head (g_self skb))\<rparr>]\<rparr>"]
    by (simp add: gro_merge_def Let_def content_add_part part_data_def skb_headlen_def mergeable_content [OF assms])
qed

text \<open>When a packet is refused, and how it is merged otherwise.\<close>

definition refuses :: "nat \<Rightarrow> gro_skb \<Rightarrow> gro_skb \<Rightarrow> bool" where
  "refuses max_size p skb \<longleftrightarrow> g_pp_recycle p \<noteq> g_pp_recycle skb \<or> max_size \<le> g_len p + skb_gro_len skb \<or> gc_flush skb \<or>
    GRO_LEGACY_MAX_SIZE \<le> g_len p + skb_gro_len skb \<and>
      (gc_proto skb \<noteq> IPPROTO_TCP \<or> g_protocol p = ETH_P_IPV6 \<and> g_headroom p < sizeof_hop_jumbo_hdr \<or> g_encapsulation p)"

lemma receive_refused: "refuses max_size p skb \<Longrightarrow> \<exists>e. skb_gro_receive max_size p skb = Some (Inl e)"
  unfolding refuses_def skb_gro_receive_def Let_def by auto

abbreviation merged_into :: "gro_skb \<Rightarrow> gro_skb \<Rightarrow> gro_skb \<Rightarrow> (gro_errno + gro_skb \<times> gro_skb) option" where
  "merged_into skb x s \<equiv> Some (Inr (gro_merge_done (gc_count skb) (skb_gro_len skb) x, s))"

lemma receive_as_part:
  assumes "\<not> refuses max_size p skb" "gro_merge p skb = Some q"
    and "skb_headlen skb \<le> skb_gro_offset skb \<longrightarrow> MAX_SKB_FRAGS < length (pt_frags (last_part p)) + nr_frags skb"
    and "\<not> skb_headlen skb \<le> skb_gro_offset skb \<longrightarrow> g_head_frag skb \<longrightarrow> MAX_SKB_FRAGS < length (pt_frags (last_part p)) + 1 + nr_frags skb"
  shows "skb_gro_receive max_size p skb = merged_into skb q (skb\<lparr>gc_same_flow := True\<rparr>)"
  using assms unfolding refuses_def skb_gro_receive_def Let_def by (cases "skb_headlen skb \<le> skb_gro_offset skb") simp_all

lemma receive_frags:
  assumes "\<not> refuses max_size p skb" "skb_headlen skb \<le> skb_gro_offset skb"
    and "\<not> MAX_SKB_FRAGS < length (pt_frags (last_part p)) + nr_frags skb"
    and "eat_frag (skb_gro_offset skb - skb_headlen skb) (pt_frags (g_self skb)) = Some fs"
  shows "skb_gro_receive max_size p skb = merged_into skb (append_frags fs p)
    (skb\<lparr>g_self := (g_self skb)\<lparr>pt_frags := []\<rparr>, g_len := g_len skb - g_data_len skb, g_data_len := 0,
      gc_free := NAPI_GRO_FREE, gc_same_flow := True\<rparr>)"
  using assms unfolding refuses_def skb_gro_receive_def Let_def by simp

lemma receive_head_frag:
  assumes "\<not> refuses max_size p skb" "\<not> skb_headlen skb \<le> skb_gro_offset skb" "g_head_frag skb"
    and "\<not> MAX_SKB_FRAGS < length (pt_frags (last_part p)) + 1 + nr_frags skb"
  shows "skb_gro_receive max_size p skb =
    merged_into skb (append_frags (drop (skb_gro_offset skb) (pt_head (g_self skb)) # pt_frags (g_self skb)) p)
      (skb\<lparr>gc_free := NAPI_GRO_FREE_STOLEN_HEAD, gc_same_flow := True\<rparr>)"
  using assms unfolding refuses_def skb_gro_receive_def Let_def by simp

text \<open>In each way of joining the buffers the data follow.\<close>

lemma receive_accepted:
  assumes "\<not> refuses max_size p skb" "mergeable skb"
  shows "\<exists>x s. skb_gro_receive max_size p skb = merged_into skb x s \<and>
    gro_content x = gro_content p @ drop (skb_gro_offset skb) (gro_content skb) \<and> g_len x = g_len p \<and> gc_count x = gc_count p \<and> gc_same_flow s"
proof -
  obtain q where q: "gro_merge p skb = Some q" "gro_content q = gro_content p @ drop (skb_gro_offset skb) (gro_content skb)"
    "g_len q = g_len p" "gc_count q = gc_count p" using merge_data [OF assms(2)] .
  have a: "g_len (append_frags fs p) = g_len p" "gc_count (append_frags fs p) = gc_count p" for fs
    by (simp_all add: append_frags_def upd_last_def)
  consider (part) "skb_headlen skb \<le> skb_gro_offset skb \<longrightarrow> MAX_SKB_FRAGS < length (pt_frags (last_part p)) + nr_frags skb"
      "\<not> skb_headlen skb \<le> skb_gro_offset skb \<longrightarrow> g_head_frag skb \<longrightarrow> MAX_SKB_FRAGS < length (pt_frags (last_part p)) + 1 + nr_frags skb"
    | (frags) "skb_headlen skb \<le> skb_gro_offset skb" "\<not> MAX_SKB_FRAGS < length (pt_frags (last_part p)) + nr_frags skb"
    | (head) "\<not> skb_headlen skb \<le> skb_gro_offset skb" "g_head_frag skb" "\<not> MAX_SKB_FRAGS < length (pt_frags (last_part p)) + 1 + nr_frags skb"
    by blast
  then show ?thesis
  proof cases
    case part
    show ?thesis using receive_as_part [OF assms(1) q(1) part] q(2-) by auto
  next
    case frags
    obtain fs where fs: "eat_frag (skb_gro_offset skb - skb_headlen skb) (pt_frags (g_self skb)) = Some fs"
      "concat fs = drop (skb_gro_offset skb) (gro_content skb)" using eat_frag_data [OF assms(2) frags(1)] .
    show ?thesis using receive_frags [OF assms(1) frags fs(1)] a content_append_frags [of fs p] fs(2) by auto
  next
    case head
    have "drop (skb_gro_offset skb) (pt_head (g_self skb)) @ concat (pt_frags (g_self skb)) = drop (skb_gro_offset skb) (gro_content skb)"
      using head(1) mergeable_content [OF assms(2)] by (simp add: skb_headlen_def)
    then show ?thesis using receive_head_frag [OF assms(1) head] a content_append_frags [of _ p] by auto
  qed
qed

text \<open>
  C19. Merging keeps the data: a packet is refused with an error, or the packet that it is merged into has its payload behind its own data, in
  whichever of the three ways the buffers are joined, with an exact length below the limit and the segments counted. The code never
  takes a fragment that is not there.
\<close>

theorem gro_merge_keeps_data:
  assumes "mergeable skb" "g_len p = length (gro_content p)"
  shows "\<exists>r. skb_gro_receive max_size p skb = Some r \<and>
    (\<forall>p' skb'. r = Inr (p', skb') \<longrightarrow>
       gro_content p' = gro_content p @ drop (skb_gro_offset skb) (gro_content skb) \<and> g_len p' = length (gro_content p') \<and>
       g_len p' < max_size \<and> gc_count p' = gc_count p + gc_count skb \<and> gc_same_flow skb')"
proof (cases "refuses max_size p skb")
  case True
  then show ?thesis using receive_refused by fastforce
next
  case False
  have len: "skb_gro_len skb = length (gro_content skb) - skb_gro_offset skb" "g_len p + skb_gro_len skb < max_size"
    using assms(1) False by (auto simp: mergeable_def skb_gro_len_def skb_gro_offset_def refuses_def)
  obtain x s where r: "skb_gro_receive max_size p skb = merged_into skb x s"
    and x: "gro_content x = gro_content p @ drop (skb_gro_offset skb) (gro_content skb)" "g_len x = g_len p" "gc_count x = gc_count p" "gc_same_flow s"
    using receive_accepted [OF False assms(1)] by blast
  have "g_len (gro_merge_done n l x) = g_len x + l" "gc_count (gro_merge_done n l x) = gc_count x + n" for n l
    by (simp_all add: gro_merge_done_def)
  then show ?thesis using r x assms(2) len by simp
qed

text \<open>A datagram from 1.1.1.1 to 2.2.2.2 with two bytes of payload.\<close>

definition demo_gro_skb :: "u8 \<Rightarrow> gro_skb" where
  "demo_gro_skb x =
     (let d = [0x45, 0, 0, 30, 0, 0, 0, 0, 64, 17, 0, 0, 1, 1, 1, 1, 2, 2, 2, 2] @ [0, 9, 0, 7, 0, 10, 1, 1] @ [x, x] in
      \<lparr>g_self = \<lparr>pt_head = d, pt_frags = []\<rparr>, g_frag_list = [], g_len = 30, g_data_len = 0, g_headroom = 64, g_tailroom = 0,
        g_frag_page_ok = True, g_head_frag = False, g_pp_recycle = False, g_hash = 5, g_dev = 1, g_vlan_all = 0, g_mac_header = [],
        g_slow_gro = False, g_sk = None, g_nfct = 0, g_tc_ext = None, g_protocol = ETH_P_IP, g_encapsulation = False,
        g_ip_summed = CHECKSUM_NONE, g_csum_level = 0, g_gso_size = 0, g_gso_segs = 0, g_gso_tcp = False, g_gso_dodgy = False,
        g_gso_udp_l4 = False, g_gso_fraglist = False, g_gso_ipxip4 = False, g_transport_header = 20, gc_data_offset = 0, gc_network_offsets = (\<lambda>_. 0),
        gc_frag0 = d, gc_frag0_len = 30, gc_flush = False, gc_same_flow = False, gc_count = 1, gc_free = NAPI_GRO_NOT_FREED, gc_age = 0,
        gc_proto = 17, gc_is_flist = False, gc_encap_mark = False, gc_csum_valid = False, gc_csum_cnt = 0\<rparr>)"

theorem gro_merge_keeps_data_witness:
  "\<exists>r. skb_gro_receive 65536 (demo_gro_skb 1) ((demo_gro_skb 2)\<lparr>gc_data_offset := 28\<rparr>) = Some r \<and> (\<exists>p' skb'. r = Inr (p', skb') \<and>
     gro_content p' = gro_content (demo_gro_skb 1) @ [2, 2])"
proof -
  let ?s = "(demo_gro_skb 2)\<lparr>gc_data_offset := 28\<rparr>"
  have "mergeable ?s" "g_len (demo_gro_skb 1) = length (gro_content (demo_gro_skb 1))" "drop (skb_gro_offset ?s) (gro_content ?s) = [2, 2]"
    by (simp_all add: mergeable_def gro_content_def part_data_def skb_gro_len_def skb_headlen_def skb_gro_offset_def demo_gro_skb_def Let_def)
  moreover have "\<exists>x. skb_gro_receive 65536 (demo_gro_skb 1) ?s = Some (Inr x)"
    by (simp add: skb_gro_receive_def gro_merge_def skb_headlen_def skb_gro_offset_def skb_gro_len_def GRO_LEGACY_MAX_SIZE_def demo_gro_skb_def Let_def)
  ultimately show ?thesis using gro_merge_keeps_data [of ?s "demo_gro_skb 1" 65536] by fastforce
qed

end
