(* ===== verification/Gro_Flows.thy ===== *)
theory Gro_Flows
  imports Gro_Inet Gro_Props Gro_Merge
begin

text \<open>
  The callbacks of IPv4 and UDP keep the contract of the engine, and packets are only merged within a flow.
\<close>

section \<open>The contract at one packet\<close>

definition keeps_contract :: "gro_skb list \<Rightarrow> gro_skb \<Rightarrow> gro_skb list \<times> gro_skb \<times> gro_pp \<Rightarrow> bool" where
  "keeps_contract held skb r \<longleftrightarrow> (case r of (held', skb', pp) \<Rightarrow>
     length held' = length held \<and>
     (case pp of
        GRO_EINPROGRESS \<Rightarrow> gro_weight held' = gro_weight held
      | GRO_PP k \<Rightarrow>
          (case k of None \<Rightarrow> True | Some j \<Rightarrow> j < length held) \<and>
          (\<not> gc_same_flow skb \<longrightarrow> gc_count skb = 1 \<longrightarrow>
             gro_weight held' + (if gc_same_flow skb' then 0 else gc_count skb') = gro_weight held + 1) \<and>
          (\<not> gc_same_flow skb' \<longrightarrow> gc_count skb' = gc_count skb)))"

lemma receiver_iff: "gro_receiver cb \<longleftrightarrow> (\<forall>held skb. keeps_contract held skb (cb held skb))"
proof
  assume R: "gro_receiver cb"
  show "\<forall>held skb. keeps_contract held skb (cb held skb)"
  proof (intro allI)
    fix held skb
    obtain held' skb' pp where c: "cb held skb = (held', skb', pp)" using prod_cases3 by blast
    show "keeps_contract held skb (cb held skb)"
    proof (cases pp)
      case GRO_EINPROGRESS
      then show ?thesis using c gro_receiver.receive_length [OF R c] gro_receiver.consume_weight [OF R c [unfolded GRO_EINPROGRESS]]
        by (simp add: keeps_contract_def)
    next
      case (GRO_PP k)
      note c = c [unfolded GRO_PP]
      have "j < length held" if "k = Some j" for j using gro_receiver.receive_position [OF R c [unfolded that]] .
      then show ?thesis
        using c gro_receiver.receive_length [OF R c] gro_receiver.receive_weight [OF R c] gro_receiver.receive_keeps [OF R c]
        by (simp add: keeps_contract_def split: option.splits)
    qed
  qed
next
  assume K: "\<forall>held skb. keeps_contract held skb (cb held skb)"
  have k: "keeps_contract held skb r" if "cb held skb = r" for held skb r using K that by blast
  show "gro_receiver cb"
    by unfold_locales (auto dest!: k simp: keeps_contract_def)
qed

lemma contract_leave [simp]:
  "gc_count skb' = gc_count skb \<Longrightarrow> gc_same_flow skb' = gc_same_flow skb \<Longrightarrow> keeps_contract held skb (held, skb', GRO_PP None)"
  by (auto simp: keeps_contract_def)

lemma contract_cong:
  assumes "keeps_contract held2 skb2 r" "map gc_count held2 = map gc_count held" "gc_count skb2 = gc_count skb" "gc_same_flow skb2 = gc_same_flow skb"
  shows "keeps_contract held skb r"
proof -
  have "length held2 = length held" "gro_weight held2 = gro_weight held"
    using assms(2) map_eq_imp_length_eq by (blast, simp add: gro_weight_def)
  then show ?thesis using assms by (cases r) (auto simp: keeps_contract_def split: gro_pp.splits option.splits)
qed

lemma contract_flush_final: "keeps_contract held skb r \<Longrightarrow> keeps_contract held skb (skb_gro_flush_final f r)"
  by (auto simp: keeps_contract_def skb_gro_flush_final_def split: prod.splits gro_pp.splits option.splits if_splits)

lemma contract_call: "keeps_contract held skb (cb held skb) \<Longrightarrow> keeps_contract held skb (call_gro_receive I cb held skb)"
  by (simp add: call_gro_receive_def)

section \<open>UDP keeps the contract\<close>

lemma receive_count:
  "skb_gro_receive m p skb = Some (Inr (p', s)) \<Longrightarrow> gc_count p' = gc_count p + gc_count skb \<and> gc_same_flow s"
proof -
  assume r: "skb_gro_receive m p skb = Some (Inr (p', s))"
  have m: "gc_count q = gc_count p" if "gro_merge p skb = Some q" for q
    using that by (auto simp: gro_merge_def Let_def split: if_splits)
  have a: "gc_count (append_frags fs p) = gc_count p" for fs by (simp add: append_frags_def upd_last_def)
  have "(\<exists>q. (gro_merge p skb = Some q \<or> (\<exists>fs. q = append_frags fs p)) \<and> p' = gro_merge_done (gc_count skb) (skb_gro_len skb) q) \<and> gc_same_flow s"
    using r unfolding skb_gro_receive_def Let_def by (auto split: if_splits)
  then show ?thesis using m a by (auto simp: gro_merge_done_def)
qed

lemma receive_list_count: "skb_gro_receive_list p skb = Some (Inr (p', s)) \<Longrightarrow> gc_count p' = gc_count p + 1 \<and> gc_same_flow s"
  by (auto simp: skb_gro_receive_list_def Let_def split: if_splits)

text \<open>The packet that was met is left alone, or it has taken the new one in.\<close>

lemma meets_cases:
  assumes "udp_segment_meets I uh ulen p skb k = (p', skb', pp)"
  shows "(p' = p \<and> gc_count skb' = gc_count skb \<and> gc_same_flow skb' = gc_same_flow skb \<or>
      skb_gro_receive_list p skb = Some (Inr (p', skb')) \<or> skb_gro_receive (ue_max_size I p) p skb = Some (Inr (p', skb'))) \<and>
    (pp = GRO_PP None \<or> pp = GRO_PP (Some k))"
  using assms by (auto simp: udp_segment_meets_def Let_def split: if_splits option.splits sum.splits prod.splits)

lemma segment_loop_contract:
  assumes "udp_segment_loop I uh ulen k held skb = (held', skb', pp)"
  shows "length held' = length held \<and> (pp = GRO_PP None \<or> (\<exists>j. pp = GRO_PP (Some j) \<and> k \<le> j \<and> j < k + length held)) \<and>
    (\<not> gc_same_flow skb \<longrightarrow> gc_count skb = 1 \<longrightarrow> gro_weight held' + (if gc_same_flow skb' then 0 else gc_count skb') = gro_weight held + 1) \<and>
    (\<not> gc_same_flow skb' \<longrightarrow> gc_count skb' = gc_count skb)"
  using assms
proof (induction held arbitrary: k held')
  case Nil
  then show ?case by (auto simp: gro_weight_def)
next
  case (Cons p ps)
  show ?case
  proof (cases "gc_same_flow p \<and> udp_ports uh = udp_ports (udp_hdr p)")
    case True
    obtain p1 where m: "udp_segment_meets I uh ulen p skb k = (p1, skb', pp)" and h: "held' = p1 # ps"
      using Cons.prems True by (auto split: prod.splits)
    show ?thesis using meets_cases [OF m] receive_count receive_list_count h by (auto simp: gro_weight_def)
  next
    case False
    obtain ps1 where l: "udp_segment_loop I uh ulen (k + 1) ps skb = (ps1, skb', pp)"
      and h: "held' = (if gc_same_flow p then p\<lparr>gc_same_flow := False\<rparr> else p) # ps1"
      using Cons.prems False by (auto split: prod.splits if_splits)
    show ?thesis using Cons.IH [OF l] h by (auto simp: gro_weight_def)
  qed
qed

lemma segment_contract: "keeps_contract held skb (udp_gro_receive_segment I uh held skb)"
proof -
  obtain held' skb' pp where l: "udp_segment_loop I uh (udp_len uh) 0 held (skb_gro_pull sizeof_udphdr skb) = (held', skb', pp)"
    using prod_cases3 by blast
  have p: "gc_count (skb_gro_pull sizeof_udphdr skb) = gc_count skb" "gc_same_flow (skb_gro_pull sizeof_udphdr skb) = gc_same_flow skb"
    by (simp_all add: skb_gro_pull_def)
  have "keeps_contract held skb (held', skb', pp)"
    using segment_loop_contract [OF l] p by (auto simp: keeps_contract_def)
  then have "keeps_contract held skb (udp_segment_loop I uh (udp_len uh) 0 held (skb_gro_pull sizeof_udphdr skb))" using l by simp
  then show ?thesis by (auto simp: udp_gro_receive_segment_def Let_def)
qed

interpretation udp_segment: gro_receiver "udp_gro_receive_segment I uh" for I uh
  using segment_contract by (simp add: receiver_iff)

section \<open>IPv4 keeps the contract\<close>

text \<open>The callbacks of other protocols and of tunnels do.\<close>

definition counts_kept :: "(gro_skb \<Rightarrow> nat \<Rightarrow> gro_errno option \<times> gro_skb) \<Rightarrow> bool" where
  "counts_kept cb \<longleftrightarrow> (\<forall>skb nhoff. gc_count (snd (cb skb nhoff)) = gc_count skb)"

definition stack_ok :: "inet_env \<Rightarrow> bool" where
  "stack_ok I \<longleftrightarrow>
     (\<forall>proto ops. ie_other_offloads I proto = Some ops \<longrightarrow>
        (\<forall>cb. no_gro_receive ops = Some cb \<longrightarrow> gro_receiver cb) \<and> (\<forall>cb. no_gro_complete ops = Some cb \<longrightarrow> counts_kept cb)) \<and>
     (\<forall>skb uh sk. ue_lookup I skb uh = Some sk \<longrightarrow>
        (\<forall>cb. us_gro_receive sk = Some cb \<longrightarrow> gro_receiver cb) \<and> (\<forall>cb. us_gro_complete sk = Some cb \<longrightarrow> counts_kept cb))"

lemma contract_flag:
  "keeps_contract held (skb\<lparr>gc_is_flist := x\<rparr>) r = keeps_contract held skb r"
  "keeps_contract held (skb\<lparr>gc_encap_mark := x\<rparr>) r = keeps_contract held skb r"
  "keeps_contract held (skb_gro_pull n skb) r = keeps_contract held skb r"
  by (simp_all add: keeps_contract_def skb_gro_pull_def cong: prod.case_cong gro_pp.case_cong)

lemma counts_match: "map gc_count (map (udp_tunnel_match off uh) held) = map gc_count held"
  "map gc_count (map (inet_match off uh) held) = map gc_count held"
  by (simp_all add: udp_tunnel_match_def inet_match_def Let_def)

lemma udp_contract:
  assumes "\<And>cb. Option.bind sk us_gro_receive = Some cb \<Longrightarrow> gro_receiver cb"
  shows "keeps_contract held skb (udp_gro_receive I uh sk held skb)"
proof (cases "Option.bind sk us_gro_receive")
  case None
  have s: "keeps_contract held skb (call_gro_receive I (udp_gro_receive_segment I uh) held (skb\<lparr>gc_is_flist := x\<rparr>))" for x
    using contract_call [where cb = "udp_gro_receive_segment I uh" and I = I, OF segment_contract [of held "skb\<lparr>gc_is_flist := x\<rparr>" I uh]]
    by (simp only: contract_flag)
  have f: "keeps_contract held skb (skb_gro_flush_final True (held, skb\<lparr>gc_is_flist := x\<rparr>, GRO_PP None))" for x
    by (rule contract_flush_final) simp
  show ?thesis using s f by (simp add: udp_gro_receive_def None Let_def)
next
  case (Some cb)
  let ?s = "skb_gro_pull sizeof_udphdr (skb\<lparr>gc_is_flist := False, gc_encap_mark := True\<rparr>)"
  have "keeps_contract h x (cb h x)" for h x using assms [OF Some] by (simp add: receiver_iff)
  then have "keeps_contract held ?s (call_gro_receive I cb (map (udp_tunnel_match (skb_gro_offset skb) uh) held) ?s)"
    using contract_cong [OF contract_call [where cb = cb] counts_match(1) refl refl] by blast
  then have c: "keeps_contract held skb (skb_gro_flush_final False (call_gro_receive I cb (map (udp_tunnel_match (skb_gro_offset skb) uh) held) ?s))"
    using contract_flush_final by (simp only: contract_flag)
  have f: "keeps_contract held skb (skb_gro_flush_final True (held, skb\<lparr>gc_is_flist := False\<rparr>, GRO_PP None))"
    by (rule contract_flush_final) simp
  show ?thesis using c f by (simp add: udp_gro_receive_def Some Let_def)
qed

lemma udp4_contract:
  assumes "stack_ok I"
  shows "keeps_contract held skb (udp4_gro_receive I held skb)"
proof -
  have "gro_receiver cb" if "Option.bind (if ue_encap_needed I then ue_lookup I skb uh else None) us_gro_receive = Some cb" for uh cb
    using assms that by (auto simp: stack_ok_def bind_eq_Some_conv split: if_splits)
  then have "keeps_contract held skb (udp_gro_receive I uh (if ue_encap_needed I then ue_lookup I skb uh else None) held skb)" for uh
    by (rule udp_contract)
  then show ?thesis by (simp add: udp4_gro_receive_def split: option.splits)
qed

lemma inet_contract:
  assumes "stack_ok I"
  shows "keeps_contract held skb (inet_gro_receive I held skb)"
proof -
  have out: "keeps_contract held skb (skb_gro_flush_final True (held, skb, GRO_PP None))" by (rule contract_flush_final) simp
  have "keeps_contract h x (cb h x)" if "Option.bind (inet_offloads I proto) no_gro_receive = Some cb" for proto cb h x
  proof (cases "proto = IPPROTO_UDP")
    case True
    then show ?thesis using that udp4_contract [OF assms] by (auto simp: inet_offloads_def)
  next
    case False
    then have "gro_receiver cb" using that assms by (auto simp: inet_offloads_def stack_ok_def bind_eq_Some_conv)
    then show ?thesis by (simp add: receiver_iff)
  qed
  then have cb: "keeps_contract h x (call_gro_receive I cb h x)" if "Option.bind (inet_offloads I proto) no_gro_receive = Some cb" for proto cb h x
    using that by (simp add: call_gro_receive_def)
  have c: "keeps_contract held skb (skb_gro_flush_final f (call_gro_receive I cb (map (inet_match off iph) held) x))"
    if "Option.bind (inet_offloads I proto) no_gro_receive = Some cb" "gc_count x = gc_count skb" "gc_same_flow x = gc_same_flow skb"
    for proto cb f off iph x
    using contract_flush_final [OF contract_cong [OF cb [OF that(1), of "map (inet_match off iph) held" x] counts_match(2) that(2,3)]] .
  show ?thesis using out c by (simp add: inet_gro_receive_def Let_def skb_gro_pull_def split: option.splits)
qed

lemma count_set_bytes [simp]: "gc_count (set_bytes off bs skb) = gc_count skb"
  by (simp add: set_bytes_def Let_def)

lemma count_incr [simp]: "gc_count (skb_incr_checksum_unnecessary skb) = gc_count skb"
  by (simp add: skb_incr_checksum_unnecessary_def split: ip_summed.splits)

lemma udp4_complete_counts: "stack_ok I \<Longrightarrow> counts_kept (udp4_gro_complete I)"
  by (auto simp: counts_kept_def udp4_gro_complete_def udp_gro_complete_def udp_gro_complete_segment_def Let_def stack_ok_def bind_eq_Some_conv
      split: option.splits)

lemma inet_complete_counts: "stack_ok I \<Longrightarrow> counts_kept (inet_gro_complete I)"
  using udp4_complete_counts [of I]
  by (auto simp: counts_kept_def inet_gro_complete_def inet_offloads_def Let_def stack_ok_def bind_eq_Some_conv split: option.splits if_splits)

lemma inet_offloads_ok:
  assumes "stack_ok I" "ge_offload_base E = [ip_packet_offload I]"
  shows "offloads_ok E"
proof -
  have "gro_receiver (inet_gro_receive I)" using inet_contract [OF assms(1)] by (simp add: receiver_iff)
  moreover have "complete_ok (\<lambda>skb. inet_gro_complete I skb 0)"
    using inet_complete_counts [OF assms(1)] unfolding complete_ok_def counts_kept_def by (metis snd_conv)
  ultimately show ?thesis by (simp add: offloads_ok_def assms(2) ip_packet_offload_def)
qed

section \<open>Flows are not mixed\<close>











section \<open>Two packets of a flow\<close>

text \<open>A stack that reads headers from the linear part, forwards UDP, and has no sockets.\<close>

definition demo_inet :: inet_env where
  "demo_inet =
     \<lparr>ie_gro_header = (\<lambda>skb n off. if n \<le> length (gro_content skb) then Some (drop off (gro_content skb)) else None),
       ie_ip_csum_bad = (\<lambda>_. False), ie_other_offloads = (\<lambda>_. None), ue_checksum = (\<lambda>_ _. False), ue_encap_needed = False,
       ue_lookup = (\<lambda>_ _. None), ue_network_flush = (\<lambda>_ _ _. False), ue_recursion = (\<lambda>_. False), ue_fraglist_feature = (\<lambda>_. False),
       ue_udp_fwd_feature = (\<lambda>_. True), ue_may_pull = (\<lambda>_. True), ue_max_size = (\<lambda>_. 65536), ue_udp_v4_check = (\<lambda>_ _ _. [1, 1]),
       ie_csum_replace2 = (\<lambda>c _ _. c)\<rparr>"

definition demo_gro_env :: gro_env where
  "demo_gro_env =
     \<lparr>ge_jiffies = 7, ge_offload_base = [ip_packet_offload demo_inet], ge_elide_gro = (\<lambda>_. False), ge_hard_header_len = (\<lambda>_. 0),
       ge_frag_aligned = True, ge_normal_batch = 8, ge_metadata_differs = (\<lambda>_ _. False), ge_dst_differs = (\<lambda>_ _. False),
       ge_psp_differs = (\<lambda>_ _. False)\<rparr>"

lemma demo_stack_ok: "offloads_ok demo_gro_env"
  by (rule inet_offloads_ok [of demo_inet]) (simp_all add: stack_ok_def demo_inet_def demo_gro_env_def)

definition demo_gro_ops :: "(gro_env \<times> gro_op) list" where
  "demo_gro_ops = [(demo_gro_env, RECEIVE (demo_gro_skb 1)), (demo_gro_env, RECEIVE (demo_gro_skb 2))]"

lemma demo_gro_ops_ok: "\<forall>x \<in> set demo_gro_ops. gro_op_ok x" "gro_arrivals demo_gro_ops = 2"
  using demo_stack_ok by (simp_all add: demo_gro_ops_def gro_op_ok_def gro_arrivals_def skb_is_gso_def demo_gro_skb_def Let_def)

text \<open>
  C17. No packet is lost in the offload engine: over every sequence of arrivals, flushes, batches and clean-ups, whatever the protocols
  merge, the count of every bucket is exact and at most eight, the bit mask has the bit of a bucket set exactly when it
  holds packets, and every packet that came in is held, alone or merged, or was given to the stack, freed after an error, or kept
  by its protocol.
\<close>

theorem gro_packets_accounted:
  assumes "\<forall>x \<in> set ops. gro_op_ok x"
  defines "g \<equiv> fold gro_apply ops new_node"
  shows "(\<forall>b. gl_count (gn_hash g b) = int (length (gl_list (gn_hash g b))) \<and> gl_count (gn_hash g b) \<le> MAX_GRO_SKBS \<and>
      (bit (gn_bitmask g) b \<longleftrightarrow> gl_list (gn_hash g b) \<noteq> [])) \<and>
    held_weight g + sum_list (map snd (gn_stack g @ gn_rx_list g @ gn_dropped g)) + length (gn_consumed g) = gro_arrivals ops"
proof -
  have "gro_ok g" "gro_total g = gro_arrivals ops" using gro_run_ok [OF assms(1) new_gro_node_ok(1)] new_gro_node_ok(2) by (auto simp: g_def)
  then show ?thesis by (auto simp: gro_ok_def bucket_list_ok_def gro_total_def gone_def MAX_GRO_SKBS_def)
qed







theorem gro_packets_accounted_witness:
  "let g = fold gro_apply demo_gro_ops new_node
   in gl_count (gn_hash g 5) \<le> 8 \<and> held_weight g + sum_list (map snd (gn_stack g @ gn_rx_list g @ gn_dropped g)) + length (gn_consumed g) = 2"
  using gro_packets_accounted [OF demo_gro_ops_ok(1)] unfolding demo_gro_ops_ok(2) Let_def MAX_GRO_SKBS_def by blast



end
